(* ===== verification/Prelude.thy ===== *)
theory Prelude
  imports Main "HOL-Library.Word" "HOL-Library.Monad_Syntax"
begin

text \<open>
  What every component of the model shares: the machine integer types of the C sources, byte
  memory with checked block copies (\<open>memcpy\<close>), and the generic facts about words and
  lists that the component proofs use.

  A memory object (a heap block, a mapped file, a caller's buffer) is a list of bytes. A copy
  that leaves the object is undefined behaviour in C; here it is \<open>None\<close>, so a
  theorem that an operation returns \<open>Some\<close> is a memory-safety theorem.
\<close>

section \<open>Integer types and rule collections\<close>

type_synonym u8 = "8 word"
type_synonym u32 = "32 word"
type_synonym u64 = "64 word"
type_synonym bytes = "u8 list"

named_theorems word_conv \<open>conversions between words and natural numbers\<close>
named_theorems mem_simps \<open>evaluation of checked memory accesses that are in bounds\<close>

lemma unat_ucast_mod [word_conv]:
  "unat (ucast (w :: 'a::len word) :: 'b::len word) = unat w mod 2 ^ LENGTH('b)"
  by (simp add: unsigned_ucast_eq take_bit_eq_mod)

lemma unat_u32_less [simp]: "unat (w :: u32) < 4294967296"
  using unsigned_less [of w, where 'a = nat] by simp

lemma unat_u64_less [simp]: "unat (w :: u64) < 18446744073709551616"
  using unsigned_less [of w, where 'a = nat] by simp

lemma unat_u32_to_u64 [word_conv, simp]: "unat (ucast (w :: u32) :: u64) = unat w"
proof -
  have "unat w < 18446744073709551616"
    using unat_u32_less [of w] by linarith
  then show ?thesis by (simp add: unat_ucast_mod)
qed

lemma unat_u64_to_u32 [word_conv]: "unat (ucast (w :: u64) :: u32) = unat w mod 4294967296"
  by (simp add: unat_ucast_mod)

lemma unat_u64_to_u32_small [simp]:
  "unat (w :: u64) < 4294967296 \<Longrightarrow> unat (ucast w :: u32) = unat w"
  by (simp add: unat_u64_to_u32)

lemma u32_to_u64_to_u32 [simp]: "ucast (ucast (w :: u32) :: u64) = w"
  by (rule word_unat_eq_iff [THEN iffD2]) (simp add: unat_u64_to_u32)

lemma unat_if_min:
  "unat (if (a :: 'a::len word) < b then a else b) = min (unat a) (unat b)"
  by (simp add: word_less_nat_alt)

lemma word_eq_of_natI: "unat (w :: 'a::len word) = n \<Longrightarrow> w = of_nat n"
  by auto

lemma unat_of_nat_u32 [simp]: "n < 4294967296 \<Longrightarrow> unat (of_nat n :: u32) = n"
  by (simp add: unat_of_nat)

lemma unat_of_nat_u64 [simp]: "n < 18446744073709551616 \<Longrightarrow> unat (of_nat n :: u64) = n"
  by (simp add: unat_of_nat)

lemma ucast_of_nat_u32 [simp]:
  assumes "n < 4294967296"
  shows "ucast (of_nat n :: u32) = (of_nat n :: u64)"
  by (rule word_eq_of_natI) (simp add: assms)

lemma u32_eq_0_iff: "(w :: u32) = 0 \<longleftrightarrow> unat w = 0"
  by (simp add: unat_eq_0)

lemma sint_u64_small:
  assumes "unat (w :: u64) < 2 ^ 63"
  shows "sint w = int (unat w)"
proof -
  have "int (unat w) < int (2 ^ 63)" using assms by (simp only: of_nat_less_iff)
  then have u: "uint w < 2 ^ 63" by (simp only: uint_nat of_nat_power of_nat_numeral)
  have "0 \<le> uint w" by simp
  then have "signed_take_bit 63 (uint w) = uint w" using u by (intro signed_take_bit_int_eq_self) linarith+
  then show ?thesis by (simp add: sint_uint)
qed

section \<open>Byte memory\<close>

text \<open>
  \<open>mem_load m off n\<close> reads \<open>n\<close> bytes at an offset, \<open>mem_store m off xs\<close> writes a
  block there, and \<open>memcpy\<close> is the composition the C code performs between two objects.
\<close>

definition mem_load :: "bytes \<Rightarrow> nat \<Rightarrow> nat \<Rightarrow> bytes option" where
  "mem_load m off n = (if off + n \<le> length m then Some (take n (drop off m)) else None)"

definition blit :: "bytes \<Rightarrow> nat \<Rightarrow> bytes \<Rightarrow> bytes" where
  "blit m off xs = take off m @ xs @ drop (off + length xs) m"

definition mem_store :: "bytes \<Rightarrow> nat \<Rightarrow> bytes \<Rightarrow> bytes option" where
  "mem_store m off xs = (if off + length xs \<le> length m then Some (blit m off xs) else None)"

definition memcpy :: "bytes \<Rightarrow> nat \<Rightarrow> bytes \<Rightarrow> nat \<Rightarrow> nat \<Rightarrow> bytes option" where
  "memcpy dst doff src soff n = do { xs \<leftarrow> mem_load src soff n; mem_store dst doff xs }"

lemma mem_load_in [mem_simps]:
  "off + n \<le> length m \<Longrightarrow> mem_load m off n = Some (take n (drop off m))"
  by (simp add: mem_load_def)

lemma mem_store_in [mem_simps]:
  "off + length xs \<le> length m \<Longrightarrow> mem_store m off xs = Some (blit m off xs)"
  by (simp add: mem_store_def)

lemma memcpy_in [mem_simps]:
  "soff + n \<le> length src \<Longrightarrow> doff + n \<le> length dst \<Longrightarrow>
   memcpy dst doff src soff n = Some (blit dst doff (take n (drop soff src)))"
  by (simp add: memcpy_def mem_simps)

lemma memcpy_eq_Some_iff:
  "memcpy dst doff src soff n = Some m \<longleftrightarrow>
   soff + n \<le> length src \<and> doff + n \<le> length dst \<and>
   m = blit dst doff (take n (drop soff src))"
  by (auto simp: memcpy_def mem_load_def mem_store_def)

lemma memcpy_eq_None_iff:
  "memcpy dst doff src soff n = None \<longleftrightarrow> length src < soff + n \<or> length dst < doff + n"
  by (auto simp: memcpy_def mem_load_def mem_store_def)

lemma length_blit [simp]: "off + length xs \<le> length m \<Longrightarrow> length (blit m off xs) = length m"
  by (simp add: blit_def)

lemma blit_Nil [simp]: "blit m off [] = m"
  by (simp add: blit_def)

lemma nth_blit:
  "off + length xs \<le> length m \<Longrightarrow> i < length m \<Longrightarrow>
   blit m off xs ! i = (if off \<le> i \<and> i < off + length xs then xs ! (i - off) else m ! i)"
  by (auto simp: blit_def nth_append)

lemma take_blit_0: "length xs \<le> length m \<Longrightarrow> take (length xs) (blit m 0 xs) = xs"
  by (simp add: blit_def)

lemma blit_0: "blit m 0 xs = xs @ drop (length xs) m"
  by (simp add: blit_def)

lemma blit_0_adjacent:
  "length xs + length ys \<le> length m \<Longrightarrow>
   blit (blit m 0 xs) (length xs) ys = blit m 0 (xs @ ys)"
  by (simp add: blit_def add.commute)

lemma blit_drop: "off \<le> length m \<Longrightarrow> take off m @ blit (drop off m) 0 xs = blit m off xs"
  by (simp add: blit_def add.commute)

lemma blit_blit:
  "length xs \<le> length ys \<Longrightarrow> off + length ys \<le> length m \<Longrightarrow> blit (blit m off xs) off ys = blit m off ys"
  by (simp add: blit_def add.commute)

lemma load_blit_disjoint:
  assumes "off + length xs \<le> length m" and "src + n \<le> off \<or> off + length xs \<le> src"
  shows "take n (drop src (blit m off xs)) = take n (drop src m)"
proof (rule nth_equalityI)
  show "length (take n (drop src (blit m off xs))) = length (take n (drop src m))" using assms(1) by simp
  fix i assume "i < length (take n (drop src (blit m off xs)))"
  then have "i < n" "src + i < length m" using assms(1) by auto
  then show "take n (drop src (blit m off xs)) ! i = take n (drop src m) ! i"
    using assms nth_blit [OF assms(1), of "src + i"] by auto
qed

lemma blit_self: "off + n \<le> length m \<Longrightarrow> blit m off (take n (drop off m)) = m"
proof -
  assume n: "off + n \<le> length m"
  have "drop (off + n) m = drop n (drop off m)" by (simp add: add.commute)
  then show ?thesis using n by (simp add: blit_def min_absorb2 del: drop_drop)
qed

lemma load_blit: "off + length xs \<le> length m \<Longrightarrow> take (length xs) (drop off (blit m off xs)) = xs"
  by (simp add: blit_def)

lemma take_block:
  assumes "n \<le> length q" shows "take (n + j) (q @ r) = take n q @ take j (drop n q @ r)"
proof -
  have "take n (q @ r) = take n q" and "drop n (q @ r) = drop n q @ r" using assms by simp_all
  then show ?thesis by (simp only: take_add)
qed

lemma drop_block:
  assumes "n \<le> length q" shows "drop (n + j) (q @ r) = drop j (drop n q @ r)"
proof -
  have "drop n (q @ r) = drop n q @ r" using assms by simp
  moreover have "drop (n + j) (q @ r) = drop j (drop n (q @ r))" by (simp only: drop_drop add.commute)
  ultimately show ?thesis by (simp only:)
qed

section \<open>Residues\<close>

lemma mod_eq_near:
  fixes a b c :: nat
  assumes "a mod c = b mod c" and "a \<le> b" and "b < a + c"
  shows "a = b"
proof (rule ccontr)
  assume "a \<noteq> b"
  then have "0 < b - a" using assms(2) by simp
  moreover have "c dvd b - a"
    using assms(1,2) by (metis mod_eq_dvd_iff_nat)
  ultimately have "c \<le> b - a" by (rule dvd_imp_le [rotated])
  then show False using assms(2,3) by simp
qed

lemma mod_add_wrap:
  fixes p j c :: nat
  assumes "p < c" and "j \<le> c"
  shows "(p + j) mod c = (if p + j < c then p + j else p + j - c)"
  using assms by (auto simp: mod_if le_mod_geq)

end
