(* ===== verification/Circular.thy ===== *)
theory Circular
  imports Prelude
begin

text \<open>
  Circular regions of a byte memory: a region of \<open>cap\<close> bytes at offset \<open>base\<close> whose
  positions are counted modulo \<open>cap\<close>. \<open>ring_put\<close> and \<open>ring_get\<close> are the
  one-or-two block copies a ring buffer performs, \<open>ring_view\<close> is the list of bytes that
  such a region shows from an unreduced position on. The lemmas relate the three; the ring
  buffer of the program is proved against them.
\<close>

definition ring_view :: "bytes \<Rightarrow> nat \<Rightarrow> nat \<Rightarrow> nat \<Rightarrow> nat \<Rightarrow> bytes" where
  "ring_view m base cap r n = map (\<lambda>j. m ! (base + (r + j) mod cap)) [0..<n]"

definition ring_put :: "bytes \<Rightarrow> nat \<Rightarrow> nat \<Rightarrow> nat \<Rightarrow> bytes \<Rightarrow> bytes" where
  "ring_put m base cap p xs =
     (if p + length xs \<le> cap then blit m (base + p) xs
      else blit (blit m (base + p) (take (cap - p) xs)) base (drop (cap - p) xs))"

definition ring_get :: "bytes \<Rightarrow> nat \<Rightarrow> nat \<Rightarrow> nat \<Rightarrow> nat \<Rightarrow> bytes" where
  "ring_get m base cap p n =
     (if p + n \<le> cap then take n (drop (base + p) m)
      else take (cap - p) (drop (base + p) m) @ take (n - (cap - p)) (drop base m))"

section \<open>Reading a circular region\<close>

lemma length_ring_view [simp]: "length (ring_view m base cap r n) = n"
  by (simp add: ring_view_def)

lemma ring_view_0 [simp]: "ring_view m base cap r 0 = []"
  by (simp add: ring_view_def)

lemma nth_ring_view [simp]:
  "j < n \<Longrightarrow> ring_view m base cap r n ! j = m ! (base + (r + j) mod cap)"
  by (simp add: ring_view_def)

lemma ring_view_mod: "ring_view m base cap (r mod cap) n = ring_view m base cap r n"
  by (simp add: ring_view_def mod_add_left_eq)

lemma ring_view_cong:
  "r mod cap = r' mod cap \<Longrightarrow> ring_view m base cap r n = ring_view m base cap r' n"
  by (metis ring_view_mod)

lemma ring_view_add:
  "ring_view m base cap r (n + k) = ring_view m base cap r n @ ring_view m base cap (r + n) k"
  by (rule nth_equalityI) (auto simp: nth_append add.assoc)

lemma take_ring_view: "k \<le> n \<Longrightarrow> take k (ring_view m base cap r n) = ring_view m base cap r k"
  using ring_view_add [of m base cap r k "n - k"] by simp

lemma drop_ring_view:
  "k \<le> n \<Longrightarrow> drop k (ring_view m base cap r n) = ring_view m base cap (r + k) (n - k)"
  using ring_view_add [of m base cap r k "n - k"] by simp

lemma length_ring_get:
  "p < cap \<Longrightarrow> n \<le> cap \<Longrightarrow> base + cap \<le> length m \<Longrightarrow> length (ring_get m base cap p n) = n"
  by (auto simp: ring_get_def)

lemma ring_get_view:
  assumes "p < cap" and "n \<le> cap" and "base + cap \<le> length m"
  shows "ring_get m base cap p n = ring_view m base cap p n"
proof (rule nth_equalityI)
  show "length (ring_get m base cap p n) = length (ring_view m base cap p n)"
    using assms by (simp add: length_ring_get)
next
  fix j assume "j < length (ring_get m base cap p n)"
  then have j: "j < n" using assms by (simp add: length_ring_get)
  then show "ring_get m base cap p n ! j = ring_view m base cap p n ! j"
    using assms by (auto simp: ring_get_def nth_append mod_add_wrap ac_simps)
qed

section \<open>Writing a circular region\<close>

text \<open>The two blocks of a write that wraps have these lengths.\<close>

lemma ring_put_wrap:
  assumes "p < cap" and "length xs \<le> cap" and "base + cap \<le> length m" and "\<not> p + length xs \<le> cap"
  shows "length (take (cap - p) xs) = cap - p"
    and "base + p + length (take (cap - p) xs) \<le> length m"
    and "base + length (drop (cap - p) xs) \<le> length (blit m (base + p) (take (cap - p) xs))"
    and "ring_put m base cap p xs =
      blit (blit m (base + p) (take (cap - p) xs)) base (drop (cap - p) xs)"
proof -
  show 1: "length (take (cap - p) xs) = cap - p" using assms by simp
  show 2: "base + p + length (take (cap - p) xs) \<le> length m" using assms(1,3) by (simp add: 1)
  show "base + length (drop (cap - p) xs) \<le> length (blit m (base + p) (take (cap - p) xs))"
    using assms by (simp only: length_blit [OF 2]) simp
qed (use assms in \<open>simp add: ring_put_def\<close>)

lemma length_ring_put [simp]:
  assumes "p < cap" and "length xs \<le> cap" and "base + cap \<le> length m"
  shows "length (ring_put m base cap p xs) = length m"
proof (cases "p + length xs \<le> cap")
  case True
  then show ?thesis using assms by (simp add: ring_put_def)
next
  case False
  note w = ring_put_wrap [OF assms False]
  show ?thesis by (simp only: w(4) length_blit [OF w(3)] length_blit [OF w(2)])
qed

lemma nth_ring_put:
  assumes "p < cap" and "length xs \<le> cap" and "base + cap \<le> length m" and "i < length m"
  shows "ring_put m base cap p xs ! i =
    (if base + p \<le> i \<and> i < base + p + length xs \<and> i < base + cap then xs ! (i - (base + p))
     else if base \<le> i \<and> i + cap < base + p + length xs then xs ! (i - base + (cap - p))
     else m ! i)"
proof (cases "p + length xs \<le> cap")
  case True
  then show ?thesis using assms by (auto simp: ring_put_def nth_blit)
next
  case False
  note w = ring_put_wrap [OF assms(1-3) False]
  have "i < length (blit m (base + p) (take (cap - p) xs))"
    using assms(4) by (simp only: length_blit [OF w(2)])
  then show ?thesis
    using assms False
    by (auto simp only: w(4) nth_blit [OF w(3)] nth_blit [OF w(2) assms(4)] w(1) length_drop)
      (auto simp: add.commute)
qed

lemma nth_ring_put_new:
  assumes "p < cap" and "length xs \<le> cap" and "base + cap \<le> length m" and "j < length xs"
  shows "ring_put m base cap p xs ! (base + (p + j) mod cap) = xs ! j"
proof -
  have "(p + j) mod cap < cap" using assms(1) by simp
  then have "base + (p + j) mod cap < length m" using assms(3) by linarith
  note nth = nth_ring_put [OF assms(1-3) this]
  show ?thesis
  proof (cases "p + j < cap")
    case True
    then have "(p + j) mod cap = p + j" by simp
    then show ?thesis using True assms(4) unfolding nth by simp
  next
    case False
    then obtain k where k: "p + j = cap + k" by (metis le_Suc_ex not_less)
    then have "j = k + (cap - p)" and "k < p" and "(p + j) mod cap = k"
      and "k + cap < p + length xs"
      using assms(1,2,4) by auto
    then show ?thesis unfolding nth by simp
  qed
qed

lemma nth_ring_put_old:
  assumes "p < cap" and "length xs \<le> cap" and "base + cap \<le> length m" and "i < length m"
    and untouched: "\<And>j. j < length xs \<Longrightarrow> i \<noteq> base + (p + j) mod cap"
  shows "ring_put m base cap p xs ! i = m ! i"
proof -
  have "\<not> (base + p \<le> i \<and> i < base + p + length xs \<and> i < base + cap)"
    using untouched [of "i - (base + p)"] assms(1-3) by (auto simp: less_diff_conv2)
  moreover have "\<not> (base \<le> i \<and> i + cap < base + p + length xs)"
  proof
    assume i: "base \<le> i \<and> i + cap < base + p + length xs"
    obtain k where k: "i = base + k" using i le_Suc_ex by blast
    then have "p + (k + (cap - p)) = cap + k" and "k + (cap - p) < length xs" and "k < cap"
      using i assms(1,2) by auto
    then show False using untouched [of "k + (cap - p)"] k by simp
  qed
  ultimately show ?thesis
    by (simp only: nth_ring_put [OF assms(1-4)] if_False)
qed

lemma ring_put_outside:
  assumes "p < cap" and "length xs \<le> cap" and "base + cap \<le> length m" and "i < length m"
    and "i < base \<or> base + cap \<le> i"
  shows "ring_put m base cap p xs ! i = m ! i"
proof (rule nth_ring_put_old [OF assms(1-4)])
  fix j assume "j < length xs"
  have "(p + j) mod cap < cap" using assms(1) by simp
  then show "i \<noteq> base + (p + j) mod cap" using assms(5) by auto
qed

text \<open>
  A block written behind \<open>u\<close> occupied positions leaves them alone and is shown behind
  them: the law that makes a circular region a queue.
\<close>

lemma ring_view_put:
  assumes "0 < cap" and "u + length xs \<le> cap" and "base + cap \<le> length m"
  shows "ring_view (ring_put m base cap ((r + u) mod cap) xs) base cap r (u + length xs) =
    ring_view m base cap r u @ xs"
proof (rule nth_equalityI)
  let ?m = "ring_put m base cap ((r + u) mod cap) xs"
  fix k assume "k < length (ring_view ?m base cap r (u + length xs))"
  then have k: "k < u + length xs" by simp
  show "ring_view ?m base cap r (u + length xs) ! k = (ring_view m base cap r u @ xs) ! k"
  proof (cases "k < u")
    case True
    have "?m ! (base + (r + k) mod cap) = m ! (base + (r + k) mod cap)"
    proof (rule nth_ring_put_old)
      fix j assume j: "j < length xs"
      show "base + (r + k) mod cap \<noteq> base + ((r + u) mod cap + j) mod cap"
      proof
        assume "base + (r + k) mod cap = base + ((r + u) mod cap + j) mod cap"
        then have "(r + k) mod cap = (r + u + j) mod cap"
          by (simp add: mod_add_left_eq)
        then have "r + k = r + u + j"
          by (rule mod_eq_near) (use True j assms(2) in auto)
        then show False using True by simp
      qed
    next
      show "base + (r + k) mod cap < length m"
        using mod_less_divisor [OF assms(1), of "r + k"] assms(3) by linarith
    qed (use assms in auto)
    then show ?thesis using True by (simp add: nth_append)
  next
    case False
    then obtain j where kj: "k = u + j" and j: "j < length xs"
      using k by (metis add_less_cancel_left le_Suc_ex not_less)
    have "?m ! (base + ((r + u) mod cap + j) mod cap) = xs ! j"
      by (rule nth_ring_put_new) (use assms j in auto)
    then show ?thesis
      using k by (simp add: kj nth_append mod_add_left_eq add.assoc)
  qed
qed simp

end
