(* ===== verification/ByteQueue.thy ===== *)
theory ByteQueue
  imports Prelude
begin

text \<open>
  The interface between a transport (the ring buffer of
  \<open>common/src/effect_ringbuffer.c\<close>, the message queue wrapper of
  \<open>common/src/effect_fmq.cpp\<close>) and its clients (\<open>client/src/effect_client.c\<close>,
  \<open>effectd/src/effectd_session.c\<close>): a bounded first-in first-out queue of bytes whose
  non-blocking \<open>put\<close> and \<open>get\<close> move a prefix of what is asked for and return its
  size. \<open>None\<close> is undefined behaviour of the C code. What the clients need of a transport
  is proved here once, from the laws.
\<close>

section \<open>The contract\<close>

locale byte_queue =
  fixes inv :: "'q \<Rightarrow> bool"
    and contents :: "'q \<Rightarrow> bytes"
    and limit :: "'q \<Rightarrow> nat"
    and put :: "'q \<Rightarrow> bytes \<Rightarrow> 'n::len word \<Rightarrow> ('n word \<times> 'q) option"
    and get :: "'q \<Rightarrow> bytes \<Rightarrow> 'n word \<Rightarrow> ('n word \<times> bytes \<times> 'q) option"
  assumes contents_bound: "inv q \<Longrightarrow> length (contents q) \<le> limit q"
    and write_law: "inv q \<Longrightarrow> unat sz \<le> length src \<Longrightarrow>
      \<exists>n q'. put q src sz = Some (n, q') \<and> inv q' \<and> limit q' = limit q \<and>
        n \<le> sz \<and> contents q' = contents q @ take (unat n) src \<and>
        (length (contents q) + unat sz \<le> limit q \<longrightarrow> n = sz)"
    and read_law: "inv q \<Longrightarrow> unat sz \<le> length dst \<Longrightarrow>
      \<exists>n q'. get q dst sz = Some (n, blit dst 0 (take (unat n) (contents q)), q') \<and>
        inv q' \<and> limit q' = limit q \<and> n \<le> sz \<and> unat n \<le> length (contents q) \<and>
        contents q' = drop (unat n) (contents q) \<and>
        (unat sz \<le> length (contents q) \<longrightarrow> n = sz)"
begin

text \<open>Never more than the capacity is accepted, and a short write means the data did not fit.\<close>

lemma write_accepts:
  assumes "inv q" and "unat sz \<le> length src"
  obtains n q' where "put q src sz = Some (n, q')" and "inv q'" and "limit q' = limit q"
    and "n \<le> sz" and "contents q' = contents q @ take (unat n) src"
    and "length (contents q) + unat sz \<le> limit q \<Longrightarrow> n = sz"
  using write_law [OF assms] by blast

lemma read_delivers:
  assumes "inv q" and "unat sz \<le> length dst"
  obtains n q' where "get q dst sz = Some (n, blit dst 0 (take (unat n) (contents q)), q')"
    and "inv q'" and "limit q' = limit q" and "n \<le> sz" and "unat n \<le> length (contents q)"
    and "contents q' = drop (unat n) (contents q)"
    and "unat sz \<le> length (contents q) \<Longrightarrow> n = sz"
  using read_law [OF assms] by blast

lemma write_safe: "inv q \<Longrightarrow> unat sz \<le> length src \<Longrightarrow> put q src sz \<noteq> None"
  using write_law by fastforce

lemma read_safe: "inv q \<Longrightarrow> unat sz \<le> length dst \<Longrightarrow> get q dst sz \<noteq> None"
  using read_law by fastforce

lemma write_SomeD:
  assumes "put q src sz = Some (n, q')" and "inv q" and "unat sz \<le> length src"
  shows "inv q'" and "limit q' = limit q" and "n \<le> sz"
    and "contents q' = contents q @ take (unat n) src"
    and "length (contents q) + unat sz \<le> limit q \<Longrightarrow> n = sz"
  using write_law [OF assms(2,3)] assms(1) by auto

lemma read_SomeD:
  assumes "get q dst sz = Some (n, dst', q')" and "inv q" and "unat sz \<le> length dst"
  shows "inv q'" and "limit q' = limit q" and "n \<le> sz" and "unat n \<le> length (contents q)"
    and "dst' = blit dst 0 (take (unat n) (contents q))"
    and "contents q' = drop (unat n) (contents q)"
    and "unat sz \<le> length (contents q) \<Longrightarrow> n = sz"
  using read_law [OF assms(2,3)] assms(1) by auto

lemma short_write_full:
  assumes "put q src sz = Some (n, q')" and "inv q" and "unat sz \<le> length src" and "n < sz"
  shows "limit q < length (contents q) + unat sz"
  using write_SomeD(5) [OF assms(1-3)] assms(4) by force

lemma read_length:
  assumes "get q dst sz = Some (n, dst', q')" and "inv q" and "unat sz \<le> length dst"
  shows "length dst' = length dst"
proof -
  have "unat n \<le> unat sz"
    using read_SomeD(3) [OF assms] by (simp add: word_le_nat_alt)
  then show ?thesis
    using read_SomeD(5) [OF assms] assms(3) by simp
qed

text \<open>A block that fits an empty queue comes out as it went in.\<close>

lemma transfer:
  assumes q: "inv q" "contents q = []" and sz: "unat sz \<le> limit q"
    and src: "unat sz \<le> length src" and dst: "unat sz \<le> length dst"
  obtains q1 q2 where "put q src sz = Some (sz, q1)" and "inv q1"
    and "contents q1 = take (unat sz) src" and "limit q1 = limit q"
    and "get q1 dst sz = Some (sz, take (unat sz) src @ drop (unat sz) dst, q2)"
    and "inv q2" and "contents q2 = []" and "limit q2 = limit q"
proof -
  obtain q1 where w: "put q src sz = Some (sz, q1)" "inv q1" "limit q1 = limit q"
    "contents q1 = take (unat sz) src"
    using write_accepts [OF q(1) src] q(2) sz
    by (metis add_0 append_Nil list.size(3))
  have len: "length (contents q1) = unat sz" using w(4) src by simp
  obtain n q2 where r: "get q1 dst sz = Some (n, blit dst 0 (take (unat n) (contents q1)), q2)"
      "inv q2" "limit q2 = limit q1" "contents q2 = drop (unat n) (contents q1)"
    and n: "unat sz \<le> length (contents q1) \<Longrightarrow> n = sz"
    using read_delivers [OF w(2) dst] by metis
  have "n = sz" using n len by simp
  then show thesis
    using that w r len src by (simp add: blit_0)
qed

end

section \<open>Histories\<close>

text \<open>
  A history is a list of operations a producer and a consumer perform in turn. Its outcome is
  what the queue accepted, what it delivered, and the queue at the end.
\<close>

datatype 'n queue_op = QWrite bytes 'n | QRead bytes 'n

fun op_in_bounds :: "'n::len word queue_op \<Rightarrow> bool" where
  "op_in_bounds (QWrite src sz) = (unat sz \<le> length src)"
| "op_in_bounds (QRead dst sz) = (unat sz \<le> length dst)"

fun queue_run ::
  "('q \<Rightarrow> bytes \<Rightarrow> 'n::len word \<Rightarrow> ('n word \<times> 'q) option) \<Rightarrow>
   ('q \<Rightarrow> bytes \<Rightarrow> 'n word \<Rightarrow> ('n word \<times> bytes \<times> 'q) option) \<Rightarrow>
   'q \<Rightarrow> 'n word queue_op list \<Rightarrow> (bytes \<times> bytes \<times> 'q) option" where
  "queue_run wr rd q [] = Some ([], [], q)"
| "queue_run wr rd q (QWrite src sz # ops) = do {
     (n, q1) \<leftarrow> wr q src sz;
     (acc, del, q2) \<leftarrow> queue_run wr rd q1 ops;
     Some (take (unat n) src @ acc, del, q2) }"
| "queue_run wr rd q (QRead dst sz # ops) = do {
     (n, dst', q1) \<leftarrow> rd q dst sz;
     (acc, del, q2) \<leftarrow> queue_run wr rd q1 ops;
     Some (acc, take (unat n) dst' @ del, q2) }"

lemma queue_run_append:
  "queue_run wr rd q (xs @ ys) = do {
     (a1, d1, q1) \<leftarrow> queue_run wr rd q xs;
     (a2, d2, q2) \<leftarrow> queue_run wr rd q1 ys;
     Some (a1 @ a2, d1 @ d2, q2) }"
proof (induction wr rd q xs rule: queue_run.induct)
  case (1 wr rd q)
  then show ?case by (cases "queue_run wr rd q ys") auto
qed (auto split: Option.bind_split)

context byte_queue begin

lemma take_blit_contents:
  "n \<le> length (contents q) \<Longrightarrow> take n (blit dst 0 (take n (contents q))) = take n (contents q)"
  by (simp add: blit_0)

text \<open>
  Every history of in-bounds operations runs to its end, keeps the invariant and the capacity,
  and is first-in first-out: old contents and accepted bytes, in order, are the delivered bytes
  followed by what the queue still holds.
\<close>

lemma run_fifo:
  assumes "inv q" and "list_all op_in_bounds ops"
  shows "\<exists>acc del q'. queue_run put get q ops = Some (acc, del, q') \<and> inv q' \<and>
    limit q' = limit q \<and> contents q @ acc = del @ contents q'"
  using assms
proof (induction ops arbitrary: q)
  case Nil
  then show ?case by simp
next
  case (Cons op ops)
  show ?case
  proof (cases op)
    case (QWrite src sz)
    with Cons.prems(2) have "unat sz \<le> length src" by simp
    then obtain n q1 where w: "put q src sz = Some (n, q1)" "inv q1" "limit q1 = limit q"
      "contents q1 = contents q @ take (unat n) src"
      by (rule write_accepts [OF Cons.prems(1)])
    have "list_all op_in_bounds ops" using Cons.prems(2) by simp
    then show ?thesis
      using Cons.IH [OF w(2)] w by (fastforce simp: QWrite)
  next
    case (QRead dst sz)
    with Cons.prems(2) have "unat sz \<le> length dst" by simp
    then obtain n q1 where
      r: "get q dst sz = Some (n, blit dst 0 (take (unat n) (contents q)), q1)"
        "inv q1" "limit q1 = limit q" "unat n \<le> length (contents q)"
        "contents q1 = drop (unat n) (contents q)"
      by (rule read_delivers [OF Cons.prems(1)])
    have "list_all op_in_bounds ops" using Cons.prems(2) by simp
    then obtain acc del q' where run: "queue_run put get q1 ops = Some (acc, del, q')"
      "inv q'" "limit q' = limit q1" "contents q1 @ acc = del @ contents q'"
      using Cons.IH [OF r(2)] by blast
    have "contents q @ acc = take (unat n) (contents q) @ del @ contents q'"
      using run(4) r(5) by (metis append.assoc append_take_drop_id)
    then show ?thesis
      using r run by (simp add: QRead take_blit_contents)
  qed
qed

end

end
