(* ===== verification/RingBuffer.thy ===== *)
theory RingBuffer
  imports Circular ByteQueue
begin

text \<open>
  The lock-free byte ring buffer of \<open>common/src/effect_ringbuffer.c\<close>, operation by
  operation. \<open>write_index\<close> and \<open>read_index\<close> are free-running 64-bit counters, positions
  are taken modulo the 32-bit capacity, and the data block is the part of a memory object that
  starts at offset \<open>rb_data\<close>. Each operation is run by one thread without interference here;
  theory \<open>Spsc\<close> interleaves a producer and a consumer.
\<close>

section \<open>State and operations\<close>

record effect_ringbuffer_t =
  write_index :: u64
  read_index :: u64
  rb_capacity :: u32
  rb_data :: nat

definition effect_ringbuffer_init :: "nat \<Rightarrow> u32 \<Rightarrow> effect_ringbuffer_t" where
  "effect_ringbuffer_init data capacity =
     \<lparr>write_index = 0, read_index = 0, rb_capacity = capacity, rb_data = data\<rparr>"

definition effect_ringbuffer_get_read_available :: "effect_ringbuffer_t \<Rightarrow> u32" where
  "effect_ringbuffer_get_read_available rb =
     (let write_idx = write_index rb; read_idx = read_index rb
      in ucast (write_idx - read_idx))"

definition effect_ringbuffer_get_write_available :: "effect_ringbuffer_t \<Rightarrow> u32" where
  "effect_ringbuffer_get_write_available rb =
     (let write_idx = write_index rb; read_idx = read_index rb;
          used = (ucast (write_idx - read_idx) :: u32)
      in rb_capacity rb - used)"

text \<open>
  \<open>write_idx % capacity\<close> traps for capacity zero, and each \<open>memcpy\<close> is undefined out of
  bounds; both are \<open>None\<close>.
\<close>

definition effect_ringbuffer_write ::
  "effect_ringbuffer_t \<Rightarrow> bytes \<Rightarrow> bytes \<Rightarrow> u32 \<Rightarrow> (u32 \<times> effect_ringbuffer_t \<times> bytes) option"
where
  "effect_ringbuffer_write rb mem src sz =
    (if sz = 0 then Some (0, rb, mem)
     else
       let write_idx = write_index rb; read_idx = read_index rb;
           available = rb_capacity rb - ucast (write_idx - read_idx);
           to_write = (if sz < available then sz else available)
       in
       if to_write = 0 then Some (0, rb, mem)
       else if rb_capacity rb = 0 then None
       else
         let pos = (ucast (write_idx mod ucast (rb_capacity rb)) :: u32);
             contiguous = rb_capacity rb - pos
         in do {
           mem' \<leftarrow>
             (if to_write \<le> contiguous
              then memcpy mem (rb_data rb + unat pos) src 0 (unat to_write)
              else do {
                m1 \<leftarrow> memcpy mem (rb_data rb + unat pos) src 0 (unat contiguous);
                memcpy m1 (rb_data rb) src (unat contiguous) (unat (to_write - contiguous)) });
           Some (to_write, rb\<lparr>write_index := write_idx + ucast to_write\<rparr>, mem') })"

definition effect_ringbuffer_read ::
  "effect_ringbuffer_t \<Rightarrow> bytes \<Rightarrow> bytes \<Rightarrow> u32 \<Rightarrow> (u32 \<times> bytes \<times> effect_ringbuffer_t) option"
where
  "effect_ringbuffer_read rb mem dst sz =
    (if sz = 0 then Some (0, dst, rb)
     else
       let write_idx = write_index rb; read_idx = read_index rb;
           available = (ucast (write_idx - read_idx) :: u32);
           to_read = (if sz < available then sz else available)
       in
       if to_read = 0 then Some (0, dst, rb)
       else if rb_capacity rb = 0 then None
       else
         let pos = (ucast (read_idx mod ucast (rb_capacity rb)) :: u32);
             contiguous = rb_capacity rb - pos
         in do {
           dst' \<leftarrow>
             (if to_read \<le> contiguous
              then memcpy dst 0 mem (rb_data rb + unat pos) (unat to_read)
              else do {
                d1 \<leftarrow> memcpy dst 0 mem (rb_data rb + unat pos) (unat contiguous);
                memcpy d1 (unat contiguous) mem (rb_data rb) (unat (to_read - contiguous)) });
           Some (to_read, dst', rb\<lparr>read_index := read_idx + ucast to_read\<rparr>) })"

definition effect_ringbuffer_reset :: "effect_ringbuffer_t \<Rightarrow> effect_ringbuffer_t" where
  "effect_ringbuffer_reset rb = rb\<lparr>write_index := 0, read_index := 0\<rparr>"

section \<open>Abstraction and invariant\<close>

definition rb_used :: "effect_ringbuffer_t \<Rightarrow> nat" where
  "rb_used rb = unat (write_index rb - read_index rb)"

definition rb_contents :: "effect_ringbuffer_t \<Rightarrow> bytes \<Rightarrow> bytes" where
  "rb_contents rb mem =
     ring_view mem (rb_data rb) (unat (rb_capacity rb)) (unat (read_index rb)) (rb_used rb)"

text \<open>
  The capacity divides \<open>2 ^ 64\<close> exactly when it is a power of two. Otherwise positions jump
  when a counter wraps, so the invariant asks that none has wrapped.
\<close>

definition rb_aligned :: "effect_ringbuffer_t \<Rightarrow> bool" where
  "rb_aligned rb \<longleftrightarrow> unat (rb_capacity rb) dvd 2 ^ 64"

definition rb_wf :: "effect_ringbuffer_t \<Rightarrow> bytes \<Rightarrow> bool" where
  "rb_wf rb mem \<longleftrightarrow>
     rb_data rb + unat (rb_capacity rb) \<le> length mem \<and>
     rb_used rb \<le> unat (rb_capacity rb) \<and>
     (rb_aligned rb \<or> unat (read_index rb) \<le> unat (write_index rb))"

text \<open>How many bytes a call with size \<open>sz\<close> moves.\<close>

abbreviation rb_accepts :: "effect_ringbuffer_t \<Rightarrow> u32 \<Rightarrow> nat" where
  "rb_accepts rb sz \<equiv> min (unat sz) (unat (rb_capacity rb) - rb_used rb)"

abbreviation rb_delivers :: "effect_ringbuffer_t \<Rightarrow> u32 \<Rightarrow> nat" where
  "rb_delivers rb sz \<equiv> min (unat sz) (rb_used rb)"

lemma rb_used_u32: "rb_wf rb mem \<Longrightarrow> rb_used rb < 4294967296"
  unfolding rb_wf_def using unat_u32_less [of "rb_capacity rb"] by linarith

lemma unat_rb_used [simp]:
  assumes "rb_wf rb mem"
  shows "unat (ucast (write_index rb - read_index rb) :: u32) = rb_used rb"
  using rb_used_u32 [OF assms] by (simp add: rb_used_def)

lemma unat_available:
  assumes "rb_wf rb mem"
  shows "unat (rb_capacity rb - ucast (write_index rb - read_index rb)) =
    unat (rb_capacity rb) - rb_used rb"
proof -
  have "ucast (write_index rb - read_index rb) \<le> rb_capacity rb"
    using assms unat_rb_used [OF assms] by (simp add: word_le_nat_alt) (simp add: rb_wf_def)
  then show ?thesis using assms by (simp add: unat_sub)
qed

text \<open>The write position lies as many bytes behind the read position as are used.\<close>

lemma write_position:
  assumes "rb_wf rb mem"
  shows "unat (write_index rb) mod unat (rb_capacity rb) =
    (unat (read_index rb) + rb_used rb) mod unat (rb_capacity rb)"
proof (cases "unat (read_index rb) \<le> unat (write_index rb)")
  case True
  then have "unat (write_index rb) = unat (read_index rb) + rb_used rb"
    by (simp add: rb_used_def unat_sub word_le_nat_alt)
  then show ?thesis by simp
next
  case False
  then have "unat (read_index rb) + rb_used rb = unat (write_index rb) + 2 ^ 64"
    using unat_u64_less [of "read_index rb"]
    by (simp add: rb_used_def unat_sub_if' del: unat_u64_less)
  moreover have "unat (rb_capacity rb) dvd 2 ^ 64"
    using False assms by (simp add: rb_wf_def rb_aligned_def)
  then obtain k where "2 ^ 64 = unat (rb_capacity rb) * k" by (rule dvdE)
  ultimately show ?thesis by (metis mod_mult_self2)
qed

lemma length_rb_contents [simp]: "length (rb_contents rb mem) = rb_used rb"
  by (simp add: rb_contents_def)


section \<open>The operations in closed form\<close>

lemma unat_position:
  "unat (ucast ((i :: u64) mod ucast (c :: u32)) :: u32) = (if c = 0 then unat (ucast i :: u32) else unat i mod unat c)"
proof (cases "c = 0")
  case False
  then have "unat i mod unat c < 4294967296"
    using less_trans [OF mod_less_divisor unat_u32_less [of c]] by (simp add: unat_gt_0)
  then show ?thesis using False by (simp add: unat_u64_to_u32 unat_mod_distrib)
qed simp

lemma unat_contiguous:
  assumes "c \<noteq> 0"
  shows "unat (c - ucast ((i :: u64) mod ucast (c :: u32))) = unat c - unat i mod unat c"
proof -
  have "unat i mod unat c < unat c" using assms by (simp add: unat_gt_0)
  then have "ucast (i mod ucast c) \<le> c"
    using assms by (simp add: word_le_nat_alt unat_position)
  then show ?thesis using assms by (simp add: unat_sub unat_position)
qed

lemma memcpy_ring_put:
  assumes "p < cap" and "n \<le> cap" and "base + cap \<le> length mem" and "n \<le> length src"
  shows "(if n \<le> cap - p then memcpy mem (base + p) src 0 n
      else do { m1 \<leftarrow> memcpy mem (base + p) src 0 (cap - p); memcpy m1 base src (cap - p) (n - (cap - p)) }) =
    Some (ring_put mem base cap p (take n src))"
proof (cases "n \<le> cap - p")
  case True
  then have "p + n \<le> cap" using assms(1) by linarith
  then show ?thesis using True assms by (simp add: mem_simps ring_put_def)
next
  case False
  then have "\<not> p + n \<le> cap" by linarith
  then show ?thesis using False assms by (simp add: mem_simps ring_put_def drop_take)
qed

lemma memcpy_ring_get:
  assumes "p < cap" and "n \<le> cap" and "base + cap \<le> length mem" and "n \<le> length dst"
  shows "(if n \<le> cap - p then memcpy dst 0 mem (base + p) n
      else do { d1 \<leftarrow> memcpy dst 0 mem (base + p) (cap - p); memcpy d1 (cap - p) mem base (n - (cap - p)) }) =
    Some (blit dst 0 (ring_view mem base cap p n))"
proof (cases "n \<le> cap - p")
  case True
  then have "p + n \<le> cap" using assms(1) by linarith
  then have "take n (drop (base + p) mem) = ring_view mem base cap p n"
    using ring_get_view [OF assms(1-3)] by (simp add: ring_get_def)
  then show ?thesis using assms True by (simp add: mem_simps)
next
  case False
  let ?x = "take (cap - p) (drop (base + p) mem)" and ?y = "take (n - (cap - p)) (drop base mem)"
  have xy: "?x @ ?y = ring_view mem base cap p n"
  proof -
    have "\<not> p + n \<le> cap" using False by linarith
    then show ?thesis using ring_get_view [OF assms(1-3)] by (simp add: ring_get_def)
  qed
  have len: "length ?x = cap - p" "length ?y = n - (cap - p)" using assms False by auto
  have "blit (blit dst 0 ?x) (cap - p) ?y = blit dst 0 (?x @ ?y)"
    using blit_0_adjacent [of ?x ?y dst] len False assms(4) by simp
  then show ?thesis
    using assms False len unfolding xy by (simp add: mem_simps)
qed

text \<open>The copy of a write and of a read, with the positions computed on words.\<close>

lemma write_copy:
  assumes "c \<noteq> 0" and "unat n \<le> unat c" and "base + unat c \<le> length mem" and "unat n \<le> length src"
  shows "(let pos = (ucast ((i :: u64) mod ucast c) :: u32); contiguous = c - pos
      in if n \<le> contiguous then memcpy mem (base + unat pos) src 0 (unat n)
         else do {
           m1 \<leftarrow> memcpy mem (base + unat pos) src 0 (unat contiguous);
           memcpy m1 base src (unat contiguous) (unat (n - contiguous)) }) =
    Some (ring_put mem base (unat c) (unat i mod unat c) (take (unat n) src))"
proof -
  let ?p = "unat i mod unat c" and ?cont = "c - ucast (i mod ucast c)"
  have p: "?p < unat c" using assms(1) by (simp add: unat_gt_0)
  have le: "n \<le> ?cont \<longleftrightarrow> unat n \<le> unat c - ?p"
    by (simp only: word_le_nat_alt unat_contiguous [OF assms(1)])
  have rest: "unat (n - ?cont) = unat n - (unat c - ?p)" if "\<not> n \<le> ?cont"
    using that by (simp only: unat_sub [OF less_imp_le] not_le unat_contiguous [OF assms(1)])
  show ?thesis
    using memcpy_ring_put [OF p assms(2-4)] assms(1)
    by (cases "n \<le> ?cont")
      (simp_all only: Let_def le rest unat_contiguous [OF assms(1)] unat_position not_True_eq_False
        not_False_eq_True if_True if_False)
qed

lemma read_copy:
  assumes "c \<noteq> 0" and "unat n \<le> unat c" and "base + unat c \<le> length mem" and "unat n \<le> length dst"
  shows "(let pos = (ucast ((i :: u64) mod ucast c) :: u32); contiguous = c - pos
      in if n \<le> contiguous then memcpy dst 0 mem (base + unat pos) (unat n)
         else do {
           d1 \<leftarrow> memcpy dst 0 mem (base + unat pos) (unat contiguous);
           memcpy d1 (unat contiguous) mem base (unat (n - contiguous)) }) =
    Some (blit dst 0 (ring_view mem base (unat c) (unat i) (unat n)))"
proof -
  let ?p = "unat i mod unat c" and ?cont = "c - ucast (i mod ucast c)"
  have p: "?p < unat c" using assms(1) by (simp add: unat_gt_0)
  have le: "n \<le> ?cont \<longleftrightarrow> unat n \<le> unat c - ?p"
    by (simp only: word_le_nat_alt unat_contiguous [OF assms(1)])
  have rest: "unat (n - ?cont) = unat n - (unat c - ?p)" if "\<not> n \<le> ?cont"
    using that by (simp only: unat_sub [OF less_imp_le] not_le unat_contiguous [OF assms(1)])
  show ?thesis
    using memcpy_ring_get [OF p assms(2-4)] assms(1)
    by (cases "n \<le> ?cont")
      (simp_all only: Let_def le rest unat_contiguous [OF assms(1)] unat_position not_True_eq_False
        not_False_eq_True if_True if_False ring_view_mod)
qed

lemma write_closed:
  assumes wf: "rb_wf rb mem" and src: "unat sz \<le> length src"
  shows "effect_ringbuffer_write rb mem src sz =
    Some (of_nat (rb_accepts rb sz),
      rb\<lparr>write_index := write_index rb + of_nat (rb_accepts rb sz)\<rparr>,
      ring_put mem (rb_data rb) (unat (rb_capacity rb))
        ((unat (read_index rb) + rb_used rb) mod unat (rb_capacity rb)) (take (rb_accepts rb sz) src))"
proof -
  define tw where "tw =
    (if sz < rb_capacity rb - ucast (write_index rb - read_index rb) then sz
     else rb_capacity rb - ucast (write_index rb - read_index rb))"
  have n: "unat tw = rb_accepts rb sz"
    by (simp only: tw_def unat_if_min unat_available [OF wf])
  have tw_u32: "of_nat (rb_accepts rb sz) = tw" and tw_u64: "of_nat (rb_accepts rb sz) = (ucast tw :: u64)"
    by (simp_all flip: n)
  note unfolded = effect_ringbuffer_write_def [of rb mem src sz, unfolded Let_def, folded tw_def]
  show ?thesis
  proof (cases "tw = 0")
    case True
    then have "rb_accepts rb sz = 0" using n by simp
    then show ?thesis using True by (simp add: unfolded ring_put_def)
  next
    case False
    then have "rb_accepts rb sz \<noteq> 0" using n by (metis unat_eq_0)
    then have c: "rb_capacity rb \<noteq> 0" and s: "sz \<noteq> 0" by auto
    have cap: "unat tw \<le> unat (rb_capacity rb)" and len: "unat tw \<le> length src"
      using src unfolding n by auto
    have mem: "rb_data rb + unat (rb_capacity rb) \<le> length mem"
      using wf by (simp add: rb_wf_def)
    note copy = write_copy [OF c cap mem len, of "write_index rb", unfolded Let_def]
    show ?thesis
      unfolding tw_u32 tw_u64 write_position [OF wf, symmetric] n [symmetric]
      using False c s by (simp only: unfolded copy if_False Option.bind.simps) simp
  qed
qed

lemma read_closed:
  assumes wf: "rb_wf rb mem" and dst: "unat sz \<le> length dst"
  shows "effect_ringbuffer_read rb mem dst sz =
    Some (of_nat (rb_delivers rb sz), blit dst 0 (take (rb_delivers rb sz) (rb_contents rb mem)),
      rb\<lparr>read_index := read_index rb + of_nat (rb_delivers rb sz)\<rparr>)"
proof -
  define tr where "tr =
    (if sz < ucast (write_index rb - read_index rb) then sz else ucast (write_index rb - read_index rb))"
  have n: "unat tr = rb_delivers rb sz"
    by (simp only: tr_def unat_if_min unat_rb_used [OF wf])
  have tr_u32: "of_nat (rb_delivers rb sz) = tr" and tr_u64: "of_nat (rb_delivers rb sz) = (ucast tr :: u64)"
    by (simp_all flip: n)
  note unfolded = effect_ringbuffer_read_def [of rb mem dst sz, unfolded Let_def, folded tr_def]
  show ?thesis
  proof (cases "tr = 0")
    case True
    then have "rb_delivers rb sz = 0" using n by simp
    then show ?thesis using True by (simp add: unfolded)
  next
    case False
    then have "rb_delivers rb sz \<noteq> 0" using n by (metis unat_eq_0)
    then have c: "rb_capacity rb \<noteq> 0" and s: "sz \<noteq> 0"
      using wf by (auto simp: rb_wf_def)
    have cap: "unat tr \<le> unat (rb_capacity rb)" and len: "unat tr \<le> length dst"
      using dst wf unfolding n by (auto simp: rb_wf_def)
    have mem: "rb_data rb + unat (rb_capacity rb) \<le> length mem"
      using wf by (simp add: rb_wf_def)
    note copy = read_copy [OF c cap mem len, of "read_index rb", unfolded Let_def]
    have view: "take (rb_delivers rb sz) (rb_contents rb mem) =
        ring_view mem (rb_data rb) (unat (rb_capacity rb)) (unat (read_index rb)) (unat tr)"
      by (simp add: rb_contents_def take_ring_view n)
    show ?thesis
      unfolding view unfolding tr_u32 tr_u64 n [symmetric]
      using False c s by (simp only: unfolded copy if_False Option.bind.simps) simp
  qed
qed

section \<open>Correctness of the operations\<close>

lemma init_wf: "data + unat c \<le> length mem \<Longrightarrow> rb_wf (effect_ringbuffer_init data c) mem"
  by (simp add: rb_wf_def effect_ringbuffer_init_def rb_used_def)

lemma init_contents [simp]: "rb_contents (effect_ringbuffer_init data c) mem = []"
  by (simp add: rb_contents_def effect_ringbuffer_init_def rb_used_def)

lemma reset_wf: "rb_wf rb mem \<Longrightarrow> rb_wf (effect_ringbuffer_reset rb) mem"
  by (simp add: rb_wf_def effect_ringbuffer_reset_def rb_used_def rb_aligned_def)

lemma reset_contents [simp]: "rb_contents (effect_ringbuffer_reset rb) mem = []"
  by (simp add: rb_contents_def effect_ringbuffer_reset_def rb_used_def)

lemma read_available:
  "rb_wf rb mem \<Longrightarrow>
   unat (effect_ringbuffer_get_read_available rb) = length (rb_contents rb mem)"
  by (simp add: effect_ringbuffer_get_read_available_def Let_def)

lemma write_available:
  "rb_wf rb mem \<Longrightarrow>
   unat (effect_ringbuffer_get_write_available rb) =
     unat (rb_capacity rb) - length (rb_contents rb mem)"
  by (simp only: effect_ringbuffer_get_write_available_def Let_def unat_available length_rb_contents)

text \<open>The effect of advancing an index.\<close>

lemma used_advance_write:
  assumes "rb_used rb + n < 2 ^ 64"
  shows "rb_used (rb\<lparr>write_index := write_index rb + of_nat n\<rparr>) = rb_used rb + n"
proof -
  have "rb_used (rb\<lparr>write_index := write_index rb + of_nat n\<rparr>) =
      unat ((write_index rb - read_index rb) + of_nat n)"
    by (simp add: rb_used_def algebra_simps)
  also have "\<dots> = rb_used rb + n"
    using assms by (simp only: unat_word_ariths) (simp add: rb_used_def)
  finally show ?thesis .
qed

lemma used_advance_read:
  assumes "n \<le> rb_used rb"
  shows "rb_used (rb\<lparr>read_index := read_index rb + of_nat n\<rparr>) = rb_used rb - n"
proof -
  have n: "n < 18446744073709551616"
    using assms le_less_trans [OF _ unat_u64_less] by (simp add: rb_used_def)
  have "rb_used (rb\<lparr>read_index := read_index rb + of_nat n\<rparr>) =
      unat ((write_index rb - read_index rb) - of_nat n)"
    by (simp add: rb_used_def algebra_simps)
  moreover have "(of_nat n :: u64) \<le> write_index rb - read_index rb"
    using assms n by (simp add: word_le_nat_alt rb_used_def)
  ultimately show ?thesis
    using n by (simp add: unat_sub) (simp add: rb_used_def)
qed

text \<open>
  A write appends what it accepts and touches nothing outside the ring's block. The last premise
  is void for a power-of-two capacity; for another capacity it keeps the write counter from
  wrapping.
\<close>

lemma write_correct:
  assumes wf: "rb_wf rb mem" and src: "unat sz \<le> length src"
    and no_wrap: "rb_aligned rb \<or> unat (write_index rb) + unat sz < 2 ^ 64"
  shows "\<exists>rb' mem'. effect_ringbuffer_write rb mem src sz = Some (of_nat (rb_accepts rb sz), rb', mem') \<and>
    rb_wf rb' mem' \<and> rb_contents rb' mem' = rb_contents rb mem @ take (rb_accepts rb sz) src \<and>
    rb_capacity rb' = rb_capacity rb \<and> rb_data rb' = rb_data rb \<and> read_index rb' = read_index rb \<and>
    length mem' = length mem \<and>
    (\<forall>i. i < length mem \<longrightarrow> i < rb_data rb \<or> rb_data rb + unat (rb_capacity rb) \<le> i \<longrightarrow>
      mem' ! i = mem ! i)"
proof (cases "rb_accepts rb sz = 0")
  case True
  then have "effect_ringbuffer_write rb mem src sz = Some (0, rb, mem)"
    by (simp add: write_closed [OF wf src] ring_put_def)
  then show ?thesis using wf True by simp
next
  case False
  let ?n = "rb_accepts rb sz" and ?C = "unat (rb_capacity rb)"
  let ?rb = "rb\<lparr>write_index := write_index rb + of_nat ?n\<rparr>"
  let ?mem = "ring_put mem (rb_data rb) ?C ((unat (read_index rb) + rb_used rb) mod ?C) (take ?n src)"
  have C: "0 < ?C" and base: "rb_data rb + ?C \<le> length mem" and room: "rb_used rb + ?n \<le> ?C"
    and len: "length (take ?n src) = ?n"
    using False wf src by (auto simp: rb_wf_def)
  have p: "(unat (read_index rb) + rb_used rb) mod ?C < ?C" using C by simp
  have "rb_used rb + ?n < 2 ^ 64"
    using room unat_u32_less [of "rb_capacity rb"] by (simp del: unat_u32_less)
  then have used: "rb_used ?rb = rb_used rb + ?n" by (rule used_advance_write)
  have order: "rb_aligned rb \<or> unat (read_index rb) \<le> unat (write_index rb + of_nat ?n)"
  proof (cases "rb_aligned rb")
    case na: False
    then have "unat (write_index rb) + ?n < 2 ^ 64" using no_wrap by linarith
    then have "unat (write_index rb + of_nat ?n) = unat (write_index rb) + ?n"
      by (simp add: unat_word_ariths)
    then show ?thesis using na wf by (simp add: rb_wf_def)
  qed simp
  have "rb_wf ?rb ?mem"
    using base room used order len p by (simp add: rb_wf_def rb_aligned_def)
  moreover have "rb_contents ?rb ?mem = rb_contents rb mem @ take ?n src"
    using ring_view_put [OF C _ base, of "rb_used rb" "take ?n src" "unat (read_index rb)"] room len
    by (simp add: rb_contents_def used)
  moreover have "\<forall>i. i < length mem \<longrightarrow> i < rb_data rb \<or> rb_data rb + ?C \<le> i \<longrightarrow> ?mem ! i = mem ! i"
    using ring_put_outside [OF p _ base] len by simp
  moreover have "length ?mem = length mem"
    using p len base by simp
  ultimately show ?thesis
    by (intro exI [of _ ?rb] exI [of _ ?mem]) (simp add: write_closed [OF wf src])
qed

lemma advanced_position:
  assumes wf: "rb_wf rb mem" and n: "n \<le> rb_used rb"
  shows "unat (read_index rb + of_nat n) mod unat (rb_capacity rb) =
      (unat (read_index rb) + n) mod unat (rb_capacity rb)"
    and "rb_aligned rb \<or> unat (read_index rb + of_nat n) \<le> unat (write_index rb)"
proof -
  have wrap: "unat (read_index rb + of_nat n) = (unat (read_index rb) + n) mod 2 ^ 64"
    by (simp add: unat_word_ariths unat_of_nat mod_add_right_eq)
  have na: "unat (read_index rb + of_nat n) = unat (read_index rb) + n \<and>
      unat (read_index rb) + n \<le> unat (write_index rb)" if "\<not> rb_aligned rb"
  proof -
    have "unat (read_index rb) \<le> unat (write_index rb)" using that wf by (simp add: rb_wf_def)
    then have "unat (read_index rb) + n \<le> unat (write_index rb)"
      using n by (simp add: rb_used_def unat_sub word_le_nat_alt)
    then show ?thesis
      using unat_u64_less [of "write_index rb"] unfolding wrap by (simp del: unat_u64_less)
  qed
  show "unat (read_index rb + of_nat n) mod unat (rb_capacity rb) =
      (unat (read_index rb) + n) mod unat (rb_capacity rb)"
    using na wrap by (cases "rb_aligned rb") (simp_all add: rb_aligned_def mod_mod_cancel)
  show "rb_aligned rb \<or> unat (read_index rb + of_nat n) \<le> unat (write_index rb)"
    by (cases "rb_aligned rb") (simp_all add: na)
qed

text \<open>A read delivers the oldest bytes into the front of the destination and removes them.\<close>

lemma read_correct:
  assumes wf: "rb_wf rb mem" and dst: "unat sz \<le> length dst"
  shows "\<exists>rb'. effect_ringbuffer_read rb mem dst sz =
      Some (of_nat (rb_delivers rb sz), blit dst 0 (take (rb_delivers rb sz) (rb_contents rb mem)), rb') \<and>
    rb_wf rb' mem \<and> rb_contents rb' mem = drop (rb_delivers rb sz) (rb_contents rb mem) \<and>
    rb_capacity rb' = rb_capacity rb \<and> rb_data rb' = rb_data rb \<and> write_index rb' = write_index rb"
proof -
  let ?n = "rb_delivers rb sz" and ?C = "unat (rb_capacity rb)"
  let ?rb = "rb\<lparr>read_index := read_index rb + of_nat ?n\<rparr>"
  have used: "rb_used ?rb = rb_used rb - ?n" by (rule used_advance_read) simp
  have pos: "ring_view mem (rb_data rb) ?C (unat (read_index rb + of_nat ?n)) k =
      ring_view mem (rb_data rb) ?C (unat (read_index rb) + ?n) k" for k
    by (rule ring_view_cong) (rule advanced_position(1) [OF wf], simp)
  have order: "rb_aligned rb \<or> unat (read_index rb + of_nat ?n) \<le> unat (write_index rb)"
    by (rule advanced_position(2) [OF wf]) simp
  have "rb_contents ?rb mem = drop ?n (rb_contents rb mem)"
    by (simp add: rb_contents_def used pos drop_ring_view)
  moreover have "rb_wf ?rb mem"
    using wf order le_trans [OF diff_le_self, of "rb_used rb" ?C ?n]
    by (simp add: rb_wf_def rb_aligned_def used)
  ultimately show ?thesis
    by (intro exI [of _ ?rb]) (simp add: read_closed [OF wf dst])
qed

section \<open>The ring buffer is a byte queue\<close>

text \<open>
  A ring buffer together with the memory its data block lives in, as one state. For the
  power-of-two capacities the program uses the queue laws hold without a bound on the traffic.
\<close>

type_synonym ring = "effect_ringbuffer_t \<times> bytes"

definition ring_inv :: "ring \<Rightarrow> bool" where
  "ring_inv = (\<lambda>(rb, mem). rb_wf rb mem \<and> rb_aligned rb)"

definition ring_contents :: "ring \<Rightarrow> bytes" where
  "ring_contents = (\<lambda>(rb, mem). rb_contents rb mem)"

definition ring_limit :: "ring \<Rightarrow> nat" where
  "ring_limit = (\<lambda>(rb, mem). unat (rb_capacity rb))"

definition ring_write :: "ring \<Rightarrow> bytes \<Rightarrow> u32 \<Rightarrow> (u32 \<times> ring) option" where
  "ring_write = (\<lambda>(rb, mem) src sz. effect_ringbuffer_write rb mem src sz)"

definition ring_read :: "ring \<Rightarrow> bytes \<Rightarrow> u32 \<Rightarrow> (u32 \<times> bytes \<times> ring) option" where
  "ring_read = (\<lambda>(rb, mem) dst sz. do {
     (n, dst', rb') \<leftarrow> effect_ringbuffer_read rb mem dst sz;
     Some (n, dst', (rb', mem)) })"

lemmas ring_defs = ring_inv_def ring_contents_def ring_limit_def ring_write_def ring_read_def

lemma accepts_u32: "unat (of_nat (rb_accepts rb sz) :: u32) = rb_accepts rb sz"
  by (rule unat_of_nat_u32) (use unat_u32_less [of sz] in \<open>simp add: min_less_iff_disj\<close>)

lemma delivers_u32: "unat (of_nat (rb_delivers rb sz) :: u32) = rb_delivers rb sz"
  by (rule unat_of_nat_u32) (use unat_u32_less [of sz] in \<open>simp add: min_less_iff_disj\<close>)

interpretation ring: byte_queue ring_inv ring_contents ring_limit ring_write ring_read
proof
  fix q :: ring
  assume "ring_inv q"
  then show "length (ring_contents q) \<le> ring_limit q"
    by (cases q) (simp add: ring_defs rb_wf_def)
next
  fix q :: ring and sz :: u32 and src :: bytes
  assume inv: "ring_inv q" and src: "unat sz \<le> length src"
  obtain rb mem where q: "q = (rb, mem)" by (cases q)
  have wf: "rb_wf rb mem" and al: "rb_aligned rb" using inv by (auto simp: q ring_defs)
  obtain rb' mem' where
    "effect_ringbuffer_write rb mem src sz = Some (of_nat (rb_accepts rb sz), rb', mem')"
    "rb_wf rb' mem'" "rb_contents rb' mem' = rb_contents rb mem @ take (rb_accepts rb sz) src"
    "rb_capacity rb' = rb_capacity rb"
    using write_correct [OF wf src] al by blast
  moreover have "of_nat (rb_accepts rb sz) \<le> sz"
    by (simp add: word_le_nat_alt accepts_u32)
  moreover have "of_nat (rb_accepts rb sz) = sz" if "rb_used rb + unat sz \<le> unat (rb_capacity rb)"
    using that by (intro word_eq_of_natI [symmetric]) simp
  ultimately show "\<exists>n q'. ring_write q src sz = Some (n, q') \<and> ring_inv q' \<and>
      ring_limit q' = ring_limit q \<and> n \<le> sz \<and>
      ring_contents q' = ring_contents q @ take (unat n) src \<and>
      (length (ring_contents q) + unat sz \<le> ring_limit q \<longrightarrow> n = sz)"
    using al by (simp add: q ring_defs accepts_u32 rb_aligned_def)
next
  fix q :: ring and sz :: u32 and dst :: bytes
  assume inv: "ring_inv q" and dst: "unat sz \<le> length dst"
  obtain rb mem where q: "q = (rb, mem)" by (cases q)
  have wf: "rb_wf rb mem" and al: "rb_aligned rb" using inv by (auto simp: q ring_defs)
  obtain rb' where
    "effect_ringbuffer_read rb mem dst sz =
       Some (of_nat (rb_delivers rb sz), blit dst 0 (take (rb_delivers rb sz) (rb_contents rb mem)), rb')"
    "rb_wf rb' mem" "rb_contents rb' mem = drop (rb_delivers rb sz) (rb_contents rb mem)"
    "rb_capacity rb' = rb_capacity rb"
    using read_correct [OF wf dst] by blast
  moreover have "of_nat (rb_delivers rb sz) \<le> sz"
    by (simp add: word_le_nat_alt delivers_u32)
  moreover have "of_nat (rb_delivers rb sz) = sz" if "unat sz \<le> rb_used rb"
    using that by (intro word_eq_of_natI [symmetric]) simp
  ultimately show "\<exists>n q'. ring_read q dst sz =
        Some (n, blit dst 0 (take (unat n) (ring_contents q)), q') \<and> ring_inv q' \<and>
      ring_limit q' = ring_limit q \<and> n \<le> sz \<and> unat n \<le> length (ring_contents q) \<and>
      ring_contents q' = drop (unat n) (ring_contents q) \<and>
      (unat sz \<le> length (ring_contents q) \<longrightarrow> n = sz)"
    using al by (simp add: q ring_defs delivers_u32 rb_aligned_def)
qed

lemma ring_init_inv:
  "data + unat c \<le> length mem \<Longrightarrow> unat c dvd 2 ^ 64 \<Longrightarrow>
   ring_inv (effect_ringbuffer_init data c, mem)"
  using init_wf [of data c mem] by (simp add: ring_defs rb_aligned_def) (simp add: effect_ringbuffer_init_def)

lemma ring_init_contents [simp]: "ring_contents (effect_ringbuffer_init data c, mem) = []"
  by (simp add: ring_defs)

lemma ring_init_limit [simp]: "ring_limit (effect_ringbuffer_init data c, mem) = unat c"
  by (simp add: ring_defs effect_ringbuffer_init_def)

section \<open>A capacity that is not a power of two\<close>

text \<open>
  A ring of capacity three with both counters at \<open>k\<close>, the traffic that brings them to the
  last value before they wrap, and what three more operations do there.
\<close>

abbreviation ring_at :: "nat \<Rightarrow> effect_ringbuffer_t" where
  "ring_at k \<equiv> \<lparr>write_index = of_nat k, read_index = of_nat k, rb_capacity = 3, rb_data = 0\<rparr>"

lemma unaligned_step:
  assumes k: "Suc k < 2 ^ 64" and len: "length mem = 3"
  shows "\<exists>mem'. length mem' = 3 \<and>
    queue_run ring_write ring_read (ring_at k, mem) [QWrite [0] 1, QRead [0] 1] =
      Some ([0], [0], ring_at (Suc k), mem')"
proof -
  have wf: "rb_wf (ring_at k) mem" and used: "rb_used (ring_at k) = 0"
    using len by (simp_all add: rb_wf_def rb_used_def)
  have "unat (write_index (ring_at k)) + unat (1 :: u32) < 2 ^ 64"
    using k by simp
  then obtain rb' mem' where w: "effect_ringbuffer_write (ring_at k) mem [0] 1 = Some (1, rb', mem')"
    and wf': "rb_wf rb' mem'" and c: "rb_contents rb' mem' = [0]" and len': "length mem' = length mem"
    using write_correct [OF wf, of 1 "[0]"] used by (auto simp: rb_contents_def)
  have acc: "rb_accepts (ring_at k) 1 = 1"
    unfolding used by simp
  have rb': "rb' = ring_at k\<lparr>write_index := of_nat (Suc k)\<rparr>"
    using write_closed [OF wf, of 1 "[0]"] w unfolding acc by (simp add: add.commute)
  have used': "rb_used rb' = 1" using c length_rb_contents [of rb' mem'] by simp
  have "effect_ringbuffer_read rb' mem' [0] 1 = Some (1, [0], ring_at (Suc k))"
    using read_closed [OF wf', of 1 "[0]"] c used' by (simp add: rb' blit_0 add.commute)
  then show ?thesis
    using w len len' by (simp add: ring_defs)
qed

lemma unaligned_traffic:
  assumes "j + k < 2 ^ 64" and "length mem = 3"
  shows "\<exists>mem'. length mem' = 3 \<and>
    queue_run ring_write ring_read (ring_at j, mem) (concat (replicate k [QWrite [0] 1, QRead [0] 1])) =
      Some (replicate k 0, replicate k 0, ring_at (j + k), mem')"
  using assms
proof (induction k arbitrary: j mem)
  case 0
  then show ?case by simp
next
  case (Suc k)
  obtain m1 where m1: "length m1 = 3"
    "queue_run ring_write ring_read (ring_at j, mem) [QWrite [0] 1, QRead [0] 1] =
      Some ([0], [0], ring_at (Suc j), m1)"
    using unaligned_step [of j mem] Suc.prems by auto
  obtain m2 where "length m2 = 3"
    "queue_run ring_write ring_read (ring_at (Suc j), m1) (concat (replicate k [QWrite [0] 1, QRead [0] 1])) =
      Some (replicate k 0, replicate k 0, ring_at (Suc j + k), m2)"
    using Suc.IH [of "Suc j" m1] Suc.prems m1(1) by auto
  then show ?case
    using m1 by (simp only: replicate.simps concat.simps queue_run_append) simp
qed

lemma unaligned_at_wrap:
  "queue_run ring_write ring_read (\<lparr>write_index = - 1, read_index = - 1, rb_capacity = 3, rb_data = 0\<rparr>, [a, b, c])
     [QWrite [7, 8] 2, QWrite [9] 1, QRead [0, 0, 0] 3] =
   Some ([7, 8, 9], [7, 9, c], \<lparr>write_index = 2, read_index = 2, rb_capacity = 3, rb_data = 0\<rparr>, [7, 9, c])"
  by (simp add: ring_defs effect_ringbuffer_write_def effect_ringbuffer_read_def Let_def
     memcpy_def mem_load_def mem_store_def blit_def)
section \<open>Properties\<close>

text \<open>A write accepts as much of the source as there is room for, returns that number,
  appends exactly those bytes behind the bytes already queued (wrapping around the end of the
  block where needed), leaves every byte outside the ring's block alone and never copies out of
  bounds.\<close>

theorem ringbuffer_write_appends:
  assumes "rb_wf rb mem" and "unat sz \<le> length src"
    and "rb_aligned rb \<or> unat (write_index rb) + unat sz < 2 ^ 64"
  shows "\<exists>rb' mem'. effect_ringbuffer_write rb mem src sz =
      Some (of_nat (min (unat sz) (unat (rb_capacity rb) - length (rb_contents rb mem))), rb', mem') \<and>
    rb_wf rb' mem' \<and>
    rb_contents rb' mem' = rb_contents rb mem @
      take (min (unat sz) (unat (rb_capacity rb) - length (rb_contents rb mem))) src \<and>
    read_index rb' = read_index rb \<and> rb_capacity rb' = rb_capacity rb \<and> rb_data rb' = rb_data rb \<and>
    length mem' = length mem \<and>
    (\<forall>i. i < length mem \<longrightarrow> i < rb_data rb \<or> rb_data rb + unat (rb_capacity rb) \<le> i \<longrightarrow>
      mem' ! i = mem ! i)"
  using write_correct [OF assms] by simp blast

text \<open>A ring of four bytes at the end of a block of six, holding two bytes at its end: a write of
  five bytes wraps and accepts two.\<close>

theorem ringbuffer_write_appends_witness:
  "\<exists>rb' mem'. effect_ringbuffer_write
      \<lparr>write_index = 4, read_index = 2, rb_capacity = 4, rb_data = 2\<rparr> [9, 9, 0, 0, 7, 8] [1, 2, 3, 4, 5] 5 =
    Some (2, rb', mem') \<and> rb_contents rb' mem' = [7, 8, 1, 2]"
proof -
  let ?rb = "\<lparr>write_index = 4, read_index = 2, rb_capacity = 4, rb_data = 2\<rparr>"
  have c: "rb_contents ?rb [9, 9, 0, 0, 7, 8] = [7, 8]"
    by (simp add: rb_contents_def rb_used_def ring_view_def upt_rec)
  have u: "rb_used ?rb = 2" by (simp add: rb_used_def)
  have h: "rb_wf ?rb [9, 9, 0, 0, 7, 8]" "unat (5 :: u32) \<le> length [1, 2, 3, 4, 5 :: u8]"
    "rb_aligned ?rb \<or> unat (write_index ?rb) + unat (5 :: u32) < 2 ^ 64"
    by (simp_all add: rb_wf_def rb_used_def)
  show ?thesis using ringbuffer_write_appends [OF h] by (auto simp: c u)
qed

text \<open>A read returns how many bytes it delivers (all that are queued, at most the size asked
  for), copies the oldest queued bytes to the front of the destination and removes exactly them,
  leaving the rest of the destination and the ring's memory unchanged.\<close>

theorem ringbuffer_read_delivers:
  assumes "rb_wf rb mem" and "unat sz \<le> length dst"
  shows "\<exists>rb' n. effect_ringbuffer_read rb mem dst sz =
      Some (of_nat n, take n (rb_contents rb mem) @ drop n dst, rb') \<and>
    n = min (unat sz) (length (rb_contents rb mem)) \<and>
    rb_wf rb' mem \<and> rb_contents rb' mem = drop n (rb_contents rb mem) \<and>
    write_index rb' = write_index rb \<and> rb_capacity rb' = rb_capacity rb \<and> rb_data rb' = rb_data rb"
  using read_correct [OF assms] by (auto simp: blit_0)

theorem ringbuffer_read_delivers_witness:
  "\<exists>rb'. effect_ringbuffer_read
      \<lparr>write_index = 5, read_index = 2, rb_capacity = 4, rb_data = 2\<rparr> [9, 9, 6, 0, 7, 8] [0, 0, 0, 0] 2 =
    Some (2, [7, 8, 0, 0], rb') \<and> rb_contents rb' [9, 9, 6, 0, 7, 8] = [6]"
proof -
  let ?rb = "\<lparr>write_index = 5, read_index = 2, rb_capacity = 4, rb_data = 2\<rparr>"
  have c: "rb_contents ?rb [9, 9, 6, 0, 7, 8] = [7, 8, 6]"
    by (simp add: rb_contents_def rb_used_def ring_view_def upt_rec)
  have u: "rb_used ?rb = 3" by (simp add: rb_used_def)
  have h: "rb_wf ?rb [9, 9, 6, 0, 7, 8]" "unat (2 :: u32) \<le> length [0, 0, 0, 0 :: u8]"
    by (simp_all add: rb_wf_def rb_used_def)
  show ?thesis using ringbuffer_read_delivers [OF h] by (auto simp: c u)
qed

text \<open>Any sequence of writes and reads on a freshly initialised ring with a power-of-two
  capacity runs without undefined behaviour and is first-in first-out: the bytes accepted so far
  are, in order, the bytes delivered so far followed by those still queued, and never more than
  the capacity are queued. There is no bound on the traffic: the 64-bit counters may wrap.\<close>

theorem ringbuffer_fifo:
  assumes "data + unat c \<le> length mem" and "unat c dvd 2 ^ 64" and "list_all op_in_bounds ops"
  shows "\<exists>acc del rb' mem'.
    queue_run ring_write ring_read (effect_ringbuffer_init data c, mem) ops = Some (acc, del, rb', mem') \<and>
    acc = del @ rb_contents rb' mem' \<and> length (rb_contents rb' mem') \<le> unat c"
proof -
  let ?q = "(effect_ringbuffer_init data c, mem)"
  obtain acc del q' where run: "queue_run ring_write ring_read ?q ops = Some (acc, del, q')"
    and inv: "ring_inv q'" and "ring_limit q' = unat c" and "acc = del @ ring_contents q'"
    using ring.run_fifo [OF ring_init_inv [OF assms(1,2)] assms(3)] by auto
  then show ?thesis
    using ring.contents_bound [OF inv] by (cases q') (auto simp: ring_contents_def)
qed

theorem ringbuffer_fifo_witness:
  "\<exists>acc del rb' mem'.
    queue_run ring_write ring_read (effect_ringbuffer_init 0 4, [0, 0, 0, 0])
      [QWrite [1, 2, 3] 3, QRead [0, 0] 2, QWrite [4, 5, 6, 7] 4, QRead [0, 0, 0, 0] 4] =
      Some (acc, del, rb', mem') \<and>
    acc = del @ rb_contents rb' mem' \<and> length (rb_contents rb' mem') \<le> 4"
  using ringbuffer_fifo [of 0 4 "[0, 0, 0, 0]"
      "[QWrite [1, 2, 3] 3, QRead [0, 0] 2, QWrite [4, 5, 6, 7] 4, QRead [0, 0, 0, 0] 4]"]
  by simp

text \<open>The two availability queries report the number of queued bytes and the free space, so
  they always add up to the capacity.\<close>

theorem ringbuffer_available:
  assumes "rb_wf rb mem"
  shows "unat (effect_ringbuffer_get_read_available rb) = length (rb_contents rb mem) \<and>
    unat (effect_ringbuffer_get_write_available rb) = unat (rb_capacity rb) - length (rb_contents rb mem) \<and>
    effect_ringbuffer_get_read_available rb + effect_ringbuffer_get_write_available rb = rb_capacity rb"
  using read_available [OF assms] write_available [OF assms]
  by (simp add: effect_ringbuffer_get_read_available_def effect_ringbuffer_get_write_available_def Let_def)

theorem ringbuffer_available_witness:
  "unat (effect_ringbuffer_get_write_available
      \<lparr>write_index = 1, read_index = - 2, rb_capacity = 4, rb_data = 0\<rparr>) = 1"
proof -
  let ?rb = "\<lparr>write_index = 1, read_index = - 2, rb_capacity = 4, rb_data = 0\<rparr>"
  have h: "rb_wf ?rb [0, 0, 0, 0]"
    by (simp add: rb_wf_def rb_used_def rb_aligned_def)
  show ?thesis using ringbuffer_available [OF h] by (simp add: rb_used_def)
qed

text \<open>C36. For a capacity that is not a power of two the first-in first-out law fails once the
  64-bit write counter wraps: some history of in-bounds operations from a fresh ring of capacity
  three overwrites a queued byte, although the header says a power of two is only for best
  performance.\<close>

theorem ringbuffer_unaligned_wrap_corrupts:
  "\<exists>ops acc del rb' mem'. list_all op_in_bounds ops \<and>
    queue_run ring_write ring_read (effect_ringbuffer_init 0 3, [0, 0, 0]) ops = Some (acc, del, rb', mem') \<and>
    acc \<noteq> del @ rb_contents rb' mem'"
proof -
  define k :: nat where "k = 2 ^ 64 - 1"
  let ?pre = "concat (replicate k [QWrite [0] 1, QRead [0] 1]) :: u32 queue_op list"
  let ?post = "[QWrite [7, 8] 2, QWrite [9] 1, QRead [0, 0, 0] 3] :: u32 queue_op list"
  have at: "ring_at k = \<lparr>write_index = - 1, read_index = - 1, rb_capacity = 3, rb_data = 0\<rparr>"
    by (simp add: k_def)
  obtain m where m: "length m = 3" "queue_run ring_write ring_read (ring_at 0, [0, 0, 0]) ?pre =
      Some (replicate k 0, replicate k 0, ring_at k, m)"
    using unaligned_traffic [of 0 k "[0, 0, 0]"] by (auto simp: k_def)
  obtain a b c where abc: "m = [a, b, c]" using m(1) by (auto simp: length_Suc_conv numeral_3_eq_3)
  have start: "effect_ringbuffer_init 0 3 = ring_at 0" by (simp add: effect_ringbuffer_init_def)
  have "queue_run ring_write ring_read (effect_ringbuffer_init 0 3, [0, 0, 0]) (?pre @ ?post) =
      Some (replicate k 0 @ [7, 8, 9], replicate k 0 @ [7, 9, c],
        \<lparr>write_index = 2, read_index = 2, rb_capacity = 3, rb_data = 0\<rparr>, [7, 9, c])"
    by (simp only: start queue_run_append m(2) abc at unaligned_at_wrap Option.bind.simps prod.case)
  moreover have "list_all op_in_bounds (?pre @ ?post)"
    by (auto simp: list_all_iff)
  moreover have "replicate k 0 @ [7, 8, 9 :: u8] \<noteq> (replicate k 0 @ [7, 9, c]) @
      rb_contents \<lparr>write_index = 2, read_index = 2, rb_capacity = 3, rb_data = 0\<rparr> [7, 9, c]"
    by simp
  ultimately show ?thesis by blast
qed

end
