(* ===== verification/Spsc.thy ===== *)
theory Spsc
  imports RingBuffer
begin

text \<open>
  \<open>common/src/effect_ringbuffer.c\<close> with its two ends running concurrently: one thread calls
  \<open>effect_ringbuffer_write\<close>, another \<open>effect_ringbuffer_read\<close>, and their steps interleave. The steps
  are the accesses to what they share: each load and store of an index, and each byte of the
  copies. Every thread has a control point with its local variables. The history of accepted and
  delivered bytes is kept beside the state; the code does not read it.

  Steps take effect in one order seen by both threads. The code's \<open>release\<close> stores and \<open>acquire\<close>
  loads of the indices give that for programs without data races, and that no byte is written
  while the other end may read it is proved here.
\<close>

section \<open>Control points and steps\<close>

text \<open>Producer: the source and size of the call and \<open>write_idx\<close>; then also \<open>to_write\<close> and the
  number of bytes copied. Consumer: the size and \<open>write_idx\<close>; then \<open>read_idx\<close>, \<open>to_read\<close> and the bytes
  copied so far.\<close>

datatype producer = P_Idle | P_Loaded bytes u32 u64 | P_Copy bytes u64 u32 nat

datatype consumer = C_Idle | C_Loaded u32 u64 | C_Copy u64 u32 bytes

record spsc =
  rb :: effect_ringbuffer_t
  mem :: bytes
  prod :: producer
  cons :: consumer
  accepted :: bytes
  delivered :: bytes

definition to_write :: "effect_ringbuffer_t \<Rightarrow> u64 \<Rightarrow> u32 \<Rightarrow> u32" where
  "to_write r write_idx sz =
     (let available = rb_capacity r - ucast (write_idx - read_index r)
      in if sz < available then sz else available)"

definition to_read :: "effect_ringbuffer_t \<Rightarrow> u64 \<Rightarrow> u32 \<Rightarrow> u32" where
  "to_read r write_idx sz =
     (let available = ucast (write_idx - read_index r)
      in if sz < available then sz else available)"

text \<open>Where the \<open>j\<close>-th byte of a copy from index \<open>idx\<close> lies: in the first \<open>memcpy\<close>, or in the second.\<close>

definition slot :: "effect_ringbuffer_t \<Rightarrow> u64 \<Rightarrow> nat \<Rightarrow> nat" where
  "slot r idx j =
     (let pos = (ucast (idx mod ucast (rb_capacity r)) :: u32);
          contiguous = unat (rb_capacity r - pos)
      in if j < contiguous then rb_data r + unat pos + j else rb_data r + (j - contiguous))"

inductive spsc_step :: "spsc \<Rightarrow> spsc \<Rightarrow> bool" where
  p_call: "prod s = P_Idle \<Longrightarrow> sz \<noteq> 0 \<Longrightarrow> unat sz \<le> length src \<Longrightarrow>
    spsc_step s (s\<lparr>prod := P_Loaded src sz (write_index (rb s))\<rparr>)"
| p_full: "prod s = P_Loaded src sz w \<Longrightarrow> to_write (rb s) w sz = 0 \<Longrightarrow>
    spsc_step s (s\<lparr>prod := P_Idle\<rparr>)"
| p_room: "prod s = P_Loaded src sz w \<Longrightarrow> to_write (rb s) w sz \<noteq> 0 \<Longrightarrow>
    spsc_step s (s\<lparr>prod := P_Copy src w (to_write (rb s) w sz) 0\<rparr>)"
| p_byte: "prod s = P_Copy src w n j \<Longrightarrow> j < unat n \<Longrightarrow>
    spsc_step s (s\<lparr>mem := (mem s)[slot (rb s) w j := src ! j], prod := P_Copy src w n (Suc j)\<rparr>)"
| p_publish: "prod s = P_Copy src w n (unat n) \<Longrightarrow>
    spsc_step s (s\<lparr>rb := (rb s)\<lparr>write_index := w + ucast n\<rparr>, prod := P_Idle,
      accepted := accepted s @ take (unat n) src\<rparr>)"
| c_call: "cons s = C_Idle \<Longrightarrow> sz \<noteq> 0 \<Longrightarrow>
    spsc_step s (s\<lparr>cons := C_Loaded sz (write_index (rb s))\<rparr>)"
| c_empty: "cons s = C_Loaded sz w \<Longrightarrow> to_read (rb s) w sz = 0 \<Longrightarrow>
    spsc_step s (s\<lparr>cons := C_Idle\<rparr>)"
| c_some: "cons s = C_Loaded sz w \<Longrightarrow> to_read (rb s) w sz \<noteq> 0 \<Longrightarrow>
    spsc_step s (s\<lparr>cons := C_Copy (read_index (rb s)) (to_read (rb s) w sz) []\<rparr>)"
| c_byte: "cons s = C_Copy r n buf \<Longrightarrow> length buf < unat n \<Longrightarrow>
    spsc_step s (s\<lparr>cons := C_Copy r n (buf @ [mem s ! slot (rb s) r (length buf)])\<rparr>)"
| c_publish: "cons s = C_Copy r n buf \<Longrightarrow> length buf = unat n \<Longrightarrow>
    spsc_step s (s\<lparr>rb := (rb s)\<lparr>read_index := r + ucast n\<rparr>, cons := C_Idle,
      delivered := delivered s @ buf\<rparr>)"

definition spsc_init :: "nat \<Rightarrow> u32 \<Rightarrow> bytes \<Rightarrow> spsc" where
  "spsc_init data capacity m = \<lparr>rb = effect_ringbuffer_init data capacity, mem = m,
     prod = P_Idle, cons = C_Idle, accepted = [], delivered = []\<rparr>"

section \<open>The invariant\<close>

text \<open>Positions in the stream are natural numbers; the indices are those numbers modulo \<open>2 ^ 64\<close>, and
  byte \<open>i\<close> of the stream lives at \<open>cell s i\<close>.\<close>

definition cell :: "spsc \<Rightarrow> nat \<Rightarrow> nat" where
  "cell s i = rb_data (rb s) + i mod unat (rb_capacity (rb s))"

definition ring_ok :: "spsc \<Rightarrow> bool" where
  "ring_ok s \<longleftrightarrow>
     0 < unat (rb_capacity (rb s)) \<and> unat (rb_capacity (rb s)) dvd 2 ^ 64 \<and>
     rb_data (rb s) + unat (rb_capacity (rb s)) \<le> length (mem s) \<and>
     write_index (rb s) = of_nat (length (accepted s)) \<and> read_index (rb s) = of_nat (length (delivered s)) \<and>
     length (accepted s) \<le> length (delivered s) + unat (rb_capacity (rb s)) \<and>
     length (delivered s) \<le> length (accepted s) \<and>
     delivered s = take (length (delivered s)) (accepted s) \<and>
     (\<forall>i. length (delivered s) \<le> i \<longrightarrow> i < length (accepted s) \<longrightarrow> mem s ! cell s i = accepted s ! i)"

fun producer_ok :: "spsc \<Rightarrow> producer \<Rightarrow> bool" where
  "producer_ok s P_Idle = True"
| "producer_ok s (P_Loaded src sz w) = (w = of_nat (length (accepted s)) \<and> unat sz \<le> length src)"
| "producer_ok s (P_Copy src w n j) =
     (w = of_nat (length (accepted s)) \<and> unat n \<le> length src \<and> j \<le> unat n \<and>
      length (accepted s) + unat n \<le> length (delivered s) + unat (rb_capacity (rb s)) \<and>
      (\<forall>i < j. mem s ! cell s (length (accepted s) + i) = src ! i))"

fun consumer_ok :: "spsc \<Rightarrow> consumer \<Rightarrow> bool" where
  "consumer_ok s C_Idle = True"
| "consumer_ok s (C_Loaded sz w) =
     (\<exists>v. w = of_nat v \<and> length (delivered s) \<le> v \<and> v \<le> length (accepted s))"
| "consumer_ok s (C_Copy r n buf) =
     (r = of_nat (length (delivered s)) \<and> length (delivered s) + unat n \<le> length (accepted s) \<and>
      length buf \<le> unat n \<and> buf = take (length buf) (drop (length (delivered s)) (accepted s)))"

definition spsc_ok :: "spsc \<Rightarrow> bool" where
  "spsc_ok s \<longleftrightarrow> ring_ok s \<and> producer_ok s (prod s) \<and> consumer_ok s (cons s)"

section \<open>Indices and positions\<close>

lemma index_distance:
  assumes "d \<le> a" and "a - d < 2 ^ 64"
  shows "unat (of_nat a - of_nat d :: u64) = a - d"
proof -
  have "(of_nat a - of_nat d :: u64) = of_nat (a - d)" using assms(1) by (simp add: of_nat_diff)
  then show ?thesis using assms(2) by simp
qed

lemma index_distance_u32:
  assumes "d \<le> a" and "a - d \<le> unat (c :: u32)"
  shows "unat (ucast (of_nat a - of_nat d :: u64) :: u32) = a - d"
proof -
  have "a - d < 4294967296" using assms(2) unat_u32_less [of c] by linarith
  then show ?thesis using index_distance [OF assms(1)] by simp
qed

lemma index_position:
  assumes "c dvd (2 :: nat) ^ 64"
  shows "unat (of_nat i :: u64) mod c = i mod c"
  using assms by (simp add: unat_of_nat mod_mod_cancel)

lemma slot_cell:
  assumes "0 < unat (rb_capacity (rb s))" and "unat (rb_capacity (rb s)) dvd 2 ^ 64"
    and "j < unat (rb_capacity (rb s))"
  shows "slot (rb s) (of_nat i) j = cell s (i + j)"
proof -
  let ?c = "rb_capacity (rb s)"
  have c: "?c \<noteq> 0" using assms(1) by auto
  have p: "i mod unat ?c < unat ?c" using assms(1) by simp
  have pos: "unat (of_nat i :: u64) mod unat ?c = i mod unat ?c" by (rule index_position [OF assms(2)])
  have first: "unat (ucast ((of_nat i :: u64) mod ucast ?c) :: u32) = i mod unat ?c"
    using c by (simp only: unat_position pos if_False)
  have cont: "unat (?c - ucast ((of_nat i :: u64) mod ucast ?c)) = unat ?c - i mod unat ?c"
    by (simp only: unat_contiguous [OF c] pos)
  have wrap: "(i + j) mod unat ?c =
      (if i mod unat ?c + j < unat ?c then i mod unat ?c + j else i mod unat ?c + j - unat ?c)"
    using mod_add_wrap [OF p less_imp_le [OF assms(3)]] by (simp only: mod_add_left_eq)
  have "j < unat ?c - i mod unat ?c \<longleftrightarrow> i mod unat ?c + j < unat ?c"
    and "\<not> i mod unat ?c + j < unat ?c \<Longrightarrow> j - (unat ?c - i mod unat ?c) = i mod unat ?c + j - unat ?c"
    using p by linarith+
  then show ?thesis
    unfolding slot_def cell_def Let_def first cont wrap by (auto simp only: add.assoc split: if_split)
qed

text \<open>Within one capacity different positions have different cells.\<close>

lemma cell_inj:
  assumes "cell s i = cell s k" and "i \<le> k" and "k < i + unat (rb_capacity (rb s))"
  shows "i = k"
proof (rule mod_eq_near [OF _ assms(2,3)])
  show "i mod unat (rb_capacity (rb s)) = k mod unat (rb_capacity (rb s))"
    using assms(1) unfolding cell_def by (rule add_left_imp_eq)
qed

lemma cell_bound: "ring_ok s \<Longrightarrow> cell s i < length (mem s)"
proof -
  assume ok: "ring_ok s"
  then have "i mod unat (rb_capacity (rb s)) < unat (rb_capacity (rb s))" by (simp add: ring_ok_def)
  moreover have "rb_data (rb s) + unat (rb_capacity (rb s)) \<le> length (mem s)" using ok by (simp add: ring_ok_def)
  ultimately show ?thesis unfolding cell_def by linarith
qed

lemma cell_frame [simp]:
  "cell (s\<lparr>mem := m\<rparr>) i = cell s i" "cell (s\<lparr>prod := p\<rparr>) i = cell s i" "cell (s\<lparr>cons := c\<rparr>) i = cell s i"
  "cell (s\<lparr>accepted := x\<rparr>) i = cell s i" "cell (s\<lparr>delivered := y\<rparr>) i = cell s i"
  "cell (s\<lparr>rb := (rb s)\<lparr>write_index := w\<rparr>\<rparr>) i = cell s i" "cell (s\<lparr>rb := (rb s)\<lparr>read_index := w\<rparr>\<rparr>) i = cell s i"
  by (simp_all add: cell_def)

section \<open>Every step keeps the invariant\<close>

lemma unat_to_write:
  assumes "ring_ok s"
  shows "unat (to_write (rb s) (of_nat (length (accepted s))) sz) =
    min (unat sz) (unat (rb_capacity (rb s)) - (length (accepted s) - length (delivered s)))"
proof -
  let ?A = "length (accepted s)" and ?D = "length (delivered s)" and ?c = "rb_capacity (rb s)"
  have R: "read_index (rb s) = of_nat ?D" and le: "?D \<le> ?A" and used: "?A - ?D \<le> unat ?c"
    using assms by (auto simp: ring_ok_def)
  have u: "unat (ucast (of_nat ?A - of_nat ?D :: u64) :: u32) = ?A - ?D"
    by (rule index_distance_u32 [OF le used])
  then have "unat (?c - ucast (of_nat ?A - of_nat ?D :: u64)) = unat ?c - (?A - ?D)"
    using used by (subst unat_sub) (simp_all only: word_le_nat_alt u)
  then show ?thesis by (simp only: to_write_def Let_def R unat_if_min)
qed

lemma unat_to_read:
  assumes "ring_ok s" and "length (delivered s) \<le> v" and "v \<le> length (accepted s)"
  shows "unat (to_read (rb s) (of_nat v) sz) = min (unat sz) (v - length (delivered s))"
proof -
  have R: "read_index (rb s) = of_nat (length (delivered s))"
    and used: "v - length (delivered s) \<le> unat (rb_capacity (rb s))"
    using assms by (auto simp: ring_ok_def)
  have "unat (ucast (of_nat v - of_nat (length (delivered s)) :: u64) :: u32) = v - length (delivered s)"
    by (rule index_distance_u32 [OF assms(2) used])
  then show ?thesis by (simp only: to_read_def Let_def R unat_if_min)
qed

lemma p_byte_ok:
  assumes ok: "spsc_ok s" and p: "prod s = P_Copy src w n j" "j < unat n"
  shows "spsc_ok (s\<lparr>mem := (mem s)[slot (rb s) w j := src ! j], prod := P_Copy src w n (Suc j)\<rparr>)"
proof -
  let ?A = "length (accepted s)" and ?D = "length (delivered s)" and ?c = "unat (rb_capacity (rb s))"
  have ring: "ring_ok s" and w: "w = of_nat ?A" and n: "unat n \<le> length src" "?A + unat n \<le> ?D + ?c"
    and copied: "\<forall>i < j. mem s ! cell s (?A + i) = src ! i" and cons: "consumer_ok s (cons s)"
    using ok p by (auto simp: spsc_ok_def)
  have le: "?D \<le> ?A" and c: "0 < ?c" "?c dvd 2 ^ 64" using ring by (auto simp: ring_ok_def)
  have "slot (rb s) w j = cell s (?A + j)"
    unfolding w using slot_cell [OF c, of j ?A] p(2) n(2) le by simp
  then have upd: "(mem s)[slot (rb s) w j := src ! j] = (mem s)[cell s (?A + j) := src ! j]" by simp
  have old: "(mem s)[cell s (?A + j) := src ! j] ! cell s i = mem s ! cell s i" if "?D \<le> i" "i < ?A + j" for i
  proof -
    have "cell s i \<noteq> cell s (?A + j)" using cell_inj [of s i "?A + j"] that p(2) n(2) by auto
    then show ?thesis by (intro nth_list_update_neq) simp
  qed
  have new: "(mem s)[cell s (?A + j) := src ! j] ! cell s (?A + j) = src ! j"
    using cell_bound [OF ring] by simp
  have ring': "ring_ok (s\<lparr>mem := (mem s)[slot (rb s) w j := src ! j]\<rparr>)"
    using ring old le unfolding upd by (auto simp: ring_ok_def)
  have copied': "\<forall>i < Suc j. (mem s)[slot (rb s) w j := src ! j] ! cell s (?A + i) = src ! i"
    using copied old new le unfolding upd by (auto simp: less_Suc_eq)
  show ?thesis
    using ring' copied' w n p(2) cons by (cases "cons s") (auto simp: spsc_ok_def ring_ok_def)
qed

lemma p_publish_ok:
  assumes ok: "spsc_ok s" and p: "prod s = P_Copy src w n (unat n)"
  shows "spsc_ok (s\<lparr>rb := (rb s)\<lparr>write_index := w + ucast n\<rparr>, prod := P_Idle,
    accepted := accepted s @ take (unat n) src\<rparr>)"
proof -
  let ?A = "length (accepted s)" and ?D = "length (delivered s)" and ?c = "unat (rb_capacity (rb s))"
  have ring: "ring_ok s" and w: "w = of_nat ?A" and n: "unat n \<le> length src" "?A + unat n \<le> ?D + ?c"
    and copied: "\<And>i. i < unat n \<Longrightarrow> mem s ! cell s (?A + i) = src ! i" and cons: "consumer_ok s (cons s)"
    using ok p by (auto simp: spsc_ok_def)
  have le: "?D \<le> ?A" using ring by (simp add: ring_ok_def)
  have "mem s ! cell s i = (accepted s @ take (unat n) src) ! i" if "?D \<le> i" "i < ?A + unat n" for i
    using that ring copied [of "i - ?A"] by (auto simp: nth_append ring_ok_def)
  moreover have "w + ucast n = of_nat (?A + unat n)" unfolding w by simp
  ultimately have "ring_ok (s\<lparr>rb := (rb s)\<lparr>write_index := w + ucast n\<rparr>, prod := P_Idle,
      accepted := accepted s @ take (unat n) src\<rparr>)"
    using ring n le by (auto simp: ring_ok_def cell_def)
  then show ?thesis using cons le by (cases "cons s") (fastforce simp: spsc_ok_def cell_def)+
qed

lemma c_byte_ok:
  assumes ok: "spsc_ok s" and c: "cons s = C_Copy r n buf" "length buf < unat n"
  shows "spsc_ok (s\<lparr>cons := C_Copy r n (buf @ [mem s ! slot (rb s) r (length buf)])\<rparr>)"
proof -
  let ?A = "length (accepted s)" and ?D = "length (delivered s)"
  have ring: "ring_ok s" and r: "r = of_nat ?D" "?D + unat n \<le> ?A"
    and buf: "buf = take (length buf) (drop ?D (accepted s))" and prod: "producer_ok s (prod s)"
    using ok c by (auto simp: spsc_ok_def)
  have "length buf < unat (rb_capacity (rb s))" using ring r(2) c(2) by (auto simp: ring_ok_def)
  then have "slot (rb s) r (length buf) = cell s (?D + length buf)"
    unfolding r(1) using ring by (intro slot_cell) (auto simp: ring_ok_def)
  moreover have "mem s ! cell s (?D + length buf) = accepted s ! (?D + length buf)"
    using ring r(2) c(2) by (auto simp: ring_ok_def)
  ultimately have "mem s ! slot (rb s) r (length buf) = drop ?D (accepted s) ! length buf"
    using r(2) c(2) by simp
  then have "buf @ [mem s ! slot (rb s) r (length buf)] = take (Suc (length buf)) (drop ?D (accepted s))"
    using buf r(2) c(2) by (simp add: take_Suc_conv_app_nth)
  then show ?thesis
    using ring r c(2) prod by (cases "prod s") (auto simp: spsc_ok_def ring_ok_def)
qed

lemma c_publish_ok:
  assumes ok: "spsc_ok s" and c: "cons s = C_Copy r n buf" "length buf = unat n"
  shows "spsc_ok (s\<lparr>rb := (rb s)\<lparr>read_index := r + ucast n\<rparr>, cons := C_Idle, delivered := delivered s @ buf\<rparr>)"
proof -
  let ?A = "length (accepted s)" and ?D = "length (delivered s)"
  have ring: "ring_ok s" and r: "r = of_nat ?D" "?D + unat n \<le> ?A"
    and buf: "buf = take (length buf) (drop ?D (accepted s))" and prod: "producer_ok s (prod s)"
    using ok c by (auto simp: spsc_ok_def)
  have "delivered s @ buf = take (?D + unat n) (accepted s)"
    using ring buf c(2) unfolding take_add by (metis ring_ok_def)
  moreover have "r + ucast n = of_nat (?D + unat n)" unfolding r(1) by simp
  ultimately have "ring_ok (s\<lparr>rb := (rb s)\<lparr>read_index := r + ucast n\<rparr>, cons := C_Idle, delivered := delivered s @ buf\<rparr>)"
    using ring r(2) c(2) by (auto simp: ring_ok_def cell_def)
  then show ?thesis using prod c(2) by (cases "prod s") (auto simp: spsc_ok_def cell_def)
qed

lemma spsc_step_ok: "spsc_step s s' \<Longrightarrow> spsc_ok s \<Longrightarrow> spsc_ok s'"
proof (induction rule: spsc_step.induct)
  case (p_call s sz src)
  then show ?case by (cases "cons s") (auto simp: spsc_ok_def ring_ok_def)
next
  case (p_full s src sz w)
  then show ?case by (cases "cons s") (auto simp: spsc_ok_def ring_ok_def)
next
  case (p_room s src sz w)
  have "unat (to_write (rb s) w sz) =
      min (unat sz) (unat (rb_capacity (rb s)) - (length (accepted s) - length (delivered s)))"
    using p_room unat_to_write by (simp add: spsc_ok_def)
  then show ?case using p_room by (cases "cons s") (auto simp: spsc_ok_def ring_ok_def)
next
  case (c_call s sz)
  then show ?case by (cases "prod s") (auto simp: spsc_ok_def ring_ok_def)
next
  case (c_empty s sz w)
  then show ?case by (cases "prod s") (auto simp: spsc_ok_def ring_ok_def)
next
  case (c_some s sz w)
  then obtain v where v: "w = of_nat v" "length (delivered s) \<le> v" "v \<le> length (accepted s)"
    by (auto simp: spsc_ok_def)
  have "unat (to_read (rb s) w sz) = min (unat sz) (v - length (delivered s))"
    unfolding v(1) using c_some v(2,3) by (intro unat_to_read) (simp_all add: spsc_ok_def)
  then show ?case using c_some v by (cases "prod s") (auto simp: spsc_ok_def ring_ok_def)
qed (simp_all add: p_byte_ok p_publish_ok c_byte_ok c_publish_ok)

lemma spsc_steps_ok: "spsc_step\<^sup>*\<^sup>* s s' \<Longrightarrow> spsc_ok s \<Longrightarrow> spsc_ok s'"
  by (induction rule: rtranclp_induct) (blast intro: spsc_step_ok)+

lemma spsc_init_ok:
  assumes "data + unat cap \<le> length m" and "cap \<noteq> 0" and "unat cap dvd 2 ^ 64"
  shows "spsc_ok (spsc_init data cap m)"
  using assms by (simp add: spsc_ok_def ring_ok_def spsc_init_def effect_ringbuffer_init_def unat_gt_0)

section \<open>A call that is not interrupted\<close>

lemma ring_ok_wf:
  assumes "ring_ok s"
  shows "rb_wf (rb s) (mem s)" and "rb_aligned (rb s)"
    and "rb_used (rb s) = length (accepted s) - length (delivered s)"
proof -
  let ?A = "length (accepted s)" and ?D = "length (delivered s)"
  have used: "?D \<le> ?A" "?A - ?D \<le> unat (rb_capacity (rb s))" using assms by (auto simp: ring_ok_def)
  then have "?A - ?D < 2 ^ 64" using unat_u32_less [of "rb_capacity (rb s)"] by (simp del: unat_u32_less)
  then show u: "rb_used (rb s) = ?A - ?D"
    using assms index_distance [OF used(1)] by (simp add: ring_ok_def rb_used_def)
  show "rb_aligned (rb s)" using assms by (simp add: ring_ok_def rb_aligned_def)
  then show "rb_wf (rb s) (mem s)" using assms u used(2) by (simp add: ring_ok_def rb_wf_def)
qed

lemma ring_ok_contents:
  assumes "ring_ok s"
  shows "rb_contents (rb s) (mem s) = drop (length (delivered s)) (accepted s)"
proof (rule nth_equalityI)
  let ?c = "unat (rb_capacity (rb s))" and ?D = "length (delivered s)"
  note used = ring_ok_wf(3) [OF assms]
  have c: "?c dvd 2 ^ 64" and r: "read_index (rb s) = of_nat ?D" using assms by (auto simp: ring_ok_def)
  fix i assume "i < length (rb_contents (rb s) (mem s))"
  then have i: "i < length (accepted s) - ?D" using used by simp
  have "(unat (of_nat ?D :: u64) + i) mod ?c = (?D + i) mod ?c"
    by (rule mod_add_cong [OF index_position [OF c] refl])
  then have "rb_contents (rb s) (mem s) ! i = mem s ! cell s (?D + i)"
    using i used by (simp only: rb_contents_def cell_def r nth_ring_view)
  then show "rb_contents (rb s) (mem s) ! i = drop ?D (accepted s) ! i"
    using i assms by (auto simp: ring_ok_def)
qed (use ring_ok_wf(3) [OF assms] in simp)

lemma p_bytes:
  assumes ok: "spsc_ok s" and p: "prod s = P_Copy src w n 0" and k: "k \<le> unat n"
  shows "\<exists>m. spsc_step\<^sup>*\<^sup>* s (s\<lparr>mem := m, prod := P_Copy src w n k\<rparr>) \<and> length m = length (mem s) \<and>
    (\<forall>i < k. m ! cell s (length (accepted s) + i) = src ! i) \<and>
    (\<forall>x. (\<forall>i < k. x \<noteq> cell s (length (accepted s) + i)) \<longrightarrow> m ! x = mem s ! x)"
  using k
proof (induction k)
  case 0
  have "s\<lparr>mem := mem s, prod := P_Copy src w n 0\<rparr> = s" using p by simp
  then show ?case by (intro exI [of _ "mem s"]) simp
next
  case (Suc k)
  let ?A = "length (accepted s)" and ?c = "unat (rb_capacity (rb s))"
  obtain m where m: "spsc_step\<^sup>*\<^sup>* s (s\<lparr>mem := m, prod := P_Copy src w n k\<rparr>)" "length m = length (mem s)"
      "\<forall>i < k. m ! cell s (?A + i) = src ! i" "\<forall>x. (\<forall>i < k. x \<noteq> cell s (?A + i)) \<longrightarrow> m ! x = mem s ! x"
    using Suc by auto
  have ring: "ring_ok s" and w: "w = of_nat ?A" and n: "unat n \<le> ?c"
    using ok p by (auto simp: spsc_ok_def ring_ok_def)
  have slot: "slot (rb s) w k = cell s (?A + k)"
    unfolding w using ring Suc.prems n by (intro slot_cell) (auto simp: ring_ok_def)
  have bound: "cell s (?A + k) < length m" using cell_bound [OF ring] m(2) by simp
  have apart: "cell s (?A + k) \<noteq> cell s (?A + i)" if "i < k" for i
    using cell_inj [of s "?A + i" "?A + k"] that Suc.prems n by auto
  let ?t = "s\<lparr>mem := m, prod := P_Copy src w n k\<rparr>"
  have "spsc_step ?t (?t\<lparr>mem := (mem ?t)[slot (rb ?t) w k := src ! k], prod := P_Copy src w n (Suc k)\<rparr>)"
    using Suc.prems by (intro spsc_step.p_byte) simp_all
  then have "spsc_step ?t (s\<lparr>mem := m[cell s (?A + k) := src ! k], prod := P_Copy src w n (Suc k)\<rparr>)"
    by (simp add: slot)
  then have "spsc_step\<^sup>*\<^sup>* s (s\<lparr>mem := m[cell s (?A + k) := src ! k], prod := P_Copy src w n (Suc k)\<rparr>)"
    using m(1) by (rule rtranclp.rtrancl_into_rtrancl [rotated])
  moreover have "\<forall>i < Suc k. m[cell s (?A + k) := src ! k] ! cell s (?A + i) = src ! i"
    using m(3) apart bound by (auto simp: less_Suc_eq)
  moreover have "\<forall>x. (\<forall>i < Suc k. x \<noteq> cell s (?A + i)) \<longrightarrow> m[cell s (?A + k) := src ! k] ! x = mem s ! x"
    using m(4) by (metis less_Suc_eq nth_list_update_neq)
  ultimately show ?case using m(2) by (intro exI [of _ "m[cell s (?A + k) := src ! k]"]) simp
qed

lemma p_bytes_ring_put:
  assumes ok: "spsc_ok s" and p: "prod s = P_Copy src w n 0"
  shows "spsc_step\<^sup>*\<^sup>* s (s\<lparr>mem := ring_put (mem s) (rb_data (rb s)) (unat (rb_capacity (rb s)))
      (length (accepted s) mod unat (rb_capacity (rb s))) (take (unat n) src), prod := P_Copy src w n (unat n)\<rparr>)"
proof -
  let ?A = "length (accepted s)" and ?c = "unat (rb_capacity (rb s))" and ?b = "rb_data (rb s)"
  let ?put = "ring_put (mem s) ?b ?c (?A mod ?c) (take (unat n) src)"
  obtain m where m: "spsc_step\<^sup>*\<^sup>* s (s\<lparr>mem := m, prod := P_Copy src w n (unat n)\<rparr>)" "length m = length (mem s)"
      "\<forall>i < unat n. m ! cell s (?A + i) = src ! i"
      "\<forall>x. (\<forall>i < unat n. x \<noteq> cell s (?A + i)) \<longrightarrow> m ! x = mem s ! x"
    using p_bytes [OF ok p le_refl] by blast
  have ring: "ring_ok s" and n: "unat n \<le> length src" "unat n \<le> ?c"
    using ok p by (auto simp: spsc_ok_def ring_ok_def)
  have g: "?A mod ?c < ?c" "length (take (unat n) src) \<le> ?c" "?b + ?c \<le> length (mem s)"
    using ring n by (auto simp: ring_ok_def)
  have cell: "cell s (?A + i) = ?b + (?A mod ?c + i) mod ?c" for i
    by (simp add: cell_def mod_add_left_eq)
  have "m = ?put"
  proof (rule nth_equalityI)
    show "length m = length ?put" using m(2) length_ring_put [OF g] by simp
    fix x assume "x < length m"
    then have x: "x < length (mem s)" using m(2) by simp
    show "m ! x = ?put ! x"
    proof (cases "\<exists>i < unat n. x = cell s (?A + i)")
      case True
      then obtain i where i: "i < unat n" "x = cell s (?A + i)" by blast
      have "i < length (take (unat n) src)" using i(1) n(1) by simp
      from nth_ring_put_new [OF g this] show ?thesis
        using m(3) i unfolding i(2) cell by simp
    next
      case False
      have "?put ! x = mem s ! x"
        by (rule nth_ring_put_old [OF g x]) (use False n(1) cell in auto)
      then show ?thesis using m(4) False by auto
    qed
  qed
  then show ?thesis using m(1) by simp
qed

lemma c_bytes:
  assumes ok: "spsc_ok s" and c: "cons s = C_Copy r n []" and k: "k \<le> unat n"
  shows "spsc_step\<^sup>*\<^sup>* s (s\<lparr>cons := C_Copy r n (take k (drop (length (delivered s)) (accepted s)))\<rparr>)"
  using k
proof (induction k)
  case 0
  have "s\<lparr>cons := C_Copy r n []\<rparr> = s" using c by simp
  then show ?case by simp
next
  case (Suc k)
  let ?x = "drop (length (delivered s)) (accepted s)" and ?D = "length (delivered s)"
  let ?t = "s\<lparr>cons := C_Copy r n (take k ?x)\<rparr>"
  have ring: "ring_ok s" and r: "r = of_nat ?D" "?D + unat n \<le> length (accepted s)"
    using ok c by (auto simp: spsc_ok_def)
  have len: "length (take k ?x) = k" using r(2) Suc.prems by simp
  have "slot (rb s) r k = cell s (?D + k)"
    unfolding r(1) using ring r(2) Suc.prems by (intro slot_cell) (auto simp: ring_ok_def)
  moreover have "mem s ! cell s (?D + k) = ?x ! k"
    using ring r(2) Suc.prems by (auto simp: ring_ok_def)
  moreover have "spsc_step ?t (?t\<lparr>cons := C_Copy r n (take k ?x @ [mem ?t ! slot (rb ?t) r (length (take k ?x))])\<rparr>)"
    using Suc.prems len by (intro spsc_step.c_byte) simp_all
  ultimately have "spsc_step ?t (s\<lparr>cons := C_Copy r n (take (Suc k) ?x)\<rparr>)"
    using len r(2) Suc.prems by (simp add: take_Suc_conv_app_nth)
  then show ?case using Suc by simp
qed

text \<open>A whole call without interruption is the operation of \<open>RingBuffer\<close>.\<close>

lemma write_run:
  assumes ok: "spsc_ok s" and idle: "prod s = P_Idle" and sz: "sz \<noteq> 0" "unat sz \<le> length src"
  shows "\<exists>n rb' mem'. effect_ringbuffer_write (rb s) (mem s) src sz = Some (n, rb', mem') \<and>
    spsc_step\<^sup>*\<^sup>* s (s\<lparr>mem := mem', rb := rb', prod := P_Idle, accepted := accepted s @ take (unat n) src\<rparr>)"
proof -
  let ?A = "length (accepted s)" and ?c = "unat (rb_capacity (rb s))"
  have ring: "ring_ok s" using ok by (simp add: spsc_ok_def)
  note wf = ring_ok_wf [OF ring]
  have c: "?c dvd 2 ^ 64" and w: "write_index (rb s) = of_nat ?A" using ring by (auto simp: ring_ok_def)
  define n where "n = to_write (rb s) (of_nat ?A) sz"
  have n: "unat n = rb_accepts (rb s) sz" unfolding n_def wf(3) by (rule unat_to_write [OF ring])
  then have accepts: "rb_accepts (rb s) sz = unat n" by (rule sym)
  have pos: "(unat (read_index (rb s)) + rb_used (rb s)) mod ?c = ?A mod ?c"
    by (simp only: write_position [OF wf(1), symmetric] w index_position [OF c])
  have call: "effect_ringbuffer_write (rb s) (mem s) src sz = Some (n,
      (rb s)\<lparr>write_index := of_nat ?A + ucast n\<rparr>,
      ring_put (mem s) (rb_data (rb s)) ?c (?A mod ?c) (take (unat n) src))"
    by (simp only: write_closed [OF wf(1) sz(2)] pos accepts w) simp
  let ?s1 = "s\<lparr>prod := P_Loaded src sz (of_nat ?A)\<rparr>"
  have step1: "spsc_step s ?s1" using spsc_step.p_call [OF idle sz] w by simp
  then have ok1: "spsc_ok ?s1" using spsc_step_ok ok by blast
  show ?thesis
  proof (cases "n = 0")
    case True
    have "spsc_step ?s1 (?s1\<lparr>prod := P_Idle\<rparr>)" using True by (intro spsc_step.p_full) (auto simp: n_def)
    moreover have "?s1\<lparr>prod := P_Idle\<rparr> = s\<lparr>prod := P_Idle\<rparr>" by simp
    moreover have "effect_ringbuffer_write (rb s) (mem s) src sz = Some (0, rb s, mem s)"
      using sz(1) True by (simp add: effect_ringbuffer_write_def to_write_def n_def w Let_def)
    ultimately have "effect_ringbuffer_write (rb s) (mem s) src sz = Some (0, rb s, mem s) \<and>
        spsc_step\<^sup>*\<^sup>* s (s\<lparr>prod := P_Idle\<rparr>)"
      using step1 by auto
    then show ?thesis by (intro exI [of _ 0] exI [of _ "rb s"] exI [of _ "mem s"]) simp
  next
    case False
    let ?s2 = "s\<lparr>prod := P_Copy src (of_nat ?A) n 0\<rparr>"
    have step2: "spsc_step ?s1 ?s2"
      using spsc_step.p_room [of ?s1 src sz "of_nat ?A"] False by (simp add: n_def)
    then have ok2: "spsc_ok ?s2" using spsc_step_ok ok1 by blast
    let ?put = "ring_put (mem s) (rb_data (rb s)) ?c (?A mod ?c) (take (unat n) src)"
    let ?s3 = "s\<lparr>mem := ?put, prod := P_Copy src (of_nat ?A) n (unat n)\<rparr>"
    have steps3: "spsc_step\<^sup>*\<^sup>* ?s2 ?s3" using p_bytes_ring_put [OF ok2] by simp
    have "spsc_step ?s3 (s\<lparr>mem := ?put, rb := (rb s)\<lparr>write_index := of_nat ?A + ucast n\<rparr>,
        prod := P_Idle, accepted := accepted s @ take (unat n) src\<rparr>)"
      using spsc_step.p_publish [of ?s3 src "of_nat ?A" n] by simp
    then have "spsc_step\<^sup>*\<^sup>* s (s\<lparr>mem := ?put, rb := (rb s)\<lparr>write_index := of_nat ?A + ucast n\<rparr>,
        prod := P_Idle, accepted := accepted s @ take (unat n) src\<rparr>)"
      using step1 step2 steps3 by (meson converse_rtranclp_into_rtranclp rtranclp.rtrancl_into_rtrancl)
    then show ?thesis using call by simp
  qed
qed

lemma read_run:
  assumes ok: "spsc_ok s" and idle: "cons s = C_Idle" and sz: "sz \<noteq> 0" "unat sz \<le> length dst"
  shows "\<exists>n dst' rb'. effect_ringbuffer_read (rb s) (mem s) dst sz = Some (n, dst', rb') \<and>
    spsc_step\<^sup>*\<^sup>* s (s\<lparr>rb := rb', cons := C_Idle, delivered := delivered s @ take (unat n) dst'\<rparr>)"
proof -
  let ?A = "length (accepted s)" and ?D = "length (delivered s)"
  have ring: "ring_ok s" using ok by (simp add: spsc_ok_def)
  note wf = ring_ok_wf [OF ring]
  have le: "?D \<le> ?A" and w: "write_index (rb s) = of_nat ?A" and r: "read_index (rb s) = of_nat ?D"
    using ring by (auto simp: ring_ok_def)
  define n where "n = to_read (rb s) (of_nat ?A) sz"
  have n: "unat n = rb_delivers (rb s) sz" unfolding n_def wf(3) by (rule unat_to_read [OF ring le le_refl])
  then have delivers: "rb_delivers (rb s) sz = unat n" by (rule sym)
  let ?x = "take (unat n) (drop ?D (accepted s))"
  have contents: "take (unat n) (rb_contents (rb s) (mem s)) = ?x" by (simp only: ring_ok_contents [OF ring])
  have len: "length ?x = unat n" using n wf(3) by simp
  have call: "effect_ringbuffer_read (rb s) (mem s) dst sz = Some (n, blit dst 0 ?x,
      (rb s)\<lparr>read_index := of_nat ?D + ucast n\<rparr>)"
    by (simp only: read_closed [OF wf(1) sz(2)] delivers contents r) simp
  let ?s1 = "s\<lparr>cons := C_Loaded sz (of_nat ?A)\<rparr>"
  have step1: "spsc_step s ?s1" using spsc_step.c_call [OF idle sz(1)] w by simp
  then have ok1: "spsc_ok ?s1" using spsc_step_ok ok by blast
  show ?thesis
  proof (cases "n = 0")
    case True
    have "spsc_step ?s1 (?s1\<lparr>cons := C_Idle\<rparr>)" using True by (intro spsc_step.c_empty) (auto simp: n_def)
    moreover have "?s1\<lparr>cons := C_Idle\<rparr> = s\<lparr>cons := C_Idle\<rparr>" by simp
    moreover have "effect_ringbuffer_read (rb s) (mem s) dst sz = Some (0, dst, rb s)"
      using sz(1) True by (simp add: effect_ringbuffer_read_def to_read_def n_def w Let_def)
    ultimately have "effect_ringbuffer_read (rb s) (mem s) dst sz = Some (0, dst, rb s) \<and>
        spsc_step\<^sup>*\<^sup>* s (s\<lparr>cons := C_Idle\<rparr>)"
      using step1 by auto
    then show ?thesis by (intro exI [of _ 0] exI [of _ "rb s"] exI [of _ "dst"]) simp
  next
    case False
    let ?s2 = "s\<lparr>cons := C_Copy (of_nat ?D) n []\<rparr>"
    have step2: "spsc_step ?s1 ?s2"
      using spsc_step.c_some [of ?s1 sz "of_nat ?A"] False by (simp add: n_def r)
    then have ok2: "spsc_ok ?s2" using spsc_step_ok ok1 by blast
    let ?s3 = "s\<lparr>cons := C_Copy (of_nat ?D) n ?x\<rparr>"
    have steps3: "spsc_step\<^sup>*\<^sup>* ?s2 ?s3" using c_bytes [OF ok2 _ le_refl] by simp
    have "spsc_step ?s3 (s\<lparr>rb := (rb s)\<lparr>read_index := of_nat ?D + ucast n\<rparr>, cons := C_Idle,
        delivered := delivered s @ ?x\<rparr>)"
      using spsc_step.c_publish [of ?s3 "of_nat ?D" n ?x] len by simp
    then have "spsc_step\<^sup>*\<^sup>* s (s\<lparr>rb := (rb s)\<lparr>read_index := of_nat ?D + ucast n\<rparr>, cons := C_Idle,
        delivered := delivered s @ ?x\<rparr>)"
      using step1 step2 steps3 by (meson converse_rtranclp_into_rtranclp rtranclp.rtrancl_into_rtrancl)
    moreover have "take (unat n) (blit dst 0 ?x) = ?x"
      using len n sz(2) by (simp add: blit_def)
    ultimately show ?thesis using call by simp
  qed
qed

section \<open>Properties\<close>

lemmas spsc_reachable_ok = spsc_steps_ok [OF _ spsc_init_ok]

text \<open>A concurrent history: one byte was written, and now both ends are copying.\<close>

definition both_copying :: spsc where
  "both_copying = \<lparr>rb = \<lparr>write_index = 1, read_index = 0, rb_capacity = 4, rb_data = 0\<rparr>, mem = [7, 0, 0, 0],
     prod = P_Copy [8] 1 1 0, cons = C_Copy 0 1 [], accepted = [7], delivered = []\<rparr>"

lemma both_copying_reachable: "spsc_step\<^sup>*\<^sup>* (spsc_init 0 4 [0, 0, 0, 0]) both_copying"
proof -
  let ?i = "spsc_init 0 4 [0, 0, 0, 0]"
  let ?ring = "\<lambda>w. \<lparr>write_index = w, read_index = 0, rb_capacity = 4, rb_data = 0\<rparr>"
  let ?m = "[7, 0, 0, 0] :: bytes"
  define st where "st w m p c a = \<lparr>rb = ?ring w, mem = m, prod = p, cons = c, accepted = a, delivered = []\<rparr>"
    for w m p c a
  note eval = st_def to_write_def to_read_def slot_def
  have i: "?i = st 0 [0, 0, 0, 0] P_Idle C_Idle []" and f: "both_copying = st 1 ?m (P_Copy [8] 1 1 0) (C_Copy 0 1 []) [7]"
    by (simp_all add: spsc_init_def effect_ringbuffer_init_def st_def both_copying_def)
  have s1: "spsc_step (st 0 [0, 0, 0, 0] P_Idle C_Idle []) (st 0 [0, 0, 0, 0] (P_Loaded [7] 1 0) C_Idle [])"
    using spsc_step.p_call [of "st 0 [0, 0, 0, 0] P_Idle C_Idle []" 1 "[7]"] by (simp add: eval)
  have s2: "spsc_step (st 0 [0, 0, 0, 0] (P_Loaded [7] 1 0) C_Idle []) (st 0 [0, 0, 0, 0] (P_Copy [7] 0 1 0) C_Idle [])"
    using spsc_step.p_room [of "st 0 [0, 0, 0, 0] (P_Loaded [7] 1 0) C_Idle []" "[7]" 1 0] by (simp add: eval)
  have s3: "spsc_step (st 0 [0, 0, 0, 0] (P_Copy [7] 0 1 0) C_Idle []) (st 0 ?m (P_Copy [7] 0 1 1) C_Idle [])"
    using spsc_step.p_byte [of "st 0 [0, 0, 0, 0] (P_Copy [7] 0 1 0) C_Idle []" "[7]" 0 1 0] by (simp add: eval)
  have s4: "spsc_step (st 0 ?m (P_Copy [7] 0 1 1) C_Idle []) (st 1 ?m P_Idle C_Idle [7])"
    using spsc_step.p_publish [of "st 0 ?m (P_Copy [7] 0 1 1) C_Idle []" "[7]" 0 1] by (simp add: eval)
  have s5: "spsc_step (st 1 ?m P_Idle C_Idle [7]) (st 1 ?m (P_Loaded [8] 1 1) C_Idle [7])"
    using spsc_step.p_call [of "st 1 ?m P_Idle C_Idle [7]" 1 "[8]"] by (simp add: eval)
  have s6: "spsc_step (st 1 ?m (P_Loaded [8] 1 1) C_Idle [7]) (st 1 ?m (P_Loaded [8] 1 1) (C_Loaded 1 1) [7])"
    using spsc_step.c_call [of "st 1 ?m (P_Loaded [8] 1 1) C_Idle [7]" 1] by (simp add: eval)
  have s7: "spsc_step (st 1 ?m (P_Loaded [8] 1 1) (C_Loaded 1 1) [7]) (st 1 ?m (P_Copy [8] 1 1 0) (C_Loaded 1 1) [7])"
    using spsc_step.p_room [of "st 1 ?m (P_Loaded [8] 1 1) (C_Loaded 1 1) [7]" "[8]" 1 1] by (simp add: eval)
  have s8: "spsc_step (st 1 ?m (P_Copy [8] 1 1 0) (C_Loaded 1 1) [7]) (st 1 ?m (P_Copy [8] 1 1 0) (C_Copy 0 1 []) [7])"
    using spsc_step.c_some [of "st 1 ?m (P_Copy [8] 1 1 0) (C_Loaded 1 1) [7]" 1 1] by (simp add: eval)
  show ?thesis unfolding i f
    by (rule converse_rtranclp_into_rtranclp, rule s1,
      rule converse_rtranclp_into_rtranclp, rule s2,
      rule converse_rtranclp_into_rtranclp, rule s3,
      rule converse_rtranclp_into_rtranclp, rule s4,
      rule converse_rtranclp_into_rtranclp, rule s5,
      rule converse_rtranclp_into_rtranclp, rule s6,
      rule converse_rtranclp_into_rtranclp, rule s7,
      rule converse_rtranclp_into_rtranclp, rule s8, rule rtranclp.rtrancl_refl)
qed

text \<open>C6. With a producer and a consumer interleaved access by access on a ring whose capacity is a power of
  two, in every reachable state what the consumer has received is a prefix of what the producer
  has had accepted, at most a capacity of bytes is outstanding, and the ring holds exactly them.\<close>
theorem spsc_concurrent_fifo:
  assumes "spsc_step\<^sup>*\<^sup>* (spsc_init data capacity m) s"
    and "data + unat capacity \<le> length m" and "capacity \<noteq> 0" and "unat capacity dvd 2 ^ 64"
  shows "accepted s = delivered s @ rb_contents (rb s) (mem s) \<and>
    length (rb_contents (rb s) (mem s)) \<le> unat (rb_capacity (rb s))"
proof -
  have ring: "ring_ok s" using spsc_reachable_ok [OF assms] by (simp add: spsc_ok_def)
  then have "delivered s = take (length (delivered s)) (accepted s)"
    and "rb_used (rb s) \<le> unat (rb_capacity (rb s))"
    using ring_ok_wf(1) by (auto simp: ring_ok_def rb_wf_def)
  then show ?thesis unfolding ring_ok_contents [OF ring]
    by (metis append_take_drop_id length_rb_contents ring ring_ok_contents)
qed

theorem spsc_concurrent_fifo_witness:
  "accepted both_copying = delivered both_copying @ rb_contents (rb both_copying) (mem both_copying) \<and>
   length (rb_contents (rb both_copying) (mem both_copying)) \<le> 4"
  using spsc_concurrent_fifo [OF both_copying_reachable] by (simp add: both_copying_def)

text \<open>C17. The two copies never touch the same byte: in every reachable state in which both ends are
  copying, each byte the producer's call writes lies in the data block and differs from each byte
  the consumer's call reads.\<close>
theorem spsc_race_free:
  assumes "spsc_step\<^sup>*\<^sup>* (spsc_init data capacity m) s"
    and "data + unat capacity \<le> length m" and "capacity \<noteq> 0" and "unat capacity dvd 2 ^ 64"
    and "prod s = P_Copy src w n j" and "cons s = C_Copy r k buf" and "i < unat n" and "l < unat k"
  shows "slot (rb s) w i \<noteq> slot (rb s) r l \<and> slot (rb s) w i < length (mem s) \<and>
    slot (rb s) r l < length (mem s)"
proof -
  let ?A = "length (accepted s)" and ?D = "length (delivered s)" and ?c = "unat (rb_capacity (rb s))"
  have "spsc_ok s" by (rule spsc_reachable_ok [OF assms(1-4)])
  then have ring: "ring_ok s" and w: "w = of_nat ?A" and r: "r = of_nat ?D"
    and n: "?A + unat n \<le> ?D + ?c" and k: "?D + unat k \<le> ?A"
    using assms(5,6) by (auto simp: spsc_ok_def)
  have c: "0 < ?c" "?c dvd 2 ^ 64" using ring by (auto simp: ring_ok_def)
  have "slot (rb s) w i = cell s (?A + i)" and "slot (rb s) r l = cell s (?D + l)"
    unfolding w r using n k assms(7,8) by (intro slot_cell [OF c]; linarith)+
  moreover have "cell s (?D + l) \<noteq> cell s (?A + i)"
    using cell_inj [of s "?D + l" "?A + i"] n k assms(7,8) by auto
  ultimately show ?thesis using cell_bound [OF ring] by simp
qed

theorem spsc_race_free_witness:
  "slot (rb both_copying) 1 0 \<noteq> slot (rb both_copying) 0 0 \<and>
   slot (rb both_copying) 1 0 < length (mem both_copying) \<and> slot (rb both_copying) 0 0 < length (mem both_copying)"
  using spsc_race_free [OF both_copying_reachable, of "[8]" 1 1 0 0 1 "[]" 0 0]
  by (simp add: both_copying_def)

text \<open>C30. A call that runs without interruption has, step by step, exactly the effect and the result of the
  operation: from every reachable state with the calling end idle, the steps of a write lead to
  the ring and memory of \<open>effect_ringbuffer_write\<close>, those of a read to the ring and the
  bytes of \<open>effect_ringbuffer_read\<close>.\<close>
theorem spsc_call_is_operation:
  assumes "spsc_step\<^sup>*\<^sup>* (spsc_init data capacity m) s"
    and "data + unat capacity \<le> length m" and "capacity \<noteq> 0" and "unat capacity dvd 2 ^ 64"
    and "sz \<noteq> 0"
  shows "(prod s = P_Idle \<longrightarrow> unat sz \<le> length src \<longrightarrow>
      (\<exists>n rb' mem'. effect_ringbuffer_write (rb s) (mem s) src sz = Some (n, rb', mem') \<and>
        spsc_step\<^sup>*\<^sup>* s (s\<lparr>mem := mem', rb := rb', prod := P_Idle, accepted := accepted s @ take (unat n) src\<rparr>))) \<and>
    (cons s = C_Idle \<longrightarrow> unat sz \<le> length dst \<longrightarrow>
      (\<exists>n dst' rb'. effect_ringbuffer_read (rb s) (mem s) dst sz = Some (n, dst', rb') \<and>
        spsc_step\<^sup>*\<^sup>* s (s\<lparr>rb := rb', cons := C_Idle, delivered := delivered s @ take (unat n) dst'\<rparr>)))"
  using write_run read_run spsc_reachable_ok [OF assms(1-4)] assms(5) by blast

theorem spsc_call_is_operation_witness:
  "\<exists>n rb' mem'. effect_ringbuffer_write (rb (spsc_init 0 4 [0, 0, 0, 0])) [0, 0, 0, 0] [1, 2, 3] 3 = Some (n, rb', mem') \<and>
     spsc_step\<^sup>*\<^sup>* (spsc_init 0 4 [0, 0, 0, 0])
       ((spsc_init 0 4 [0, 0, 0, 0])\<lparr>mem := mem', rb := rb', prod := P_Idle, accepted := take (unat n) [1, 2, 3]\<rparr>)"
  using spsc_call_is_operation [of 0 4 "[0, 0, 0, 0]" "spsc_init 0 4 [0, 0, 0, 0]" 3 "[1, 2, 3]" "[]"]
  by (simp add: spsc_init_def)

end
