(* ===== verification/RingTests.thy ===== *)
theory RingTests
  imports RingBuffer
begin

text \<open>
  The ring buffer against a reference: a list with a bound. Every sequence of calls, resets and queries
  included, returns what the list returns. The unit tests of \<open>tests/unit/test_ringbuffer.c\<close> are
  translated as they are, and pass on the model of the code whatever the stack held.
\<close>

section \<open>Calls and the reference\<close>

datatype ring_req = CallWrite bytes u32 | CallRead bytes u32 | CallReadAvailable | CallWriteAvailable | CallReset

datatype ring_reply = Count u32 | Data u32 bytes | Void

fun ring_call :: "ring_req \<Rightarrow> ring \<Rightarrow> (ring_reply \<times> ring) option" where
  "ring_call (CallWrite src sz) (rb, mem) = do {
     (n, rb, mem) \<leftarrow> effect_ringbuffer_write rb mem src sz;
     Some (Count n, (rb, mem)) }"
| "ring_call (CallRead dst sz) (rb, mem) = do {
     (n, dst, rb) \<leftarrow> effect_ringbuffer_read rb mem dst sz;
     Some (Data n dst, (rb, mem)) }"
| "ring_call CallReadAvailable (rb, mem) = Some (Count (effect_ringbuffer_get_read_available rb), (rb, mem))"
| "ring_call CallWriteAvailable (rb, mem) = Some (Count (effect_ringbuffer_get_write_available rb), (rb, mem))"
| "ring_call CallReset (rb, mem) = Some (Void, (effect_ringbuffer_reset rb, mem))"

fun ring_calls :: "ring_req list \<Rightarrow> ring \<Rightarrow> (ring_reply list \<times> ring) option" where
  "ring_calls [] q = Some ([], q)"
| "ring_calls (c # cs) q = do {
     (r, q) \<leftarrow> ring_call c q;
     (rs, q) \<leftarrow> ring_calls cs q;
     Some (r # rs, q) }"

text \<open>The list \<open>xs\<close> with room for \<open>cap\<close> bytes.\<close>

fun list_call :: "nat \<Rightarrow> ring_req \<Rightarrow> bytes \<Rightarrow> ring_reply \<times> bytes" where
  "list_call cap (CallWrite src sz) xs =
     (let n = min (unat sz) (cap - length xs) in (Count (of_nat n), xs @ take n src))"
| "list_call cap (CallRead dst sz) xs =
     (let n = min (unat sz) (length xs) in (Data (of_nat n) (take n xs @ drop n dst), drop n xs))"
| "list_call cap CallReadAvailable xs = (Count (of_nat (length xs)), xs)"
| "list_call cap CallWriteAvailable xs = (Count (of_nat (cap - length xs)), xs)"
| "list_call cap CallReset xs = (Void, [])"

fun list_calls :: "nat \<Rightarrow> ring_req list \<Rightarrow> bytes \<Rightarrow> ring_reply list \<times> bytes" where
  "list_calls cap [] xs = ([], xs)"
| "list_calls cap (c # cs) xs =
     (case list_call cap c xs of (r, xs) \<Rightarrow> case list_calls cap cs xs of (rs, xs) \<Rightarrow> (r # rs, xs))"

fun call_in_bounds :: "ring_req \<Rightarrow> bool" where
  "call_in_bounds (CallWrite src sz) = (unat sz \<le> length src)"
| "call_in_bounds (CallRead dst sz) = (unat sz \<le> length dst)"
| "call_in_bounds _ = True"

text \<open>The block of memory, its size, and everything around it stay.\<close>

definition same_block :: "ring \<Rightarrow> ring \<Rightarrow> bool" where
  "same_block q q' \<longleftrightarrow> rb_capacity (fst q') = rb_capacity (fst q) \<and> rb_data (fst q') = rb_data (fst q) \<and>
     length (snd q') = length (snd q) \<and>
     (\<forall>i < length (snd q). i < rb_data (fst q) \<or> rb_data (fst q) + unat (rb_capacity (fst q)) \<le> i \<longrightarrow>
       snd q' ! i = snd q ! i)"

lemma same_block_refl [simp]: "same_block q q"
  by (simp add: same_block_def)

lemma same_block_trans: "same_block q q' \<Longrightarrow> same_block q' q'' \<Longrightarrow> same_block q q''"
  by (simp add: same_block_def)

lemma ring_write_call:
  assumes q: "ring_inv (rb, mem)" and src: "unat sz \<le> length src"
  obtains rb' mem' where "effect_ringbuffer_write rb mem src sz =
      Some (of_nat (min (unat sz) (ring_limit (rb, mem) - length (ring_contents (rb, mem)))), rb', mem')"
    and "ring_inv (rb', mem')" and "same_block (rb, mem) (rb', mem')"
    and "ring_contents (rb', mem') = ring_contents (rb, mem) @
      take (min (unat sz) (ring_limit (rb, mem) - length (ring_contents (rb, mem)))) src"
proof -
  have wf: "rb_wf rb mem" "rb_aligned rb" using q by (simp_all add: ring_inv_def)
  obtain rb' mem' where "effect_ringbuffer_write rb mem src sz = Some (of_nat (rb_accepts rb sz), rb', mem')"
      "rb_wf rb' mem'" "rb_contents rb' mem' = rb_contents rb mem @ take (rb_accepts rb sz) src"
      "rb_capacity rb' = rb_capacity rb" "rb_data rb' = rb_data rb" "length mem' = length mem"
      "\<forall>i. i < length mem \<longrightarrow> i < rb_data rb \<or> rb_data rb + unat (rb_capacity rb) \<le> i \<longrightarrow> mem' ! i = mem ! i"
    using write_correct [OF wf(1) src disjI1 [OF wf(2)]] by blast
  then show thesis using wf(2)
    by (intro that [of rb' mem']) (simp_all add: ring_inv_def ring_contents_def ring_limit_def same_block_def rb_aligned_def)
qed

lemma ring_read_call:
  assumes q: "ring_inv (rb, mem)" and dst: "unat sz \<le> length dst"
  obtains rb' where "effect_ringbuffer_read rb mem dst sz =
      Some (of_nat (min (unat sz) (length (ring_contents (rb, mem)))),
        take (min (unat sz) (length (ring_contents (rb, mem)))) (ring_contents (rb, mem)) @
        drop (min (unat sz) (length (ring_contents (rb, mem)))) dst, rb')"
    and "ring_inv (rb', mem)" and "same_block (rb, mem) (rb', mem)"
    and "ring_contents (rb', mem) = drop (min (unat sz) (length (ring_contents (rb, mem)))) (ring_contents (rb, mem))"
proof -
  have wf: "rb_wf rb mem" "rb_aligned rb" using q by (simp_all add: ring_inv_def)
  obtain rb' where "effect_ringbuffer_read rb mem dst sz =
      Some (of_nat (rb_delivers rb sz), blit dst 0 (take (rb_delivers rb sz) (rb_contents rb mem)), rb')"
      "rb_wf rb' mem" "rb_contents rb' mem = drop (rb_delivers rb sz) (rb_contents rb mem)"
      "rb_capacity rb' = rb_capacity rb" "rb_data rb' = rb_data rb"
    using read_correct [OF wf(1) dst] by blast
  then show thesis using wf(2)
    by (intro that [of rb']) (simp_all add: ring_inv_def ring_contents_def same_block_def rb_aligned_def blit_0)
qed

lemma ring_call_list:
  assumes q: "ring_inv q" and c: "call_in_bounds c"
  shows "\<exists>q'. ring_call c q = Some (fst (list_call (ring_limit q) c (ring_contents q)), q') \<and> ring_inv q' \<and>
    same_block q q' \<and> ring_contents q' = snd (list_call (ring_limit q) c (ring_contents q))"
proof (cases c)
  case (CallWrite src sz)
  then have src: "unat sz \<le> length src" using c by simp
  obtain rb mem where e: "q = (rb, mem)" by fastforce
  show ?thesis using ring_write_call [OF q [unfolded e] src] by (fastforce simp: CallWrite e Let_def)
next
  case (CallRead dst sz)
  then have dst: "unat sz \<le> length dst" using c by simp
  obtain rb mem where e: "q = (rb, mem)" by fastforce
  show ?thesis using ring_read_call [OF q [unfolded e] dst] by (fastforce simp: CallRead e Let_def)
next
  case CallReadAvailable
  obtain rb mem where e: "q = (rb, mem)" by fastforce
  then have "unat (effect_ringbuffer_get_read_available rb) = length (ring_contents q)"
    using read_available [of rb mem] q by (simp add: ring_inv_def ring_contents_def)
  then show ?thesis using q by (simp add: CallReadAvailable e) (metis word_eq_of_natI)
next
  case CallWriteAvailable
  obtain rb mem where e: "q = (rb, mem)" by fastforce
  then have "unat (effect_ringbuffer_get_write_available rb) = ring_limit q - length (ring_contents q)"
    using write_available [of rb mem] q by (simp add: ring_inv_def ring_contents_def ring_limit_def)
  then show ?thesis using q by (simp add: CallWriteAvailable e) (metis word_eq_of_natI)
next
  case CallReset
  obtain rb mem where e: "q = (rb, mem)" by fastforce
  then have "ring_inv (effect_ringbuffer_reset rb, mem)"
    using q reset_wf [of rb mem] by (simp add: ring_inv_def rb_aligned_def) (simp add: effect_ringbuffer_reset_def)
  then show ?thesis
    by (simp add: CallReset e ring_contents_def same_block_def) (simp add: effect_ringbuffer_reset_def)
qed

lemma length_list_calls: "length (fst (list_calls cap cs xs)) = length cs"
  by (induction cs arbitrary: xs) (simp_all add: case_prod_beta)

lemma same_block_limit: "same_block q q' \<Longrightarrow> ring_limit q' = ring_limit q"
  by (cases q; cases q') (simp add: same_block_def ring_limit_def)

lemma ring_calls_list:
  assumes "ring_inv q" and "list_all call_in_bounds cs"
  shows "\<exists>q'. ring_calls cs q = Some (fst (list_calls (ring_limit q) cs (ring_contents q)), q') \<and> ring_inv q' \<and>
    same_block q q' \<and> ring_contents q' = snd (list_calls (ring_limit q) cs (ring_contents q))"
  using assms
proof (induction cs arbitrary: q)
  case (Cons c cs)
  let ?l = "list_call (ring_limit q) c (ring_contents q)"
  obtain q1 where 1: "ring_call c q = Some (fst ?l, q1)" "ring_inv q1" "same_block q q1" "ring_contents q1 = snd ?l"
    using ring_call_list [OF Cons.prems(1), of c] Cons.prems(2) by (metis list.pred_inject(2))
  obtain q2 where 2: "ring_calls cs q1 = Some (fst (list_calls (ring_limit q) cs (snd ?l)), q2)" "ring_inv q2"
      "same_block q1 q2" "ring_contents q2 = snd (list_calls (ring_limit q) cs (snd ?l))"
    using Cons.IH [OF 1(2)] Cons.prems(2) 1(3,4) by (auto simp: same_block_limit)
  then show ?case using 1 same_block_trans [OF 1(3) 2(3)] by (simp add: case_prod_beta)
qed simp

section \<open>The unit tests\<close>

text \<open>
  The bodies of the test functions. An uninitialised array holds whatever the stack held, a failed
  \<open>assert\<close> aborts the run (\<open>Some False\<close>) and undefined behaviour is \<open>None\<close>.
\<close>

abbreviation assert_then :: "bool \<Rightarrow> bool option \<Rightarrow> bool option" where
  "assert_then b rest \<equiv> (if b then rest else Some False)"

abbreviation stack_array :: "(nat \<Rightarrow> u8) \<Rightarrow> nat \<Rightarrow> bytes" where
  "stack_array stack n \<equiv> map stack [0..<n]"

abbreviation counting :: "nat \<Rightarrow> bytes" where
  "counting n \<equiv> map of_nat [0..<n]"

definition memcmp_0 :: "bytes \<Rightarrow> nat \<Rightarrow> bytes \<Rightarrow> nat \<Rightarrow> nat \<Rightarrow> bool option" where
  "memcmp_0 a i b j n = do { x \<leftarrow> mem_load a i n; y \<leftarrow> mem_load b j n; Some (x = y) }"

definition test_ringbuffer_basic :: "(nat \<Rightarrow> u8) \<Rightarrow> (nat \<Rightarrow> u8) \<Rightarrow> bool option" where
  "test_ringbuffer_basic stack_buffer stack_read =
    (let buffer = stack_array stack_buffer 1024; rb = effect_ringbuffer_init 0 1024 in
     assert_then (effect_ringbuffer_get_read_available rb = 0)
     (assert_then (effect_ringbuffer_get_write_available rb = 1024)
      (let write_data = counting 256 in do {
       (written, rb, buffer) \<leftarrow> effect_ringbuffer_write rb buffer write_data 256;
       assert_then (written = 256)
       (assert_then (effect_ringbuffer_get_read_available rb = 256)
       (assert_then (effect_ringbuffer_get_write_available rb = 1024 - 256) (do {
         (read, read_data, rb) \<leftarrow> effect_ringbuffer_read rb buffer (stack_array stack_read 256) 256;
         assert_then (read = 256) (do {
           same \<leftarrow> memcmp_0 write_data 0 read_data 0 256;
           assert_then same
           (assert_then (effect_ringbuffer_get_read_available rb = 0) (Some True)) }) }))) })))"

definition test_ringbuffer_wrap_around :: "(nat \<Rightarrow> u8) \<Rightarrow> (nat \<Rightarrow> u8) \<Rightarrow> (nat \<Rightarrow> u8) \<Rightarrow> bool option" where
  "test_ringbuffer_wrap_around stack_buffer stack_temp stack_read =
    (let buffer = stack_array stack_buffer 256; rb = effect_ringbuffer_init 0 256; data = counting 256 in do {
       (_, rb, buffer) \<leftarrow> effect_ringbuffer_write rb buffer data 200;
       (_, temp, rb) \<leftarrow> effect_ringbuffer_read rb buffer (stack_array stack_temp 200) 150;
       (_, rb, buffer) \<leftarrow> effect_ringbuffer_write rb buffer data 200;
       (read, read_data, rb) \<leftarrow> effect_ringbuffer_read rb buffer (stack_array stack_read 250) 250;
       assert_then (read = 250) (do {
         first \<leftarrow> memcmp_0 read_data 0 data 150 50;
         assert_then first (do {
           second \<leftarrow> memcmp_0 read_data 50 data 0 200;
           assert_then second (Some True) }) }) })"

definition test_ringbuffer_full :: "(nat \<Rightarrow> u8) \<Rightarrow> bool option" where
  "test_ringbuffer_full stack_buffer =
    (let buffer = stack_array stack_buffer 256; rb = effect_ringbuffer_init 0 256; data = counting 512 in do {
       (written, rb, buffer) \<leftarrow> effect_ringbuffer_write rb buffer data 512;
       assert_then (written = 256)
       (assert_then (effect_ringbuffer_get_write_available rb = 0)
       (assert_then (effect_ringbuffer_get_read_available rb = 256) (Some True))) })"

definition test_ringbuffer_empty :: "(nat \<Rightarrow> u8) \<Rightarrow> (nat \<Rightarrow> u8) \<Rightarrow> bool option" where
  "test_ringbuffer_empty stack_buffer stack_read =
    (let buffer = stack_array stack_buffer 256; rb = effect_ringbuffer_init 0 256 in do {
       (read, read_data, rb) \<leftarrow> effect_ringbuffer_read rb buffer (stack_array stack_read 128) 128;
       assert_then (read = 0) (Some True) })"

definition test_ringbuffer_reset :: "(nat \<Rightarrow> u8) \<Rightarrow> (nat \<Rightarrow> u8) \<Rightarrow> bool option" where
  "test_ringbuffer_reset stack_buffer stack_data =
    (let buffer = stack_array stack_buffer 256; rb = effect_ringbuffer_init 0 256 in do {
       (_, rb, buffer) \<leftarrow> effect_ringbuffer_write rb buffer (stack_array stack_data 128) 128;
       assert_then (effect_ringbuffer_get_read_available rb = 128)
       (let rb = effect_ringbuffer_reset rb in
        assert_then (effect_ringbuffer_get_read_available rb = 0)
        (assert_then (effect_ringbuffer_get_write_available rb = 256) (Some True))) })"

text \<open>\<open>main\<close> of the test program: the tests in order, \<open>Some True\<close> when it returns 0. The
  argument gives every uninitialised array its contents.\<close>

definition test_main :: "(nat \<Rightarrow> nat \<Rightarrow> u8) \<Rightarrow> bool option" where
  "test_main stack = do {
     ok \<leftarrow> test_ringbuffer_basic (stack 0) (stack 1);
     assert_then ok (do {
       ok \<leftarrow> test_ringbuffer_wrap_around (stack 2) (stack 3) (stack 4);
       assert_then ok (do {
         ok \<leftarrow> test_ringbuffer_full (stack 5);
         assert_then ok (do {
           ok \<leftarrow> test_ringbuffer_empty (stack 6) (stack 7);
           assert_then ok (do {
             ok \<leftarrow> test_ringbuffer_reset (stack 8) (stack 9);
             assert_then ok (Some True) }) }) }) }) }"

subsection \<open>Each test passes\<close>

lemma ring_read_available:
  "ring_inv (rb, mem) \<Longrightarrow>
    effect_ringbuffer_get_read_available rb = of_nat (length (ring_contents (rb, mem)))"
  using read_available [of rb mem] by (simp add: ring_inv_def ring_contents_def word_eq_of_natI)

lemma ring_write_available:
  "ring_inv (rb, mem) \<Longrightarrow> effect_ringbuffer_get_write_available rb =
    of_nat (ring_limit (rb, mem) - length (ring_contents (rb, mem)))"
  using write_available [of rb mem]
  by (simp add: ring_inv_def ring_contents_def ring_limit_def word_eq_of_natI)

lemma fresh_ring:
  assumes "n \<in> {256, 1024}"
  shows "ring_inv (effect_ringbuffer_init 0 (of_nat n), stack_array f n)"
    and "ring_limit (effect_ringbuffer_init 0 (of_nat n), stack_array f n) = n"
  using assms by (auto intro!: ring_init_inv simp: dvd_def)

lemma basic_passes: "test_ringbuffer_basic f g = Some True"
proof -
  let ?q = "(effect_ringbuffer_init 0 1024, stack_array f 1024)" and ?d = "counting 256"
  have q: "ring_inv ?q" "ring_limit ?q = 1024" using fresh_ring [of 1024 f] by simp_all
  obtain rb mem where w: "effect_ringbuffer_write (fst ?q) (snd ?q) ?d 256 = Some (256, rb, mem)"
      "ring_inv (rb, mem)" "same_block ?q (rb, mem)" "ring_contents (rb, mem) = ?d"
    by (rule ring_write_call [OF q(1), of 256 ?d]) (use q(2) in simp_all)
  have l: "ring_limit (rb, mem) = 1024" using same_block_limit [OF w(3)] q(2) by simp
  obtain rb' where r: "effect_ringbuffer_read rb mem (stack_array g 256) 256 = Some (256, ?d, rb')"
      "ring_inv (rb', mem)" "ring_contents (rb', mem) = []"
    by (rule ring_read_call [OF w(2), of 256 "stack_array g 256"]) (use w(4) in simp_all)
  show ?thesis
    using w(1) r(1) ring_read_available [OF q(1)] ring_write_available [OF q(1)] ring_read_available [OF w(2)]
      ring_write_available [OF w(2)] ring_read_available [OF r(2)] q(2) w(4) r(3) l
    by (simp add: test_ringbuffer_basic_def memcmp_0_def mem_load_def del: upt_conv_Cons)
qed

lemma wrap_around_passes: "test_ringbuffer_wrap_around f g h = Some True"
proof -
  let ?q = "(effect_ringbuffer_init 0 256, stack_array f 256)" and ?d = "counting 256"
  have q: "ring_inv ?q" "ring_limit ?q = 256" using fresh_ring [of 256 f] by simp_all
  obtain rb1 m1 where 1: "effect_ringbuffer_write (fst ?q) (snd ?q) ?d 200 = Some (200, rb1, m1)"
      "ring_inv (rb1, m1)" "same_block ?q (rb1, m1)" "ring_contents (rb1, m1) = take 200 ?d"
    by (rule ring_write_call [OF q(1), of 200 ?d]) (use q(2) in simp_all)
  obtain rb2 temp where 2: "effect_ringbuffer_read rb1 m1 (stack_array g 200) 150 = Some (150, temp, rb2)"
      "ring_inv (rb2, m1)" "same_block (rb1, m1) (rb2, m1)" "ring_contents (rb2, m1) = drop 150 (take 200 ?d)"
    by (rule ring_read_call [OF 1(2), of 150 "stack_array g 200"]) (use 1(4) in simp_all)
  have l: "ring_limit (rb2, m1) = 256" using same_block_limit [OF 2(3)] same_block_limit [OF 1(3)] q(2) by simp
  obtain rb3 m3 where 3: "effect_ringbuffer_write rb2 m1 ?d 200 = Some (200, rb3, m3)"
      "ring_inv (rb3, m3)" "ring_contents (rb3, m3) = drop 150 (take 200 ?d) @ take 200 ?d"
    by (rule ring_write_call [OF 2(2), of 200 ?d]) (use l 2(4) in simp_all)
  obtain rb4 where 4: "effect_ringbuffer_read rb3 m3 (stack_array h 250) 250 =
      Some (250, drop 150 (take 200 ?d) @ take 200 ?d, rb4)"
    by (rule ring_read_call [OF 3(2), of 250 "stack_array h 250"]) (use 3(3) in simp_all)
  show ?thesis
    using 1(1) 2(1) 3(1) 4
    by (simp add: test_ringbuffer_wrap_around_def memcmp_0_def mem_load_def take_drop)
qed

lemma full_passes: "test_ringbuffer_full f = Some True"
proof -
  let ?q = "(effect_ringbuffer_init 0 256, stack_array f 256)" and ?d = "counting 512"
  have q: "ring_inv ?q" "ring_limit ?q = 256" using fresh_ring [of 256 f] by simp_all
  obtain rb mem where w: "effect_ringbuffer_write (fst ?q) (snd ?q) ?d 512 = Some (256, rb, mem)"
      "ring_inv (rb, mem)" "same_block ?q (rb, mem)" "ring_contents (rb, mem) = take 256 ?d"
    by (rule ring_write_call [OF q(1), of 512 ?d]) (use q(2) in simp_all)
  show ?thesis
    using w(1,4) ring_read_available [OF w(2)] ring_write_available [OF w(2)] same_block_limit [OF w(3)] q(2)
    by (simp add: test_ringbuffer_full_def)
qed

lemma empty_passes: "test_ringbuffer_empty f g = Some True"
proof -
  let ?q = "(effect_ringbuffer_init 0 256, stack_array f 256)"
  have q: "ring_inv ?q" using fresh_ring [of 256 f] by simp
  obtain rb where "effect_ringbuffer_read (fst ?q) (snd ?q) (stack_array g 128) 128 = Some (0, stack_array g 128, rb)"
    by (rule ring_read_call [OF q, of 128 "stack_array g 128"]) simp_all
  then show ?thesis by (simp add: test_ringbuffer_empty_def)
qed

lemma reset_passes: "test_ringbuffer_reset f g = Some True"
proof -
  let ?q = "(effect_ringbuffer_init 0 256, stack_array f 256)" and ?d = "stack_array g 128"
  have q: "ring_inv ?q" "ring_limit ?q = 256" using fresh_ring [of 256 f] by simp_all
  obtain rb mem where w: "effect_ringbuffer_write (fst ?q) (snd ?q) ?d 128 = Some (128, rb, mem)"
      "ring_inv (rb, mem)" "same_block ?q (rb, mem)" "ring_contents (rb, mem) = ?d"
    by (rule ring_write_call [OF q(1), of 128 ?d]) (use q(2) in simp_all)
  obtain q' where c: "ring_call CallReset (rb, mem) = Some (Void, q')" "ring_inv q'" "same_block (rb, mem) q'"
      "ring_contents q' = []"
    using ring_call_list [OF w(2), of CallReset] by auto
  have r: "ring_inv (effect_ringbuffer_reset rb, mem)" "ring_contents (effect_ringbuffer_reset rb, mem) = []"
      "ring_limit (effect_ringbuffer_reset rb, mem) = 256"
    using c same_block_limit [OF c(3)] same_block_limit [OF w(3)] q(2) by auto
  show ?thesis
    using w(1,4) ring_read_available [OF w(2)] ring_read_available [OF r(1)] ring_write_available [OF r(1)] r(2,3)
    by (simp add: test_ringbuffer_reset_def Let_def)
qed

section \<open>Properties\<close>

text \<open>C5. A ring whose capacity is a power of two is a bounded list: every sequence of writes, reads,
  queries and resets whose sizes stay within the caller's arrays runs without undefined behaviour, returns
  to the caller exactly what a plain list with that bound returns, byte for byte, and leaves the bytes
  the list holds in the ring, at any value of the counters.\<close>

theorem ring_replies_like_bounded_list:
  assumes "ring_inv q" and "list_all call_in_bounds cs"
    and "list_calls (ring_limit q) cs (ring_contents q) = (replies, kept)"
  shows "\<exists>q'. ring_calls cs q = Some (replies, q') \<and> ring_contents q' = kept"
  using ring_calls_list [OF assms(1,2)] assms(3) by auto

theorem ring_replies_like_bounded_list_witness:
  "\<exists>q'. ring_calls [CallWrite [1, 2, 3, 4, 5] 5, CallRead [0, 0, 0] 3, CallWriteAvailable, CallWrite [6, 7] 2,
      CallReadAvailable, CallRead [0, 0, 0, 0] 4, CallReset] (effect_ringbuffer_init 0 4, [9, 9, 9, 9]) =
    Some ([Count 4, Data 3 [1, 2, 3], Count 3, Count 2, Count 3, Data 3 [4, 6, 7, 0], Void], q') \<and>
    ring_contents q' = []"
  by (rule ring_replies_like_bounded_list)
    (simp_all add: ring_init_inv dvd_def Let_def)

text \<open>C26. The representation is kept by every call: from a well-formed ring on a power-of-two capacity
  any sequence of calls within the caller's arrays gives a ring that is well formed again, on the same block
  of memory of the same capacity, with every byte outside the block as it was, and with the free and the
  queued bytes adding up to the capacity.\<close>

theorem ring_calls_keep_type:
  assumes "ring_inv (rb, mem)" and "list_all call_in_bounds cs"
  shows "\<exists>replies rb' mem'. ring_calls cs (rb, mem) = Some (replies, rb', mem') \<and> length replies = length cs \<and>
    ring_inv (rb', mem') \<and> rb_capacity rb' = rb_capacity rb \<and> rb_data rb' = rb_data rb \<and>
    length mem' = length mem \<and>
    (\<forall>i < length mem. i < rb_data rb \<or> rb_data rb + unat (rb_capacity rb) \<le> i \<longrightarrow> mem' ! i = mem ! i) \<and>
    unat (effect_ringbuffer_get_read_available rb') + unat (effect_ringbuffer_get_write_available rb') =
      unat (rb_capacity rb)"
proof -
  obtain rb' mem' where c: "ring_calls cs (rb, mem) =
        Some (fst (list_calls (ring_limit (rb, mem)) cs (ring_contents (rb, mem))), rb', mem')"
      "ring_inv (rb', mem')" "same_block (rb, mem) (rb', mem')"
    using ring_calls_list [OF assms] by auto
  then show ?thesis
    using read_available [of rb' mem'] write_available [of rb' mem'] ring.contents_bound [of "(rb', mem')"]
    by (auto simp: same_block_def length_list_calls ring_inv_def ring_contents_def ring_limit_def)
qed

theorem ring_calls_keep_type_witness:
  "\<exists>replies rb' mem'. ring_calls [CallWrite [1, 2, 3, 4, 5] 5, CallRead [0, 0, 0] 3, CallWrite [6, 7] 2]
      (effect_ringbuffer_init 2 4, [8, 8, 0, 0, 0, 0, 9]) = Some (replies, rb', mem') \<and>
    ring_inv (rb', mem') \<and> length mem' = 7 \<and> mem' ! 0 = 8 \<and> mem' ! 1 = 8 \<and> mem' ! 6 = 9"
proof -
  have h: "ring_inv (effect_ringbuffer_init 2 4, [8, 8, 0, 0, 0, 0, 9])"
    by (simp add: ring_init_inv dvd_def)
  show ?thesis
    using ring_calls_keep_type [OF h, of "[CallWrite [1, 2, 3, 4, 5] 5, CallRead [0, 0, 0] 3, CallWrite [6, 7] 2]"]
    by (force simp: effect_ringbuffer_init_def)
qed

text \<open>The unit tests pass: on the model of the ring buffer every assertion of the five tests holds and
  \<open>main\<close> returns 0, whatever the uninitialised arrays of the tests hold, with no undefined
  behaviour on the way.\<close>

theorem unit_tests_pass: "test_main stack = Some True"
  by (simp add: test_main_def basic_passes wrap_around_passes full_passes empty_passes reset_passes)

end
