(* ===== verification/SharedMemory.thy ===== *)
theory SharedMemory
  imports Prelude
begin

text \<open>
  \<open>common/src/effect_shared_memory.c\<close>: shared memory and event descriptors, over a model of
  the kernel objects it uses. The kernel is a state passed through every call: a descriptor table
  that hands out the lowest free slot below a limit, anonymous memory files, mappings and the
  names in the shared memory namespace. Any call may also fail for a reason of its own; which
  ones do is given in advance by \<open>faults\<close>, consumed one entry per call, so a statement over all
  states is a statement over all failure patterns.

  The build modelled is the one without \<open>__ANDROID__\<close>: the fallback of
  \<open>effect_shared_memory_create\<close> is \<open>shm_open\<close>. Calls on an event descriptor that is not one
  (a programming error no caller makes) return their error value here, and \<open>timeout_ms\<close> is never
  negative in the program, so a wait always returns.
\<close>

section \<open>Kernel objects and calls\<close>

datatype fd_object = MemFile nat | EventFd u64

record kernel =
  faults :: "bool list"
  fd_limit :: nat
  fds :: "nat \<rightharpoonup> fd_object"
  files :: "bytes list"
  mappings :: "nat \<rightharpoonup> nat \<times> nat"
  next_addr :: nat
  shm_names :: "string list"
  heap_blocks :: nat

text \<open>What a process must give back: descriptors, mappings, names and heap blocks.\<close>

definition resources ::
  "kernel \<Rightarrow> (nat \<rightharpoonup> fd_object) \<times> (nat \<rightharpoonup> nat \<times> nat) \<times> string list \<times> nat" where
  "resources k = (fds k, mappings k, shm_names k, heap_blocks k)"

definition kernel_wf :: "kernel \<Rightarrow> bool" where
  "kernel_wf k \<longleftrightarrow>
     (\<forall>n i. fds k n = Some (MemFile i) \<longrightarrow> i < length (files k)) \<and>
     (\<forall>a. mappings k a \<noteq> None \<longrightarrow> a < next_addr k) \<and> 0 < next_addr k"

definition take_fault :: "kernel \<Rightarrow> bool \<times> kernel" where
  "take_fault k = (case faults k of [] \<Rightarrow> (False, k) | b # bs \<Rightarrow> (b, k\<lparr>faults := bs\<rparr>))"

definition lowest_fd :: "kernel \<Rightarrow> nat option" where
  "lowest_fd k = find (\<lambda>n. fds k n = None) [0..<fd_limit k]"

definition fd_of :: "kernel \<Rightarrow> int \<Rightarrow> fd_object option" where
  "fd_of k fd = (if fd < 0 then None else fds k (nat fd))"

definition new_fd :: "fd_object \<Rightarrow> kernel \<Rightarrow> int \<times> kernel" where
  "new_fd obj k =
     (let (bad, k1) = take_fault k in
      if bad then (- 1, k1)
      else (case lowest_fd k1 of
              None \<Rightarrow> (- 1, k1)
            | Some n \<Rightarrow> (int n, k1\<lparr>fds := (fds k1)(n \<mapsto> obj)\<rparr>)))"

definition sys_close :: "int \<Rightarrow> kernel \<Rightarrow> kernel" where
  "sys_close fd k = (if fd < 0 then k else k\<lparr>fds := (fds k)(nat fd := None)\<rparr>)"

definition new_file :: "kernel \<Rightarrow> int \<times> kernel" where
  "new_file k =
     (let (fd, k1) = new_fd (MemFile (length (files k))) k
      in if fd < 0 then (fd, k1) else (fd, k1\<lparr>files := files k1 @ [[]]\<rparr>))"

definition sys_shm_open :: "string \<Rightarrow> kernel \<Rightarrow> int \<times> kernel" where
  "sys_shm_open name k =
     (if name \<in> set (shm_names k) then (- 1, k)
      else let (fd, k1) = new_file k
           in if fd < 0 then (fd, k1) else (fd, k1\<lparr>shm_names := name # shm_names k1\<rparr>))"

definition sys_shm_unlink :: "string \<Rightarrow> kernel \<Rightarrow> kernel" where
  "sys_shm_unlink name k = k\<lparr>shm_names := removeAll name (shm_names k)\<rparr>"

definition resize :: "nat \<Rightarrow> bytes \<Rightarrow> bytes" where
  "resize n xs = take n xs @ replicate (n - length xs) 0"

definition sys_ftruncate :: "int \<Rightarrow> u64 \<Rightarrow> kernel \<Rightarrow> int \<times> kernel" where
  "sys_ftruncate fd sz k =
     (let (bad, k1) = take_fault k in
      if bad \<or> 2 ^ 63 \<le> unat sz then (- 1, k1)
      else (case fd_of k1 fd of
              Some (MemFile i) \<Rightarrow> (0, k1\<lparr>files := (files k1)[i := resize (unat sz) (files k1 ! i)]\<rparr>)
            | _ \<Rightarrow> (- 1, k1)))"

text \<open>\<open>mmap\<close> returns an address, or zero standing for \<open>MAP_FAILED\<close>.\<close>

definition sys_mmap :: "int \<Rightarrow> u64 \<Rightarrow> kernel \<Rightarrow> nat \<times> kernel" where
  "sys_mmap fd sz k =
     (let (bad, k1) = take_fault k in
      if bad \<or> sz = 0 then (0, k1)
      else (case fd_of k1 fd of
              Some (MemFile i) \<Rightarrow>
                (next_addr k1,
                 k1\<lparr>mappings := (mappings k1)(next_addr k1 \<mapsto> (i, unat sz)),
                    next_addr := Suc (next_addr k1)\<rparr>)
            | _ \<Rightarrow> (0, k1)))"

definition sys_munmap :: "nat \<Rightarrow> u64 \<Rightarrow> kernel \<Rightarrow> int \<times> kernel" where
  "sys_munmap addr sz k =
     (case mappings k addr of
        Some (i, n) \<Rightarrow> if n = unat sz then (0, k\<lparr>mappings := (mappings k)(addr := None)\<rparr>) else (- 1, k)
      | None \<Rightarrow> (- 1, k))"

text \<open>An eight-byte \<open>write\<close> to, and \<open>read\<close> from, a non-blocking event descriptor: the number of
  bytes moved or \<open>- 1\<close>. The counter never holds more than \<open>2 ^ 64 - 2\<close>.\<close>

definition sys_eventfd_write :: "int \<Rightarrow> u64 \<Rightarrow> kernel \<Rightarrow> int \<times> kernel" where
  "sys_eventfd_write fd val k =
     (let (bad, k1) = take_fault k in
      if bad then (- 1, k1)
      else (case fd_of k1 fd of
              Some (EventFd c) \<Rightarrow>
                if unat c + unat val \<le> 2 ^ 64 - 2
                then (8, k1\<lparr>fds := (fds k1)(nat fd \<mapsto> EventFd (c + val))\<rparr>) else (- 1, k1)
            | _ \<Rightarrow> (- 1, k1)))"

definition sys_eventfd_read :: "int \<Rightarrow> kernel \<Rightarrow> int \<times> kernel" where
  "sys_eventfd_read fd k =
     (let (bad, k1) = take_fault k in
      if bad then (- 1, k1)
      else (case fd_of k1 fd of
              Some (EventFd c) \<Rightarrow>
                if c = 0 then (- 1, k1) else (8, k1\<lparr>fds := (fds k1)(nat fd \<mapsto> EventFd 0)\<rparr>)
            | _ \<Rightarrow> (- 1, k1)))"

text \<open>\<open>poll\<close> on one descriptor: negative descriptors are ignored, a closed one reports
  \<open>POLLNVAL\<close> (so the call returns one), a memory file is always readable.\<close>

definition sys_poll :: "int \<Rightarrow> int \<Rightarrow> kernel \<Rightarrow> int \<times> kernel" where
  "sys_poll fd timeout_ms k =
     (let (bad, k1) = take_fault k in
      if bad then (- 1, k1)
      else if fd < 0 then (0, k1)
      else (case fd_of k1 fd of Some (EventFd c) \<Rightarrow> (if c = 0 then 0 else 1, k1) | _ \<Rightarrow> (1, k1)))"

text \<open>The heap: a request that may fail, counting the live blocks, and a release.\<close>

definition heap_alloc :: "kernel \<Rightarrow> bool \<times> kernel" where
  "heap_alloc k =
     (let (bad, k1) = take_fault k
      in if bad then (False, k1) else (True, k1\<lparr>heap_blocks := Suc (heap_blocks k1)\<rparr>))"

definition heap_free :: "kernel \<Rightarrow> kernel" where
  "heap_free k = k\<lparr>heap_blocks := heap_blocks k - 1\<rparr>"

section \<open>The operations of the source\<close>

definition MFD_CLOEXEC :: u32 where "MFD_CLOEXEC = 1"

text \<open>The name is for debugging only and the flag closes the descriptor on \<open>exec\<close>; neither changes
  what the call returns.\<close>

definition memfd_create_wrapper :: "string \<Rightarrow> u32 \<Rightarrow> kernel \<Rightarrow> int \<times> kernel" where
  "memfd_create_wrapper name flags k = new_file k"

definition effect_shared_memory_create :: "string \<Rightarrow> u64 \<Rightarrow> kernel \<Rightarrow> int \<times> kernel" where
  "effect_shared_memory_create name sz k =
     (let (fd, k1) = memfd_create_wrapper name MFD_CLOEXEC k;
          (fd, k2) =
            (if fd < 0
             then let (fd', k') = sys_shm_open name k1
                  in (fd', if fd' \<ge> 0 then sys_shm_unlink name k' else k')
             else (fd, k1))
      in if fd < 0 then (- 1, k2)
         else let (r, k3) = sys_ftruncate fd sz k2
              in if r < 0 then (- 1, sys_close fd k3) else (fd, k3))"

definition effect_shared_memory_map :: "int \<Rightarrow> u64 \<Rightarrow> kernel \<Rightarrow> nat \<times> kernel" where
  "effect_shared_memory_map fd sz k =
     (let (addr, k1) = sys_mmap fd sz k in if addr = 0 then (0, k1) else (addr, k1))"

definition effect_shared_memory_unmap :: "nat \<Rightarrow> u64 \<Rightarrow> kernel \<Rightarrow> int \<times> kernel" where
  "effect_shared_memory_unmap addr sz k = sys_munmap addr sz k"

definition effect_eventfd_create :: "u32 \<Rightarrow> kernel \<Rightarrow> int \<times> kernel" where
  "effect_eventfd_create initval k = new_fd (EventFd (ucast initval)) k"

definition effect_eventfd_signal :: "int \<Rightarrow> kernel \<Rightarrow> int \<times> kernel" where
  "effect_eventfd_signal fd k =
     (let val = 1; (ret, k1) = sys_eventfd_write fd val k
      in (if ret = 8 then 0 else - 1, k1))"

definition effect_eventfd_wait :: "int \<Rightarrow> int \<Rightarrow> kernel \<Rightarrow> int \<times> kernel" where
  "effect_eventfd_wait fd timeout_ms k =
     (let (ret, k1) = sys_poll fd timeout_ms k
      in if ret \<le> 0 then (- 1, k1)
         else let (read_ret, k2) = sys_eventfd_read fd k1
              in (if read_ret = 8 then 0 else - 1, k2))"

section \<open>What the kernel calls do\<close>

lemma take_fault_faults: "take_fault k = (b, k') \<Longrightarrow> \<exists>fs. k' = k\<lparr>faults := fs\<rparr>"
  by (auto simp: take_fault_def split: list.splits intro: exI [of _ "faults k"])

lemma lowest_fd_free: "lowest_fd k = Some n \<Longrightarrow> fds k n = None \<and> n < fd_limit k"
  by (auto simp: lowest_fd_def find_Some_iff)

lemma lowest_fd_0: "0 < fd_limit k \<Longrightarrow> fds k 0 = None \<Longrightarrow> lowest_fd k = Some 0"
  by (simp add: lowest_fd_def upt_conv_Cons)

lemma fd_of_set:
  "fd_of k fd = Some x \<Longrightarrow> fd_of (k\<lparr>fds := (fds k)(nat fd \<mapsto> y)\<rparr>) fd = Some y"
  by (auto simp: fd_of_def split: if_splits)

lemma fd_of_int [simp]: "fd_of k (int n) = fds k n"
  by (simp add: fd_of_def)

lemma fd_of_faults [simp]: "fd_of (k\<lparr>faults := fs\<rparr>) fd = fd_of k fd"
  by (simp add: fd_of_def)

lemma kernel_wf_faults [simp]: "kernel_wf (k\<lparr>faults := fs\<rparr>) = kernel_wf k"
  by (simp add: kernel_wf_def)

lemma resources_faults [simp]: "resources (k\<lparr>faults := fs\<rparr>) = resources k"
  by (simp add: resources_def)

lemma heap_alloc_cases:
  assumes "heap_alloc k = (ok, k')"
  obtains (fails) fs where "\<not> ok" and "k' = k\<lparr>faults := fs\<rparr>"
    | (allocates) fs where "ok" and "k' = k\<lparr>faults := fs, heap_blocks := Suc (heap_blocks k)\<rparr>"
proof -
  obtain b k1 where tf: "take_fault k = (b, k1)" by fastforce
  then obtain fs where k1: "k1 = k\<lparr>faults := fs\<rparr>" using take_fault_faults by blast
  show thesis
    using assms by (cases b) (auto simp: heap_alloc_def tf k1 intro: that [of fs])
qed

lemma new_fd_cases:
  assumes "new_fd obj k = (fd, k')"
  obtains (fails) fs where "fd = - 1" and "k' = k\<lparr>faults := fs\<rparr>"
    | (opens) n fs where "fd = int n" and "fds k n = None"
        and "k' = k\<lparr>faults := fs, fds := (fds k)(n \<mapsto> obj)\<rparr>"
proof -
  obtain b k1 where tf: "take_fault k = (b, k1)" by fastforce
  then obtain fs where k1: "k1 = k\<lparr>faults := fs\<rparr>" using take_fault_faults by blast
  show thesis
  proof (cases "b \<or> lowest_fd k1 = None")
    case True
    then show thesis
      using assms tf k1 by (intro fails [of fs]) (auto simp: new_fd_def split: if_splits)
  next
    case False
    then obtain n where n: "lowest_fd k1 = Some n" by auto
    then have "fds k n = None" using lowest_fd_free [OF n] k1 by simp
    then show thesis
      using assms tf k1 n False by (intro opens [of n fs]) (auto simp: new_fd_def)
  qed
qed

lemma new_file_cases:
  assumes "new_file k = (fd, k')"
  obtains (fails) fs where "fd = - 1" and "k' = k\<lparr>faults := fs\<rparr>"
    | (opens) n fs where "fd = int n" and "fds k n = None"
        and "k' = k\<lparr>faults := fs, fds := (fds k)(n \<mapsto> MemFile (length (files k))), files := files k @ [[]]\<rparr>"
proof -
  obtain fd1 k1 where nf: "new_fd (MemFile (length (files k))) k = (fd1, k1)" by fastforce
  then show thesis
  proof (cases rule: new_fd_cases)
    case (fails fs)
    then show thesis using assms nf by (intro that(1) [of fs]) (auto simp: new_file_def)
  next
    case (opens n fs)
    then show thesis using assms nf by (intro that(2) [of n fs]) (auto simp: new_file_def)
  qed
qed

lemma shm_open_unlink_cases:
  assumes "sys_shm_open name k = (fd, k')"
  obtains (fails) fs where "fd = - 1" and "k' = k\<lparr>faults := fs\<rparr>"
    | (opens) n fs where "fd = int n" and "fds k n = None"
        and "sys_shm_unlink name k' =
          k\<lparr>faults := fs, fds := (fds k)(n \<mapsto> MemFile (length (files k))), files := files k @ [[]]\<rparr>"
proof (cases "name \<in> set (shm_names k)")
  case True
  then show thesis
    using assms by (intro that(1) [of "faults k"]) (auto simp: sys_shm_open_def)
next
  case False
  obtain fd1 k1 where nf: "new_file k = (fd1, k1)" by fastforce
  then show thesis
  proof (cases rule: new_file_cases)
    case (fails fs)
    then show thesis using assms nf False by (intro that(1) [of fs]) (auto simp: sys_shm_open_def)
  next
    case (opens n fs)
    then show thesis
      using assms nf False
      by (intro that(2) [of n fs]) (auto simp: sys_shm_open_def sys_shm_unlink_def)
  qed
qed

lemma ftruncate_cases:
  assumes "sys_ftruncate fd sz k = (r, k')" and "fd_of k fd = Some (MemFile i)"
  obtains (fails) fs where "r = - 1" and "k' = k\<lparr>faults := fs\<rparr>"
    | (resized) fs where "r = 0" and "unat sz < 2 ^ 63"
        and "k' = k\<lparr>faults := fs, files := (files k)[i := resize (unat sz) (files k ! i)]\<rparr>"
proof -
  obtain b k1 where tf: "take_fault k = (b, k1)" by fastforce
  then obtain fs where k1: "k1 = k\<lparr>faults := fs\<rparr>" using take_fault_faults by blast
  show thesis
  proof (cases "b \<or> 2 ^ 63 \<le> unat sz")
    case True
    then show thesis using assms tf k1 by (intro fails [of fs]) (auto simp: sys_ftruncate_def)
  next
    case False
    then show thesis using assms tf k1 by (intro resized [of fs]) (auto simp: sys_ftruncate_def)
  qed
qed

lemma mmap_cases:
  assumes "sys_mmap fd sz k = (addr, k')" and "kernel_wf k"
  obtains (fails) fs where "addr = 0" and "k' = k\<lparr>faults := fs\<rparr>"
    | (maps) i fs where "addr = next_addr k" and "addr \<noteq> 0" and "fd_of k fd = Some (MemFile i)"
        and "mappings k addr = None"
        and "k' = k\<lparr>faults := fs, mappings := (mappings k)(addr \<mapsto> (i, unat sz)), next_addr := Suc addr\<rparr>"
proof -
  obtain b k1 where tf: "take_fault k = (b, k1)" by fastforce
  then obtain fs where k1: "k1 = k\<lparr>faults := fs\<rparr>" using take_fault_faults by blast
  have free: "mappings k (next_addr k) = None" "next_addr k \<noteq> 0"
    using assms(2) less_irrefl by (fastforce simp: kernel_wf_def)+
  show thesis
  proof (cases "\<not> b \<and> sz \<noteq> 0 \<and> (\<exists>i. fd_of k fd = Some (MemFile i))")
    case True
    then obtain i where "fd_of k fd = Some (MemFile i)" by blast
    then show thesis
      using assms tf k1 True free by (intro maps [of i fs]) (auto simp: sys_mmap_def)
  next
    case False
    then show thesis
      using assms tf k1 by (intro fails [of fs]) (auto simp: sys_mmap_def split: option.splits fd_object.splits)
  qed
qed

section \<open>What the operations of the source do\<close>

lemma resize_Nil [simp]: "resize n [] = replicate n 0"
  by (simp add: resize_def)

lemma kernel_wf_open_file [simp]:
  "kernel_wf k \<Longrightarrow> kernel_wf (k\<lparr>faults := fs, fds := (fds k)(n \<mapsto> MemFile (length (files k))), files := files k @ [x]\<rparr>)"
  by (fastforce simp: kernel_wf_def split: if_splits)

lemma kernel_wf_close [simp]: "kernel_wf k \<Longrightarrow> kernel_wf (sys_close fd k)"
  by (simp add: kernel_wf_def sys_close_def)

text \<open>Creation either fails and gives everything back, or opens exactly one descriptor.\<close>

text \<open>A new unnamed file: from \<open>memfd_create\<close> or, where that fails, from \<open>shm_open\<close> with the name
  removed again.\<close>

lemma unnamed_file_cases:
  assumes m: "new_file k = (fd1, k1)"
    and s: "(if fd1 < 0 then let (fd', k') = sys_shm_open name k1
      in (fd', if fd' \<ge> 0 then sys_shm_unlink name k' else k') else (fd1, k1)) = (fd2, k2)"
  obtains (fails) fs where "fd2 = - 1" and "k2 = k\<lparr>faults := fs\<rparr>"
  | (opens) n fs where "fd2 = int n" and "fds k n = None"
      and "k2 = k\<lparr>faults := fs, fds := (fds k)(n \<mapsto> MemFile (length (files k))), files := files k @ [[]]\<rparr>"
  using m
proof (cases rule: new_file_cases)
  case (fails fs)
  obtain fd' k'' where o: "sys_shm_open name k1 = (fd', k'')" by fastforce
  from o show thesis
  proof (cases rule: shm_open_unlink_cases)
    case (fails fs')
    then show thesis using \<open>fd1 = - 1\<close> \<open>k1 = _\<close> s o by (intro that(1)) auto
  next
    case (opens n fs')
    then have "fd2 = int n" and "k2 = sys_shm_unlink name k''"
      using fails s o by auto
    then show thesis using opens fails by (intro that(2)) auto
  qed
next
  case (opens n fs)
  then show thesis using s by (intro that(2)) auto
qed

lemma create_cases:
  assumes "effect_shared_memory_create name sz k = (fd, k')" and "kernel_wf k"
  obtains (fails) fs ff where "fd = - 1"
        and "k' = k\<lparr>faults := fs, files := ff\<rparr>"
        and "kernel_wf k'"
    | (opens) n fs where "fd = int n" and "fds k n = None" and "unat sz < 2 ^ 63" and "kernel_wf k'"
        and "k' = k\<lparr>faults := fs, fds := (fds k)(n \<mapsto> MemFile (length (files k))),
              files := files k @ [replicate (unat sz) 0]\<rparr>"
proof -
  obtain fd1 k1 where m: "new_file k = (fd1, k1)" by fastforce
  define step where "step = (if fd1 < 0 then let (fd', k') = sys_shm_open name k1
      in (fd', if fd' \<ge> 0 then sys_shm_unlink name k' else k') else (fd1, k1))"
  obtain fd2 k2 where s: "step = (fd2, k2)" by fastforce
  have create: "effect_shared_memory_create name sz k =
    (if fd2 < 0 then (- 1, k2)
     else let (r, k3) = sys_ftruncate fd2 sz k2 in if r < 0 then (- 1, sys_close fd2 k3) else (fd2, k3))"
    using m s by (simp add: effect_shared_memory_create_def memfd_create_wrapper_def step_def)
  from m s [unfolded step_def] show thesis
  proof (cases rule: unnamed_file_cases)
    case (fails fs)
    then show thesis using assms create by (intro that(1) [of "files k" fs]) auto
  next
    case 2: (opens n fs)
    note k2 = 2(3)
    obtain r k3 where t: "sys_ftruncate fd2 sz k2 = (r, k3)" by fastforce
    have "fd_of k2 fd2 = Some (MemFile (length (files k)))" by (simp add: 2 k2)
    with t show thesis
    proof (cases rule: ftruncate_cases)
      case (fails fs')
      have "(fds k)(n := None) = fds k" using 2(2) by auto
      then show thesis
        using assms create 2 k2 t fails
        by (intro that(1) [of "files k @ [[]]" fs']) (auto simp: sys_close_def kernel_wf_def less_Suc_eq)
    next
      case (resized fs')
      then have k3: "k3 = k\<lparr>faults := fs', fds := (fds k)(n \<mapsto> MemFile (length (files k))),
          files := files k @ [replicate (unat sz) 0]\<rparr>"
        by (simp add: k2)
      have wf: "kernel_wf k3"
        unfolding k3 by (rule kernel_wf_open_file [OF assms(2)])
      have "fd = int n" and "k' = k3" using assms(1) create 2 t resized by auto
      then show thesis using that(2) [of n fs'] 2(2) resized(2) wf k3 by blast
    qed
  qed
qed

lemma map_cases:
  assumes "effect_shared_memory_map fd sz k = (addr, k')" and "kernel_wf k"
  obtains (fails) fs where "addr = 0" and "k' = k\<lparr>faults := fs\<rparr>"
    | (maps) i fs where "addr \<noteq> 0" and "fd_of k fd = Some (MemFile i)" and "mappings k addr = None"
        and "kernel_wf k'"
        and "k' = k\<lparr>faults := fs, mappings := (mappings k)(addr \<mapsto> (i, unat sz)), next_addr := Suc addr\<rparr>"
proof -
  have "sys_mmap fd sz k = (addr, k')"
    using assms(1) by (auto simp: effect_shared_memory_map_def split: prod.splits if_splits)
  then show thesis
  proof (cases rule: mmap_cases [OF _ assms(2), consumes 1, case_names fails maps])
    case (maps i fs)
    then show thesis using assms(2)
      by (intro that(2) [of i fs]) (auto simp: kernel_wf_def less_Suc_eq)
  qed (rule that(1))
qed

lemma unmap_mapped:
  "mappings k addr = Some (i, unat sz) \<Longrightarrow>
   effect_shared_memory_unmap addr sz k = (0, k\<lparr>mappings := (mappings k)(addr := None)\<rparr>)"
  by (simp add: effect_shared_memory_unmap_def sys_munmap_def)

lemma eventfd_create_cases:
  assumes "effect_eventfd_create v k = (fd, k')"
  obtains (fails) fs where "fd = - 1" and "k' = k\<lparr>faults := fs\<rparr>"
    | (opens) n fs where "fd = int n" and "fds k n = None"
        and "k' = k\<lparr>faults := fs, fds := (fds k)(n \<mapsto> EventFd (ucast v))\<rparr>"
  using assms by (auto simp: effect_eventfd_create_def elim: new_fd_cases)

text \<open>The two event descriptors of a session, and closing again what was opened when one of them
  could not be.\<close>

lemma eventfd_pair_cases:
  assumes "effect_eventfd_create 0 k = (fi, k1)" and "effect_eventfd_create 0 k1 = (fo, k2)"
  obtains (fails) fs where "fi < 0 \<or> fo < 0"
      and "(let k = (if 0 \<le> fi then sys_close fi k2 else k2) in if 0 \<le> fo then sys_close fo k else k) = k\<lparr>faults := fs\<rparr>"
    | (opens) n m fs where "fi = int n" and "fo = int m" and "n \<noteq> m" and "fds k n = None" and "fds k m = None"
      and "k2 = k\<lparr>faults := fs, fds := (fds k)(n \<mapsto> EventFd 0, m \<mapsto> EventFd 0)\<rparr>"
  using assms(1)
proof (cases rule: eventfd_create_cases)
  case In: (fails fs)
  from assms(2) show thesis
  proof (cases rule: eventfd_create_cases)
    case (fails fs')
    then show thesis using In by (intro that(1) [of fs']) auto
  next
    case (opens m fs')
    moreover have "(fds k)(m := None) = fds k" using opens(2) In by auto
    ultimately show thesis using In by (intro that(1) [of fs']) (auto simp: sys_close_def)
  qed
next
  case In: (opens n fs)
  from assms(2) show thesis
  proof (cases rule: eventfd_create_cases)
    case (fails fs')
    moreover have "(fds k)(n := None) = fds k" using In(2) by auto
    ultimately show thesis using In by (intro that(1) [of fs']) (auto simp: sys_close_def)
  next
    case (opens m fs')
    then have "n \<noteq> m" and "fds k m = None" using In by (auto split: if_splits)
    then show thesis using In opens by (intro that(2) [of n m fs']) auto
  qed
qed

text \<open>On an open event descriptor and without injected faults: a signal adds one unless the
  counter is at its maximum, a wait succeeds exactly when the counter is not zero and clears it.\<close>

lemma signal_event:
  assumes "fd_of k fd = Some (EventFd c)" and "faults k = []"
  shows "effect_eventfd_signal fd k =
    (if unat c < 2 ^ 64 - 2 then (0, k\<lparr>fds := (fds k)(nat fd \<mapsto> EventFd (c + 1))\<rparr>) else (- 1, k))"
  using assms by (auto simp: effect_eventfd_signal_def sys_eventfd_write_def take_fault_def)

lemma wait_event:
  assumes "fd_of k fd = Some (EventFd c)" and "faults k = []"
  shows "effect_eventfd_wait fd t k =
    (if c = 0 then (- 1, k) else (0, k\<lparr>fds := (fds k)(nat fd \<mapsto> EventFd 0)\<rparr>))"
  using assms
  by (auto simp: effect_eventfd_wait_def sys_poll_def sys_eventfd_read_def take_fault_def fd_of_def)

text \<open>A wait returns \<open>0\<close> or \<open>- 1\<close>, and \<open>0\<close> only when the descriptor had been signalled.\<close>

lemma wait_result: "fst (effect_eventfd_wait fd t k) = 0 \<or> fst (effect_eventfd_wait fd t k) = - 1"
  by (auto simp: effect_eventfd_wait_def split: prod.splits)

lemma wait_succeedsD:
  assumes "effect_eventfd_wait fd t k = (r, k')" and "0 \<le> r"
  shows "\<exists>c. fd_of k fd = Some (EventFd c) \<and> c \<noteq> 0"
proof -
  obtain ret k1 where p: "sys_poll fd t k = (ret, k1)" by fastforce
  obtain rr k2 where q: "sys_eventfd_read fd k1 = (rr, k2)" by fastforce
  have "rr = 8" using assms p q by (auto simp: effect_eventfd_wait_def split: if_splits)
  then obtain c where c: "fd_of k1 fd = Some (EventFd c)" "c \<noteq> 0"
    using q take_fault_faults [of k1]
    by (auto simp: sys_eventfd_read_def split: prod.splits if_splits option.splits fd_object.splits)
  moreover have "\<exists>fs. k1 = k\<lparr>faults := fs\<rparr>"
    using p take_fault_faults [of k]
    by (auto simp: sys_poll_def split: prod.splits if_splits option.splits fd_object.splits)
  ultimately show ?thesis by auto
qed

text \<open>Neither changes anything but the fault supply and the counter of that descriptor.\<close>

definition event_frame :: "int \<Rightarrow> kernel \<Rightarrow> kernel \<Rightarrow> bool" where
  "event_frame fd k k' \<longleftrightarrow> (\<exists>fs. k' = k\<lparr>faults := fs\<rparr> \<or>
     (\<exists>c c'. fd_of k fd = Some (EventFd c) \<and> k' = k\<lparr>faults := fs, fds := (fds k)(nat fd \<mapsto> EventFd c')\<rparr>))"

lemma event_frameI: "k' = k\<lparr>faults := fs\<rparr> \<Longrightarrow> event_frame fd k k'"
  by (auto simp: event_frame_def)

lemma eventfd_write_frame:
  assumes "sys_eventfd_write fd v k = (r, k')" shows "event_frame fd k k'"
proof -
  obtain b k1 where tf: "take_fault k = (b, k1)" by fastforce
  then obtain fs where k1: "k1 = k\<lparr>faults := fs\<rparr>" using take_fault_faults by blast
  show ?thesis
    using assms unfolding event_frame_def
    by (intro exI [of _ fs])
      (auto simp: sys_eventfd_write_def tf k1 split: if_splits option.splits fd_object.splits)
qed

lemma eventfd_read_frame:
  assumes "sys_eventfd_read fd k = (r, k')" shows "event_frame fd k k'"
proof -
  obtain b k1 where tf: "take_fault k = (b, k1)" by fastforce
  then obtain fs where k1: "k1 = k\<lparr>faults := fs\<rparr>" using take_fault_faults by blast
  show ?thesis
    using assms unfolding event_frame_def
    by (intro exI [of _ fs])
      (auto simp: sys_eventfd_read_def tf k1 split: if_splits option.splits fd_object.splits)
qed

lemma poll_faults:
  assumes "sys_poll fd t k = (r, k')" shows "\<exists>fs. k' = k\<lparr>faults := fs\<rparr>"
proof -
  obtain b k1 where tf: "take_fault k = (b, k1)" by fastforce
  then have "k' = k1"
    using assms by (auto simp: sys_poll_def split: if_splits option.splits fd_object.splits)
  then show ?thesis using take_fault_faults [OF tf] by simp
qed

lemma signal_frame: "effect_eventfd_signal fd k = (r, k') \<Longrightarrow> event_frame fd k k'"
  by (auto simp: effect_eventfd_signal_def split: prod.splits intro: eventfd_write_frame)

lemma wait_frame:
  assumes "effect_eventfd_wait fd t k = (r, k')" shows "event_frame fd k k'"
proof -
  obtain ret k1 where p: "sys_poll fd t k = (ret, k1)" by fastforce
  then obtain fs where k1: "k1 = k\<lparr>faults := fs\<rparr>" using poll_faults by blast
  have "k' = k1 \<or> (\<exists>rr. sys_eventfd_read fd k1 = (rr, k'))"
    using assms p by (auto simp: effect_eventfd_wait_def split: prod.splits if_splits)
  then have "k' = k1 \<or> event_frame fd k1 k'" using eventfd_read_frame by blast
  then show ?thesis by (fastforce simp: event_frame_def k1)
qed

lemma event_frameD:
  assumes "event_frame fd k k'"
  shows "mappings k' = mappings k" and "files k' = files k" and "shm_names k' = shm_names k"
    and "heap_blocks k' = heap_blocks k"
    and "next_addr k' = next_addr k" and "dom (fds k') = dom (fds k)"
    and "fds k' n = Some (MemFile i) \<longleftrightarrow> fds k n = Some (MemFile i)"
    and "kernel_wf k \<Longrightarrow> kernel_wf k'"
  using assms
  by (auto simp: event_frame_def fd_of_def kernel_wf_def split: if_splits)

section \<open>Properties\<close>

text \<open>C25. Whatever calls fail, creating shared memory either returns \<open>- 1\<close> with no descriptor,
  mapping or name left behind, or returns a descriptor that was free and now refers to a new
  file of exactly the requested number of zero bytes, everything else being unchanged.\<close>

theorem shared_memory_create_no_leak:
  assumes "kernel_wf k" and "effect_shared_memory_create name sz k = (fd, k')"
  shows "kernel_wf k' \<and> (fd = - 1 \<and> resources k' = resources k \<or>
    (\<exists>n. fd = int n \<and> fds k n = None \<and>
      resources k' = ((fds k)(n \<mapsto> MemFile (length (files k))), mappings k, shm_names k, heap_blocks k) \<and>
      files k' = files k @ [replicate (unat sz) 0]))"
  using assms(2,1)
proof (cases rule: create_cases)
  case (fails fs ff)
  have "resources k' = resources k" unfolding fails(2) by (simp add: resources_def)
  then show ?thesis using fails by simp
next
  case (opens n fs)
  have "resources k' = ((fds k)(n \<mapsto> MemFile (length (files k))), mappings k, shm_names k, heap_blocks k)"
    and "files k' = files k @ [replicate (unat sz) 0]"
    unfolding opens(5) by (simp_all add: resources_def)
  then show ?thesis using opens by blast
qed

definition fresh_kernel :: "bool list \<Rightarrow> kernel" where
  "fresh_kernel fs = \<lparr>faults = fs, fd_limit = 8, fds = Map.empty, files = [], mappings = Map.empty,
     next_addr = 1, shm_names = [], heap_blocks = 0\<rparr>"

lemma fresh_kernel_wf [simp]: "kernel_wf (fresh_kernel fs)"
  by (simp add: kernel_wf_def fresh_kernel_def)

text \<open>Event operations on a closed descriptor fail.\<close>

lemma closed_events:
  assumes "fd_of k fd = None" and "faults k = []"
  shows "effect_eventfd_signal fd k = (- 1, k)" and "effect_eventfd_wait fd t k = (- 1, k)"
  using assms
  by (auto simp: effect_eventfd_signal_def effect_eventfd_wait_def sys_eventfd_write_def sys_eventfd_read_def
      sys_poll_def take_fault_def split: prod.splits)
lemma fresh_closed: "fd_of (fresh_kernel []) fd = None" "faults (fresh_kernel []) = []"
  by (simp_all add: fd_of_def fresh_kernel_def)
text \<open>The first file cannot be created and the size of the second cannot be set.\<close>

theorem shared_memory_create_no_leak_witness:
  "\<exists>k'. effect_shared_memory_create ''effect_shm'' 16 (fresh_kernel [True, False, True]) = (- 1, k') \<and>
    resources k' = resources (fresh_kernel [True, False, True])"
proof -
  let ?k = "fresh_kernel [True, False, True]"
  have m: "memfd_create_wrapper ''effect_shm'' MFD_CLOEXEC ?k = (- 1, fresh_kernel [False, True])"
    by (simp add: memfd_create_wrapper_def new_file_def new_fd_def take_fault_def fresh_kernel_def)
  have o: "\<exists>k'. effect_shared_memory_create ''effect_shm'' 16 ?k = (- 1, k')"
    unfolding effect_shared_memory_create_def m
    by (simp add: new_file_def new_fd_def take_fault_def lowest_fd_0 sys_shm_open_def
        sys_shm_unlink_def sys_ftruncate_def fresh_kernel_def)
  then show ?thesis
    using shared_memory_create_no_leak [OF fresh_kernel_wf] by fastforce
qed

text \<open>Event signals coalesce: after any positive number of signals one wait succeeds, clears
  the counter, and the next wait times out.\<close>

theorem eventfd_signals_coalesce:
  assumes "fd_of k fd = Some (EventFd 0)" and "faults k = []" and "0 < n" and "n \<le> 2 ^ 64 - 2"
  shows "\<exists>k1 k2. ((\<lambda>k. snd (effect_eventfd_signal fd k)) ^^ n) k = k1 \<and>
    effect_eventfd_wait fd t k1 = (0, k2) \<and> fd_of k2 fd = Some (EventFd 0) \<and>
    effect_eventfd_wait fd t k2 = (- 1, k2)"
proof -
  let ?sig = "\<lambda>k. snd (effect_eventfd_signal fd k)"
  have signalled: "faults ((?sig ^^ j) k) = [] \<and> fd_of ((?sig ^^ j) k) fd = Some (EventFd (of_nat j))"
    if "j \<le> n" for j
    using that
  proof (induction j)
    case (Suc j)
    then have IH: "faults ((?sig ^^ j) k) = []" "fd_of ((?sig ^^ j) k) fd = Some (EventFd (of_nat j))"
      by auto
    have "unat (of_nat j :: u64) < 2 ^ 64 - 2" using Suc.prems assms(4) by simp
    then have "?sig ((?sig ^^ j) k) = (?sig ^^ j) k\<lparr>fds := (fds ((?sig ^^ j) k))(nat fd \<mapsto> EventFd (of_nat j + 1))\<rparr>"
      using signal_event [OF IH(2,1)] by simp
    then show ?case
      using IH by (simp add: fd_of_set add.commute)
  qed (use assms in simp)
  define k1 where "k1 = (?sig ^^ n) k"
  have k1: "faults k1 = []" "fd_of k1 fd = Some (EventFd (of_nat n))"
    using signalled [of n] by (simp_all add: k1_def)
  have "unat (of_nat n :: u64) = n" using assms(4) by simp
  then have "(of_nat n :: u64) \<noteq> 0" using assms(3) by auto
  define k2 where "k2 = k1\<lparr>fds := (fds k1)(nat fd \<mapsto> EventFd 0)\<rparr>"
  have "effect_eventfd_wait fd t k1 = (0, k2)"
    using k1 \<open>of_nat n \<noteq> 0\<close> by (simp add: wait_event k2_def)
  moreover have k2: "fd_of k2 fd = Some (EventFd 0)" "faults k2 = []"
    using k1 by (simp_all add: k2_def fd_of_set)
  ultimately show ?thesis
    using wait_event [OF k2] unfolding k1_def by simp
qed

theorem eventfd_signals_coalesce_witness:
  "\<exists>k1 k2. ((\<lambda>k. snd (effect_eventfd_signal 3 k)) ^^ 2)
      ((fresh_kernel [])\<lparr>fds := [3 \<mapsto> EventFd 0]\<rparr>) = k1 \<and>
    effect_eventfd_wait 3 20 k1 = (0, k2) \<and> fd_of k2 3 = Some (EventFd 0) \<and>
    effect_eventfd_wait 3 20 k2 = (- 1, k2)"
  by (rule eventfd_signals_coalesce) (simp_all add: fd_of_def fresh_kernel_def)

end
