(* ===== verification/Fmq.thy ===== *)
theory Fmq
  imports RingBuffer SharedMemory
begin

text \<open>
  The message queue wrapper of \<open>common/src/effect_fmq.cpp\<close> and its interface
  \<open>common/include/effect_fmq.h\<close>. Two implementations are compiled from that file: the fallback
  over the ring buffer, and the one over Android's \<open>MessageQueue\<close>, a class of another repository,
  which is an argument here (\<open>mq_ops\<close>) with its documented behaviour as a named hypothesis
  (\<open>mq_contract\<close>). A handle is \<open>None\<close> for a null pointer, a data pointer likewise.
\<close>

section \<open>The interface\<close>

datatype EffectFmqType = EFFECT_FMQ_SYNCHRONIZED | EFFECT_FMQ_UNSYNCHRONIZED

record EffectFmqDescriptor =
  sharedMemoryFd :: int
  desc_size :: u64
  quantum :: u32
  desc_flags :: u32
  readPtr :: u64
  writePtr :: u64

text \<open>\<open>new\<close> without \<open>nothrow\<close> throws instead of returning a null pointer.\<close>

datatype cxx_exception = bad_alloc

text \<open>The functions of the header that a client links against, for handles of type \<open>'q option\<close>.\<close>

record 'q fmq_api =
  api_create :: "EffectFmqType \<Rightarrow> u64 \<Rightarrow> u64 \<Rightarrow> kernel \<Rightarrow> (cxx_exception + 'q option) \<times> kernel"
  api_write :: "'q option \<Rightarrow> bytes option \<Rightarrow> u64 \<Rightarrow> (u64 \<times> 'q option) option"
  api_read :: "'q option \<Rightarrow> bytes option \<Rightarrow> u64 \<Rightarrow> (u64 \<times> bytes option \<times> 'q option) option"
  api_available_to_read :: "'q option \<Rightarrow> u64"
  api_destroy :: "'q option \<Rightarrow> kernel \<Rightarrow> kernel"

section \<open>The fallback over the ring buffer\<close>

record EffectFmqContext =
  ringbuffer :: effect_ringbuffer_t
  buffer :: bytes
  ctx_capacity :: u64
  ctx_type :: EffectFmqType
  elementSize :: u64

type_synonym EffectFmqHandle = "EffectFmqContext option"

text \<open>The capacity reaches the ring buffer through a 32-bit parameter. The two null tests after
  the allocations cannot fire. The bytes of the new buffer are never read before they are written;
  they are zero here.\<close>

definition effect_fmq_create ::
  "EffectFmqType \<Rightarrow> u64 \<Rightarrow> u64 \<Rightarrow> kernel \<Rightarrow> (cxx_exception + EffectFmqHandle) \<times> kernel" where
  "effect_fmq_create kind capacity esize k =
     (let (ok, k1) = heap_alloc k in
      if \<not> ok then (Inl bad_alloc, k1)
      else
        let cap = capacity * esize; (ok', k2) = heap_alloc k1 in
        if \<not> ok' then (Inl bad_alloc, k2)
        else (Inr (Some \<lparr>ringbuffer = effect_ringbuffer_init 0 (ucast cap),
                buffer = replicate (unat cap) 0, ctx_capacity = cap, ctx_type = kind,
                elementSize = esize\<rparr>), k2))"

definition effect_fmq_open :: "EffectFmqDescriptor option \<Rightarrow> EffectFmqHandle" where
  "effect_fmq_open desc = None"

definition effect_fmq_get_descriptor ::
  "EffectFmqHandle \<Rightarrow> EffectFmqDescriptor option \<Rightarrow> int \<times> EffectFmqDescriptor option" where
  "effect_fmq_get_descriptor handle desc = (- 1, desc)"

definition effect_fmq_write ::
  "EffectFmqHandle \<Rightarrow> bytes option \<Rightarrow> u64 \<Rightarrow> (u64 \<times> EffectFmqHandle) option" where
  "effect_fmq_write handle data count =
     (case (handle, data) of
        (Some ctx, Some src) \<Rightarrow>
          if count = 0 then Some (0, handle)
          else do {
            (n, rb', mem') \<leftarrow> effect_ringbuffer_write (ringbuffer ctx) (buffer ctx) src (ucast count);
            Some (ucast n, Some (ctx\<lparr>ringbuffer := rb', buffer := mem'\<rparr>)) }
      | _ \<Rightarrow> Some (0, handle))"

definition effect_fmq_write_blocking ::
  "EffectFmqHandle \<Rightarrow> bytes option \<Rightarrow> u64 \<Rightarrow> int \<Rightarrow> (int \<times> EffectFmqHandle) option" where
  "effect_fmq_write_blocking handle data count timeoutMs = do {
     (n, handle') \<leftarrow> effect_fmq_write handle data count;
     Some (sint n, handle') }"

definition effect_fmq_read ::
  "EffectFmqHandle \<Rightarrow> bytes option \<Rightarrow> u64 \<Rightarrow> (u64 \<times> bytes option \<times> EffectFmqHandle) option" where
  "effect_fmq_read handle data count =
     (case (handle, data) of
        (Some ctx, Some dst) \<Rightarrow>
          if count = 0 then Some (0, data, handle)
          else do {
            (n, dst', rb') \<leftarrow> effect_ringbuffer_read (ringbuffer ctx) (buffer ctx) dst (ucast count);
            Some (ucast n, Some dst', Some (ctx\<lparr>ringbuffer := rb'\<rparr>)) }
      | _ \<Rightarrow> Some (0, data, handle))"

definition effect_fmq_read_blocking ::
  "EffectFmqHandle \<Rightarrow> bytes option \<Rightarrow> u64 \<Rightarrow> int \<Rightarrow> (int \<times> bytes option \<times> EffectFmqHandle) option" where
  "effect_fmq_read_blocking handle data count timeoutMs = do {
     (n, data', handle') \<leftarrow> effect_fmq_read handle data count;
     Some (sint n, data', handle') }"

definition effect_fmq_available_to_write :: "EffectFmqHandle \<Rightarrow> u64" where
  "effect_fmq_available_to_write handle =
     (case handle of
        None \<Rightarrow> 0
      | Some ctx \<Rightarrow> ucast (effect_ringbuffer_get_write_available (ringbuffer ctx)))"

definition effect_fmq_available_to_read :: "EffectFmqHandle \<Rightarrow> u64" where
  "effect_fmq_available_to_read handle =
     (case handle of
        None \<Rightarrow> 0
      | Some ctx \<Rightarrow> ucast (effect_ringbuffer_get_read_available (ringbuffer ctx)))"

text \<open>A pointer to the event flag word; null is \<open>None\<close>.\<close>

definition effect_fmq_get_event_flag_word :: "EffectFmqHandle \<Rightarrow> u32 option" where
  "effect_fmq_get_event_flag_word handle = None"

definition effect_fmq_destroy :: "EffectFmqHandle \<Rightarrow> kernel \<Rightarrow> kernel" where
  "effect_fmq_destroy handle k =
     (case handle of None \<Rightarrow> k | Some ctx \<Rightarrow> heap_free (heap_free k))"

definition fallback_api :: "EffectFmqContext fmq_api" where
  "fallback_api = \<lparr>api_create = effect_fmq_create, api_write = effect_fmq_write,
     api_read = effect_fmq_read, api_available_to_read = effect_fmq_available_to_read,
     api_destroy = effect_fmq_destroy\<rparr>"

section \<open>The contract a client relies on\<close>

text \<open>The queue behind a non-null handle, in the shape of \<open>byte_queue\<close>.\<close>

definition fmq_put :: "'q fmq_api \<Rightarrow> 'q \<Rightarrow> bytes \<Rightarrow> u64 \<Rightarrow> (u64 \<times> 'q) option" where
  "fmq_put api q src n = do { (k, h) \<leftarrow> api_write api (Some q) (Some src) n; q' \<leftarrow> h; Some (k, q') }"

definition fmq_get :: "'q fmq_api \<Rightarrow> 'q \<Rightarrow> bytes \<Rightarrow> u64 \<Rightarrow> (u64 \<times> bytes \<times> 'q) option" where
  "fmq_get api q dst n = do {
     (k, d, h) \<leftarrow> api_read api (Some q) (Some dst) n; d' \<leftarrow> d; q' \<leftarrow> h; Some (k, d', q') }"

text \<open>
  What \<open>client/src/effect_client.c\<close> and \<open>effectd/src/effectd_session.c\<close> rely on: the queue laws,
  an exact count of readable bytes, and that creating and destroying a queue balance on the heap.
\<close>

locale fmq_backend =
  byte_queue inv contents limit "fmq_put api" "fmq_get api"
  for inv :: "'q \<Rightarrow> bool" and contents :: "'q \<Rightarrow> bytes" and limit :: "'q \<Rightarrow> nat" and api :: "'q fmq_api" +
  fixes blocks :: nat
  assumes readable: "inv q \<Longrightarrow> unat (api_available_to_read api (Some q)) = length (contents q)"
    and created: "api_create api kind cap esz k = (Inr (Some q), k') \<Longrightarrow>
      unat cap * unat esz < 2 ^ 32 \<Longrightarrow> unat cap * unat esz dvd 2 ^ 64 \<Longrightarrow>
      inv q \<and> contents q = [] \<and> limit q = unat cap * unat esz"
    and create_balance: "api_create api kind cap esz k = (Inr h, k') \<Longrightarrow>
      \<exists>fs. k' = k\<lparr>faults := fs, heap_blocks := heap_blocks k + (if h = None then 0 else blocks)\<rparr>"
    and destroy_balance: "pred_option inv h \<Longrightarrow> api_destroy api h k =
      k\<lparr>heap_blocks := heap_blocks k - (if h = None then 0 else blocks)\<rparr>"
begin

lemma api_write_SomeE:
  assumes "inv q" and "unat n \<le> length src"
  obtains m q' where "api_write api (Some q) (Some src) n = Some (m, Some q')"
    and "inv q'" and "limit q' = limit q" and "m \<le> n" and "contents q' = contents q @ take (unat m) src"
    and "length (contents q) + unat n \<le> limit q \<Longrightarrow> m = n"
proof -
  obtain m q' where p: "fmq_put api q src n = Some (m, q')" and
    r: "inv q'" "limit q' = limit q" "m \<le> n" "contents q' = contents q @ take (unat m) src"
      "length (contents q) + unat n \<le> limit q \<Longrightarrow> m = n"
    using write_law [OF assms] by blast
  have "api_write api (Some q) (Some src) n = Some (m, Some q')"
    using p by (auto simp: fmq_put_def split: Option.bind_splits)
  then show thesis using that r by blast
qed

lemma api_read_SomeE:
  assumes "inv q" and "unat n \<le> length dst"
  obtains m q' where
    "api_read api (Some q) (Some dst) n = Some (m, Some (blit dst 0 (take (unat m) (contents q))), Some q')"
    and "inv q'" and "limit q' = limit q" and "m \<le> n" and "unat m \<le> length (contents q)"
    and "contents q' = drop (unat m) (contents q)"
    and "unat n \<le> length (contents q) \<Longrightarrow> m = n"
proof -
  obtain m q' where p: "fmq_get api q dst n = Some (m, blit dst 0 (take (unat m) (contents q)), q')" and
    r: "inv q'" "limit q' = limit q" "m \<le> n" "unat m \<le> length (contents q)"
      "contents q' = drop (unat m) (contents q)" "unat n \<le> length (contents q) \<Longrightarrow> m = n"
    using read_law [OF assms] by blast
  have "api_read api (Some q) (Some dst) n =
      Some (m, Some (blit dst 0 (take (unat m) (contents q))), Some q')"
    using p by (auto simp: fmq_get_def split: Option.bind_splits)
  then show thesis using that r by blast
qed

end

section \<open>The fallback keeps the contract\<close>

definition fmq_inv :: "EffectFmqContext \<Rightarrow> bool" where
  "fmq_inv ctx \<longleftrightarrow> ring_inv (ringbuffer ctx, buffer ctx)"

definition fmq_contents :: "EffectFmqContext \<Rightarrow> bytes" where
  "fmq_contents ctx = ring_contents (ringbuffer ctx, buffer ctx)"

definition fmq_limit :: "EffectFmqContext \<Rightarrow> nat" where
  "fmq_limit ctx = ring_limit (ringbuffer ctx, buffer ctx)"

lemmas fmq_abs_defs = fmq_inv_def fmq_contents_def fmq_limit_def

text \<open>A count is truncated to 32 bits on its way to the ring buffer; what a full count would have
  fitted or delivered is below \<open>2 ^ 32\<close>, so the laws survive.\<close>

lemma truncated_le: "unat (ucast (n :: u64) :: u32) \<le> unat n"
  by (simp add: unat_u64_to_u32)

lemma ring_put_ctx:
  "n \<noteq> 0 \<Longrightarrow> fmq_put fallback_api ctx src n = do {
     (m, q') \<leftarrow> ring_write (ringbuffer ctx, buffer ctx) src (ucast n);
     Some (ucast m, ctx\<lparr>ringbuffer := fst q', buffer := snd q'\<rparr>) }"
  by (auto simp: fmq_put_def fallback_api_def effect_fmq_write_def ring_write_def split: Option.bind_split)

lemma ring_get_ctx:
  "n \<noteq> 0 \<Longrightarrow> fmq_get fallback_api ctx dst n = do {
     (m, d, q') \<leftarrow> ring_read (ringbuffer ctx, buffer ctx) dst (ucast n);
     Some (ucast m, d, ctx\<lparr>ringbuffer := fst q'\<rparr>) }"
  by (auto simp: fmq_get_def fallback_api_def effect_fmq_read_def ring_read_def split: Option.bind_split)

lemma read_keeps_memory: "ring_read (rb, mem) dst n = Some (m, d, q') \<Longrightarrow> snd q' = mem"
  by (auto simp: ring_read_def split: Option.bind_splits)

lemma fallback_put_law:
  assumes inv: "fmq_inv ctx" and src: "unat n \<le> length src"
  shows "\<exists>m ctx'. fmq_put fallback_api ctx src n = Some (m, ctx') \<and> fmq_inv ctx' \<and>
    fmq_limit ctx' = fmq_limit ctx \<and> m \<le> n \<and> fmq_contents ctx' = fmq_contents ctx @ take (unat m) src \<and>
    (length (fmq_contents ctx) + unat n \<le> fmq_limit ctx \<longrightarrow> m = n)"
proof (cases "n = 0")
  case True
  then show ?thesis
    using inv by (simp add: fmq_put_def fallback_api_def effect_fmq_write_def)
next
  case False
  let ?q = "(ringbuffer ctx, buffer ctx)" and ?n = "ucast n :: u32"
  have len: "unat ?n \<le> length src" using truncated_le [of n] src by linarith
  have q: "ring_inv ?q" using inv by (simp add: fmq_inv_def)
  obtain m q' where w: "ring_write ?q src ?n = Some (m, q')" "ring_inv q'" "ring_limit q' = ring_limit ?q"
      "m \<le> ?n" "ring_contents q' = ring_contents ?q @ take (unat m) src"
    and full: "length (ring_contents ?q) + unat ?n \<le> ring_limit ?q \<Longrightarrow> m = ?n"
    using ring.write_law [OF q len] by blast
  have "unat m \<le> unat n"
    using w(4) truncated_le [of n] by (simp add: word_le_nat_alt)
  moreover have "(ucast m :: u64) = n" if "length (fmq_contents ctx) + unat n \<le> fmq_limit ctx"
  proof -
    have "unat n < 4294967296"
      using that le_less_trans [OF _ unat_u32_less, of "unat n" "rb_capacity (ringbuffer ctx)"]
      by (simp add: fmq_abs_defs ring_limit_def)
    moreover have "m = ?n"
      using full that truncated_le [of n] by (simp add: fmq_abs_defs)
    ultimately show ?thesis by (intro word_unat_eq_iff [THEN iffD2]) simp
  qed
  ultimately show ?thesis
    using w False by (simp add: ring_put_ctx fmq_abs_defs word_le_nat_alt)
qed

lemma fallback_get_law:
  assumes inv: "fmq_inv ctx" and dst: "unat n \<le> length dst"
  shows "\<exists>m ctx'. fmq_get fallback_api ctx dst n = Some (m, blit dst 0 (take (unat m) (fmq_contents ctx)), ctx') \<and>
    fmq_inv ctx' \<and> fmq_limit ctx' = fmq_limit ctx \<and> m \<le> n \<and> unat m \<le> length (fmq_contents ctx) \<and>
    fmq_contents ctx' = drop (unat m) (fmq_contents ctx) \<and>
    (unat n \<le> length (fmq_contents ctx) \<longrightarrow> m = n)"
proof (cases "n = 0")
  case True
  then show ?thesis
    using inv by (simp add: fmq_get_def fallback_api_def effect_fmq_read_def)
next
  case False
  let ?q = "(ringbuffer ctx, buffer ctx)" and ?n = "ucast n :: u32"
  have len: "unat ?n \<le> length dst" using truncated_le [of n] dst by linarith
  have q: "ring_inv ?q" using inv by (simp add: fmq_inv_def)
  obtain m q' where r: "ring_read ?q dst ?n = Some (m, blit dst 0 (take (unat m) (ring_contents ?q)), q')"
      "ring_inv q'" "ring_limit q' = ring_limit ?q" "m \<le> ?n" "unat m \<le> length (ring_contents ?q)"
      "ring_contents q' = drop (unat m) (ring_contents ?q)"
    and full: "unat ?n \<le> length (ring_contents ?q) \<Longrightarrow> m = ?n"
    using ring.read_law [OF q len] by blast
  have mem: "q' = (fst q', buffer ctx)" using read_keeps_memory [OF r(1)] by (cases q') simp
  have "unat m \<le> unat n"
    using r(4) truncated_le [of n] by (simp add: word_le_nat_alt)
  moreover have "(ucast m :: u64) = n" if "unat n \<le> length (fmq_contents ctx)"
  proof -
    have "length (fmq_contents ctx) < 4294967296"
      using ring.contents_bound [OF q] unat_u32_less [of "rb_capacity (ringbuffer ctx)"]
      by (simp add: fmq_contents_def ring_limit_def del: unat_u32_less)
    then have "unat n < 4294967296" using that by simp
    moreover have "m = ?n"
      using full that truncated_le [of n] by (simp add: fmq_abs_defs)
    ultimately show ?thesis by (intro word_unat_eq_iff [THEN iffD2]) simp
  qed
  ultimately show ?thesis
    using r(1-3,5,6) mem False by (simp add: ring_get_ctx fmq_abs_defs word_le_nat_alt)
qed

interpretation fallback: fmq_backend fmq_inv fmq_contents fmq_limit fallback_api 2
proof
  fix q
  assume "fmq_inv q"
  then show "length (fmq_contents q) \<le> fmq_limit q"
    using ring.contents_bound by (simp add: fmq_abs_defs)
next
  fix q and sz :: u64 and src :: bytes
  assume "fmq_inv q" and "unat sz \<le> length src"
  then show "\<exists>n q'. fmq_put fallback_api q src sz = Some (n, q') \<and> fmq_inv q' \<and> fmq_limit q' = fmq_limit q \<and>
      n \<le> sz \<and> fmq_contents q' = fmq_contents q @ take (unat n) src \<and>
      (length (fmq_contents q) + unat sz \<le> fmq_limit q \<longrightarrow> n = sz)"
    by (rule fallback_put_law)
next
  fix q and sz :: u64 and dst :: bytes
  assume "fmq_inv q" and "unat sz \<le> length dst"
  then show "\<exists>n q'. fmq_get fallback_api q dst sz = Some (n, blit dst 0 (take (unat n) (fmq_contents q)), q') \<and>
      fmq_inv q' \<and> fmq_limit q' = fmq_limit q \<and> n \<le> sz \<and> unat n \<le> length (fmq_contents q) \<and>
      fmq_contents q' = drop (unat n) (fmq_contents q) \<and> (unat sz \<le> length (fmq_contents q) \<longrightarrow> n = sz)"
    by (rule fallback_get_law)
next
  fix q
  assume "fmq_inv q"
  then show "unat (api_available_to_read fallback_api (Some q)) = length (fmq_contents q)"
    using read_available [of "ringbuffer q" "buffer q"]
    by (simp add: fmq_abs_defs ring_defs fallback_api_def effect_fmq_available_to_read_def)
next
  fix kind cap esz k q k'
  assume c: "api_create fallback_api kind cap esz k = (Inr (Some q), k')"
    and small: "unat cap * unat esz < 2 ^ 32" and pow: "unat cap * unat esz dvd 2 ^ 64"
  have cap: "unat (cap * esz) = unat cap * unat esz" using small by (simp add: unat_word_ariths)
  have q: "q = \<lparr>ringbuffer = effect_ringbuffer_init 0 (ucast (cap * esz)),
      buffer = replicate (unat (cap * esz)) 0, ctx_capacity = cap * esz, ctx_type = kind, elementSize = esz\<rparr>"
    using c by (auto simp: fallback_api_def effect_fmq_create_def Let_def split: prod.splits if_splits)
  have "unat (ucast (cap * esz) :: u32) = unat cap * unat esz" using small cap by simp
  then show "fmq_inv q \<and> fmq_contents q = [] \<and> fmq_limit q = unat cap * unat esz"
    using pow cap by (simp add: q fmq_abs_defs ring_init_inv)
next
  fix kind cap esz k h k'
  assume c: "api_create fallback_api kind cap esz k = (Inr h, k')"
  obtain ok1 k1 ok2 k2 where a: "heap_alloc k = (ok1, k1)" "heap_alloc k1 = (ok2, k2)" by fastforce
  have ok: "ok1" "ok2" "k' = k2" "h \<noteq> None"
    using c a by (auto simp: fallback_api_def effect_fmq_create_def Let_def split: if_splits)
  obtain fs1 where k1: "k1 = k\<lparr>faults := fs1, heap_blocks := Suc (heap_blocks k)\<rparr>"
    using a(1) ok by (auto elim: heap_alloc_cases)
  obtain fs2 where "k2 = k1\<lparr>faults := fs2, heap_blocks := Suc (heap_blocks k1)\<rparr>"
    using a(2) ok by (auto elim: heap_alloc_cases)
  then show "\<exists>fs. k' = k\<lparr>faults := fs, heap_blocks := heap_blocks k + (if h = None then 0 else 2)\<rparr>"
    using k1 ok by auto
next
  fix h k
  assume "pred_option fmq_inv h"
  show "api_destroy fallback_api h k = k\<lparr>heap_blocks := heap_blocks k - (if h = None then 0 else 2)\<rparr>"
    by (auto simp: fallback_api_def effect_fmq_destroy_def heap_free_def split: option.splits)
qed

section \<open>The implementation over Android's message queue\<close>

text \<open>The operations of \<open>MessageQueue<uint8_t, kSynchronizedReadWrite>\<close> that the wrapper calls:
  the constructor under \<open>new(std::nothrow)\<close>, \<open>isValid\<close>, \<open>write\<close> of a block, \<open>read\<close> of a number of
  bytes (\<open>None\<close> for \<open>false\<close>), the two availability queries and the destructor.\<close>

record 'q mq_ops =
  mq_new :: "u64 \<Rightarrow> kernel \<Rightarrow> 'q option \<times> kernel"
  mq_isValid :: "'q \<Rightarrow> bool"
  mq_write :: "'q \<Rightarrow> bytes \<Rightarrow> bool \<times> 'q"
  mq_read :: "'q \<Rightarrow> u64 \<Rightarrow> (bytes \<times> 'q) option"
  mq_availableToWrite :: "'q \<Rightarrow> u64"
  mq_availableToRead :: "'q \<Rightarrow> u64"
  mq_delete :: "'q \<Rightarrow> kernel \<Rightarrow> kernel"

record 'q AndroidFmqContext =
  queue :: "'q option"
  a_type :: EffectFmqType
  a_elementSize :: u64

type_synonym 'q AndroidFmqHandle = "'q AndroidFmqContext option"

definition android_fmq_create ::
  "'q mq_ops \<Rightarrow> EffectFmqType \<Rightarrow> u64 \<Rightarrow> u64 \<Rightarrow> kernel \<Rightarrow> (cxx_exception + 'q AndroidFmqHandle) \<times> kernel"
where
  "android_fmq_create M kind capacity esize k =
     (if kind \<noteq> EFFECT_FMQ_SYNCHRONIZED then (Inr None, k)
      else let (ok, k1) = heap_alloc k in
        if \<not> ok then (Inr None, k1)
        else let (q, k2) = mq_new M (capacity * esize) k1 in
          (case q of
             None \<Rightarrow> (Inr None, heap_free k2)
           | Some mq \<Rightarrow>
               if \<not> mq_isValid M mq then (Inr None, heap_free (mq_delete M mq k2))
               else (Inr (Some \<lparr>queue = Some mq, a_type = kind, a_elementSize = esize\<rparr>), k2)))"

definition android_fmq_open :: "EffectFmqDescriptor option \<Rightarrow> 'q AndroidFmqHandle" where
  "android_fmq_open desc = (case desc of None \<Rightarrow> None | Some d \<Rightarrow> None)"

definition zero_descriptor :: EffectFmqDescriptor where
  "zero_descriptor = \<lparr>sharedMemoryFd = 0, desc_size = 0, quantum = 0, desc_flags = 0, readPtr = 0, writePtr = 0\<rparr>"

definition android_fmq_get_descriptor ::
  "'q AndroidFmqHandle \<Rightarrow> EffectFmqDescriptor option \<Rightarrow> int \<times> EffectFmqDescriptor option" where
  "android_fmq_get_descriptor handle desc =
     (case (handle, desc) of
        (Some ctx, Some d) \<Rightarrow> if queue ctx = None then (- 1, desc) else (- 1, Some zero_descriptor)
      | _ \<Rightarrow> (- 1, desc))"

definition android_fmq_write ::
  "'q mq_ops \<Rightarrow> 'q AndroidFmqHandle \<Rightarrow> bytes option \<Rightarrow> u64 \<Rightarrow> (u64 \<times> 'q AndroidFmqHandle) option" where
  "android_fmq_write M handle data count =
     (case (handle, data) of
        (Some ctx, Some src) \<Rightarrow>
          if count = 0 then Some (0, handle)
          else (case queue ctx of
             None \<Rightarrow> Some (0, handle)
           | Some q \<Rightarrow> do {
               xs \<leftarrow> mem_load src 0 (unat count);
               let (ok, q') = mq_write M q xs;
               Some (if ok then count else 0, Some (ctx\<lparr>queue := Some q'\<rparr>)) })
      | _ \<Rightarrow> Some (0, handle))"

definition android_fmq_write_blocking ::
  "'q mq_ops \<Rightarrow> 'q AndroidFmqHandle \<Rightarrow> bytes option \<Rightarrow> u64 \<Rightarrow> int \<Rightarrow> (int \<times> 'q AndroidFmqHandle) option"
where
  "android_fmq_write_blocking M handle data count timeoutMs =
     (case (handle, data) of
        (Some ctx, Some src) \<Rightarrow>
          if count = 0 then Some (- 1, handle)
          else (case queue ctx of
             None \<Rightarrow> Some (- 1, handle)
           | Some q \<Rightarrow> do {
               xs \<leftarrow> mem_load src 0 (unat count);
               let (ok, q') = mq_write M q xs;
               Some (if ok then sint count else - 1, Some (ctx\<lparr>queue := Some q'\<rparr>)) })
      | _ \<Rightarrow> Some (- 1, handle))"

definition android_fmq_read ::
  "'q mq_ops \<Rightarrow> 'q AndroidFmqHandle \<Rightarrow> bytes option \<Rightarrow> u64 \<Rightarrow>
   (u64 \<times> bytes option \<times> 'q AndroidFmqHandle) option" where
  "android_fmq_read M handle data count =
     (case (handle, data) of
        (Some ctx, Some dst) \<Rightarrow>
          if count = 0 then Some (0, data, handle)
          else (case queue ctx of
             None \<Rightarrow> Some (0, data, handle)
           | Some q \<Rightarrow>
               (case mq_read M q count of
                  None \<Rightarrow> Some (0, data, handle)
                | Some (xs, q') \<Rightarrow> do {
                    dst' \<leftarrow> mem_store dst 0 xs;
                    Some (count, Some dst', Some (ctx\<lparr>queue := Some q'\<rparr>)) }))
      | _ \<Rightarrow> Some (0, data, handle))"

definition android_fmq_read_blocking ::
  "'q mq_ops \<Rightarrow> 'q AndroidFmqHandle \<Rightarrow> bytes option \<Rightarrow> u64 \<Rightarrow> int \<Rightarrow>
   (int \<times> bytes option \<times> 'q AndroidFmqHandle) option" where
  "android_fmq_read_blocking M handle data count timeoutMs =
     (case (handle, data) of
        (Some ctx, Some dst) \<Rightarrow>
          if count = 0 then Some (- 1, data, handle)
          else (case queue ctx of
             None \<Rightarrow> Some (- 1, data, handle)
           | Some q \<Rightarrow>
               (case mq_read M q count of
                  None \<Rightarrow> Some (- 1, data, handle)
                | Some (xs, q') \<Rightarrow> do {
                    dst' \<leftarrow> mem_store dst 0 xs;
                    Some (sint count, Some dst', Some (ctx\<lparr>queue := Some q'\<rparr>)) }))
      | _ \<Rightarrow> Some (- 1, data, handle))"

definition android_fmq_available_to_write :: "'q mq_ops \<Rightarrow> 'q AndroidFmqHandle \<Rightarrow> u64" where
  "android_fmq_available_to_write M handle =
     (case handle of
        None \<Rightarrow> 0
      | Some ctx \<Rightarrow> (case queue ctx of None \<Rightarrow> 0 | Some q \<Rightarrow> mq_availableToWrite M q))"

definition android_fmq_available_to_read :: "'q mq_ops \<Rightarrow> 'q AndroidFmqHandle \<Rightarrow> u64" where
  "android_fmq_available_to_read M handle =
     (case handle of
        None \<Rightarrow> 0
      | Some ctx \<Rightarrow> (case queue ctx of None \<Rightarrow> 0 | Some q \<Rightarrow> mq_availableToRead M q))"

definition android_fmq_get_event_flag_word :: "'q AndroidFmqHandle \<Rightarrow> u32 option" where
  "android_fmq_get_event_flag_word handle = None"

definition android_fmq_destroy :: "'q mq_ops \<Rightarrow> 'q AndroidFmqHandle \<Rightarrow> kernel \<Rightarrow> kernel" where
  "android_fmq_destroy M handle k =
     (case handle of
        None \<Rightarrow> k
      | Some ctx \<Rightarrow> heap_free (case queue ctx of None \<Rightarrow> k | Some q \<Rightarrow> mq_delete M q k))"

definition android_api :: "'q mq_ops \<Rightarrow> 'q AndroidFmqContext fmq_api" where
  "android_api M = \<lparr>api_create = android_fmq_create M, api_write = android_fmq_write M,
     api_read = android_fmq_read M, api_available_to_read = android_fmq_available_to_read M,
     api_destroy = android_fmq_destroy M\<rparr>"

text \<open>
  The documented behaviour of a synchronized message queue of bytes: a write of a block succeeds
  completely or, when there is no room, fails and changes nothing; a read of \<open>n\<close> bytes succeeds
  completely or, when fewer are queued, fails; the queue is first-in first-out; the availability
  query is exact; a queue constructed for a number of bytes is empty and holds that many; its
  construction and destruction balance on \<open>b\<close> heap blocks.
\<close>

definition mq_contract ::
  "'q mq_ops \<Rightarrow> ('q \<Rightarrow> bool) \<Rightarrow> ('q \<Rightarrow> bytes) \<Rightarrow> ('q \<Rightarrow> nat) \<Rightarrow> nat \<Rightarrow> bool" where
  "mq_contract M good contents limit b \<longleftrightarrow>
     (\<forall>q. good q \<longrightarrow> length (contents q) \<le> limit q \<and> limit q < 2 ^ 64 \<and>
        unat (mq_availableToRead M q) = length (contents q)) \<and>
     (\<forall>q xs. good q \<longrightarrow>
        (if length (contents q) + length xs \<le> limit q
         then \<exists>q'. mq_write M q xs = (True, q') \<and> good q' \<and> limit q' = limit q \<and>
           contents q' = contents q @ xs
         else mq_write M q xs = (False, q))) \<and>
     (\<forall>q n. good q \<longrightarrow>
        (if unat n \<le> length (contents q)
         then \<exists>q'. mq_read M q n = Some (take (unat n) (contents q), q') \<and> good q' \<and> limit q' = limit q \<and>
           contents q' = drop (unat n) (contents q)
         else mq_read M q n = None)) \<and>
     (\<forall>sz k q k'. mq_new M sz k = (Some q, k') \<longrightarrow> mq_isValid M q \<longrightarrow>
        good q \<and> contents q = [] \<and> limit q = unat sz) \<and>
     (\<forall>sz k r k'. mq_new M sz k = (r, k') \<longrightarrow>
        (\<exists>fs. k' = k\<lparr>faults := fs, heap_blocks := heap_blocks k + (if r = None then 0 else b)\<rparr>)) \<and>
     (\<forall>q k. mq_delete M q k = k\<lparr>heap_blocks := heap_blocks k - b\<rparr>)"

lemma mq_contractD:
  assumes "mq_contract M good contents limit b"
  shows "good q \<Longrightarrow> length (contents q) \<le> limit q"
    and "good q \<Longrightarrow> unat (mq_availableToRead M q) = length (contents q)"
    and "good q \<Longrightarrow> length (contents q) + length xs \<le> limit q \<Longrightarrow>
      \<exists>q'. mq_write M q xs = (True, q') \<and> good q' \<and> limit q' = limit q \<and> contents q' = contents q @ xs"
    and "good q \<Longrightarrow> \<not> length (contents q) + length xs \<le> limit q \<Longrightarrow> mq_write M q xs = (False, q)"
    and "good q \<Longrightarrow> unat n \<le> length (contents q) \<Longrightarrow>
      \<exists>q'. mq_read M q n = Some (take (unat n) (contents q), q') \<and> good q' \<and> limit q' = limit q \<and>
        contents q' = drop (unat n) (contents q)"
    and "good q \<Longrightarrow> \<not> unat n \<le> length (contents q) \<Longrightarrow> mq_read M q n = None"
    and "mq_new M sz k = (Some q, k') \<Longrightarrow> mq_isValid M q \<Longrightarrow>
      good q \<and> contents q = [] \<and> limit q = unat sz"
    and "mq_new M sz k = (r, k') \<Longrightarrow>
      \<exists>fs. k' = k\<lparr>faults := fs, heap_blocks := heap_blocks k + (if r = None then 0 else b)\<rparr>"
    and "mq_delete M q k = k\<lparr>heap_blocks := heap_blocks k - b\<rparr>"
  using assms unfolding mq_contract_def by (blast | metis)+

definition android_inv :: "('q \<Rightarrow> bool) \<Rightarrow> 'q AndroidFmqContext \<Rightarrow> bool" where
  "android_inv good ctx \<longleftrightarrow> (case queue ctx of None \<Rightarrow> False | Some q \<Rightarrow> good q)"

definition android_contents :: "('q \<Rightarrow> bytes) \<Rightarrow> 'q AndroidFmqContext \<Rightarrow> bytes" where
  "android_contents contents ctx = (case queue ctx of None \<Rightarrow> [] | Some q \<Rightarrow> contents q)"

definition android_limit :: "('q \<Rightarrow> nat) \<Rightarrow> 'q AndroidFmqContext \<Rightarrow> nat" where
  "android_limit limit ctx = (case queue ctx of None \<Rightarrow> 0 | Some q \<Rightarrow> limit q)"

lemmas android_abs_defs = android_inv_def android_contents_def android_limit_def

text \<open>On a good handle the wrapper moves everything or nothing.\<close>

lemma android_put:
  assumes M: "mq_contract M good contents limit b" and good: "android_inv good ctx"
    and src: "unat n \<le> length src"
  shows "\<exists>ctx'. fmq_put (android_api M) ctx src n =
      Some (if length (android_contents contents ctx) + unat n \<le> android_limit limit ctx then n else 0, ctx') \<and>
    android_inv good ctx' \<and> android_limit limit ctx' = android_limit limit ctx \<and>
    android_contents contents ctx' = android_contents contents ctx @
      (if length (android_contents contents ctx) + unat n \<le> android_limit limit ctx then take (unat n) src else [])"
proof (cases "n = 0")
  case True
  then show ?thesis
    using good by (simp add: fmq_put_def android_api_def android_fmq_write_def)
next
  case False
  obtain q where q: "queue ctx = Some q" "good q"
    using good by (auto simp: android_inv_def split: option.splits)
  have len: "length (take (unat n) src) = unat n" using src by simp
  show ?thesis
  proof (cases "length (contents q) + unat n \<le> limit q")
    case True
    then obtain q' where "mq_write M q (take (unat n) src) = (True, q')" "good q'" "limit q' = limit q"
      "contents q' = contents q @ take (unat n) src"
      using mq_contractD(3) [OF M q(2), of "take (unat n) src"] len by auto
    then show ?thesis
      using False True q src
      by (simp add: fmq_put_def android_api_def android_fmq_write_def mem_simps android_abs_defs)
  next
    case nofit: False
    then have "mq_write M q (take (unat n) src) = (False, q)"
      using mq_contractD(4) [OF M q(2), of "take (unat n) src"] len by simp
    then show ?thesis
      using False nofit q src
      by (simp add: fmq_put_def android_api_def android_fmq_write_def mem_simps android_abs_defs)
  qed
qed

lemma android_get:
  assumes M: "mq_contract M good contents limit b" and good: "android_inv good ctx"
    and dst: "unat n \<le> length dst"
  shows "\<exists>m ctx'. fmq_get (android_api M) ctx dst n =
      Some (m, blit dst 0 (take (unat m) (android_contents contents ctx)), ctx') \<and>
    m = (if unat n \<le> length (android_contents contents ctx) then n else 0) \<and>
    android_inv good ctx' \<and> android_limit limit ctx' = android_limit limit ctx \<and>
    android_contents contents ctx' = drop (unat m) (android_contents contents ctx)"
proof (cases "n = 0")
  case True
  then show ?thesis
    using good by (simp add: fmq_get_def android_api_def android_fmq_read_def)
next
  case False
  obtain q where q: "queue ctx = Some q" "good q"
    using good by (auto simp: android_inv_def split: option.splits)
  show ?thesis
  proof (cases "unat n \<le> length (contents q)")
    case True
    then obtain q' where "mq_read M q n = Some (take (unat n) (contents q), q')" "good q'" "limit q' = limit q"
      "contents q' = drop (unat n) (contents q)"
      using mq_contractD(5) [OF M q(2)] by blast
    then show ?thesis
      using False True q dst
      by (simp add: fmq_get_def android_api_def android_fmq_read_def mem_simps android_abs_defs)
  next
    case few: False
    then have "mq_read M q n = None" by (rule mq_contractD(6) [OF M q(2)])
    then show ?thesis
      using False few q
      by (simp add: fmq_get_def android_api_def android_fmq_read_def android_abs_defs)
  qed
qed

text \<open>Creation and destruction of a handle balance on one block more than the queue itself.\<close>

lemma android_create_cases:
  assumes M: "mq_contract M good contents limit b"
    and c: "android_fmq_create M kind cap esz k = (r, k')"
  obtains (null) fs where "r = Inr None" and "k' = k\<lparr>faults := fs\<rparr>"
    | (made) fs q where "r = Inr (Some \<lparr>queue = Some q, a_type = kind, a_elementSize = esz\<rparr>)"
        and "kind = EFFECT_FMQ_SYNCHRONIZED" and "good q" and "contents q = []" and "limit q = unat (cap * esz)"
        and "k' = k\<lparr>faults := fs, heap_blocks := heap_blocks k + Suc b\<rparr>"
proof (cases "kind = EFFECT_FMQ_SYNCHRONIZED")
  case False
  then show thesis using c by (intro null [of "faults k"]) (auto simp: android_fmq_create_def)
next
  case sync: True
  obtain ok k1 where a: "heap_alloc k = (ok, k1)" by fastforce
  then show thesis
  proof (cases rule: heap_alloc_cases)
    case (fails fs)
    then show thesis using c a sync by (intro null [of fs]) (auto simp: android_fmq_create_def)
  next
    case (allocates fs)
    obtain q k2 where n: "mq_new M (cap * esz) k1 = (q, k2)" by fastforce
    obtain fs2 where k2: "k2 = k1\<lparr>faults := fs2, heap_blocks := heap_blocks k1 + (if q = None then 0 else b)\<rparr>"
      using mq_contractD(8) [OF M n] by blast
    show thesis
    proof (cases "\<exists>mq. q = Some mq \<and> mq_isValid M mq")
      case True
      then obtain mq where q: "q = Some mq" "mq_isValid M mq" by blast
      have "good mq \<and> contents mq = [] \<and> limit mq = unat (cap * esz)"
        using mq_contractD(7) [OF M n [unfolded q(1)] q(2)] .
      then show thesis
        using c a sync allocates n k2 q by (intro made [of mq fs2]) (auto simp: android_fmq_create_def)
    next
      case False
      then show thesis
        using c a sync allocates n k2 mq_contractD(9) [OF M]
        by (intro null [of fs2])
          (auto simp: android_fmq_create_def heap_free_def split: option.splits if_splits)
    qed
  qed
qed

text \<open>Over any queue class that keeps its contract, the wrapper keeps the clients' one.\<close>

lemma android_backend:
  assumes M: "mq_contract M good contents limit b"
  shows "fmq_backend (android_inv good) (android_contents contents) (android_limit limit)
    (android_api M) (Suc b)"
proof
  fix q
  assume "android_inv good q"
  then show "length (android_contents contents q) \<le> android_limit limit q"
    using mq_contractD(1) [OF M] by (auto simp: android_abs_defs split: option.splits)
next
  fix q and sz :: u64 and src :: bytes
  assume "android_inv good q" and "unat sz \<le> length src"
  from android_put [OF M this] show "\<exists>n q'. fmq_put (android_api M) q src sz = Some (n, q') \<and>
      android_inv good q' \<and> android_limit limit q' = android_limit limit q \<and> n \<le> sz \<and>
      android_contents contents q' = android_contents contents q @ take (unat n) src \<and>
      (length (android_contents contents q) + unat sz \<le> android_limit limit q \<longrightarrow> n = sz)"
    by (auto split: if_splits)
next
  fix q and sz :: u64 and dst :: bytes
  assume "android_inv good q" and "unat sz \<le> length dst"
  from android_get [OF M this] show "\<exists>n q'. fmq_get (android_api M) q dst sz =
      Some (n, blit dst 0 (take (unat n) (android_contents contents q)), q') \<and>
      android_inv good q' \<and> android_limit limit q' = android_limit limit q \<and> n \<le> sz \<and>
      unat n \<le> length (android_contents contents q) \<and>
      android_contents contents q' = drop (unat n) (android_contents contents q) \<and>
      (unat sz \<le> length (android_contents contents q) \<longrightarrow> n = sz)"
    by (auto split: if_splits)
next
  fix q
  assume "android_inv good q"
  then show "unat (api_available_to_read (android_api M) (Some q)) = length (android_contents contents q)"
    using mq_contractD(2) [OF M]
    by (auto simp: android_abs_defs android_api_def android_fmq_available_to_read_def split: option.splits)
next
  fix kind cap esz k q k'
  assume c: "api_create (android_api M) kind cap esz k = (Inr (Some q), k')"
    and small: "unat cap * unat esz < 2 ^ 32"
  have cap: "unat (cap * esz) = unat cap * unat esz" using small by (simp add: unat_word_ariths)
  have "android_fmq_create M kind cap esz k = (Inr (Some q), k')" using c by (simp add: android_api_def)
  with M show "android_inv good q \<and> android_contents contents q = [] \<and>
      android_limit limit q = unat cap * unat esz"
    by (cases rule: android_create_cases) (auto simp: android_abs_defs cap)
next
  fix kind cap esz k h k'
  assume "api_create (android_api M) kind cap esz k = (Inr h, k')"
  then have "android_fmq_create M kind cap esz k = (Inr h, k')" by (simp add: android_api_def)
  with M show "\<exists>fs. k' = k\<lparr>faults := fs, heap_blocks := heap_blocks k + (if h = None then 0 else Suc b)\<rparr>"
    by (cases rule: android_create_cases) auto
next
  fix h k
  assume "pred_option (android_inv good) h"
  then show "api_destroy (android_api M) h k =
    k\<lparr>heap_blocks := heap_blocks k - (if h = None then 0 else Suc b)\<rparr>"
    using mq_contractD(9) [OF M]
    by (auto simp: android_api_def android_fmq_destroy_def android_inv_def heap_free_def split: option.splits)
qed

section \<open>A queue class that keeps the contract\<close>

text \<open>A bounded list, the plainest class with the documented behaviour; it shows that the
  contract can hold.\<close>

definition list_mq :: "(nat \<times> bytes) mq_ops" where
  "list_mq = \<lparr>
     mq_new = \<lambda>sz k. (case heap_alloc k of (ok, k') \<Rightarrow> (if ok then Some (unat sz, []) else None, k')),
     mq_isValid = \<lambda>q. True,
     mq_write = \<lambda>(n, q) xs. if length q + length xs \<le> n then (True, (n, q @ xs)) else (False, (n, q)),
     mq_read = \<lambda>(n, q) j. if unat j \<le> length q then Some (take (unat j) q, (n, drop (unat j) q)) else None,
     mq_availableToWrite = \<lambda>(n, q). of_nat (n - length q),
     mq_availableToRead = \<lambda>(n, q). of_nat (length q),
     mq_delete = \<lambda>q k. heap_free k\<rparr>"

definition list_mq_good :: "nat \<times> bytes \<Rightarrow> bool" where
  "list_mq_good q \<longleftrightarrow> length (snd q) \<le> fst q \<and> fst q < 2 ^ 64"

lemma list_mq_contract: "mq_contract list_mq list_mq_good snd fst 1"
  unfolding mq_contract_def
proof (intro conjI)
  show "\<forall>sz k r k'. mq_new list_mq sz k = (r, k') \<longrightarrow>
      (\<exists>fs. k' = k\<lparr>faults := fs, heap_blocks := heap_blocks k + (if r = None then 0 else 1)\<rparr>)"
  proof (intro allI impI)
    fix sz k r k'
    assume n: "mq_new list_mq sz k = (r, k')"
    obtain ok k1 where a: "heap_alloc k = (ok, k1)" by fastforce
    then show "\<exists>fs. k' = k\<lparr>faults := fs, heap_blocks := heap_blocks k + (if r = None then 0 else 1)\<rparr>"
      using n a by (cases rule: heap_alloc_cases) (auto simp: list_mq_def)
  qed
qed (auto simp: list_mq_def list_mq_good_def heap_free_def split: prod.splits if_splits)

section \<open>A small queue\<close>

text \<open>Four bytes over a ring buffer: empty, and holding two bytes.\<close>

definition small_queue :: EffectFmqContext where
  "small_queue = \<lparr>ringbuffer = effect_ringbuffer_init 0 4, buffer = replicate 4 0, ctx_capacity = 4,
     ctx_type = EFFECT_FMQ_SYNCHRONIZED, elementSize = 1\<rparr>"

lemma small_queue_ok: "fmq_inv small_queue" "fmq_contents small_queue = []" "fmq_limit small_queue = 4"
proof -
  have "(4 :: nat) dvd 2 ^ 64" by simp
  then have "ring_inv (effect_ringbuffer_init 0 4, replicate 4 0)" by (intro ring_init_inv) simp_all
  then show "fmq_inv small_queue" "fmq_contents small_queue = []" "fmq_limit small_queue = 4"
    by (simp_all add: small_queue_def fmq_abs_defs)
qed

lemma small_written:
  obtains q where "fmq_inv q" and "fmq_contents q = [5, 6]" and "fmq_limit q = 4"
proof -
  have two: "unat (2 :: u64) = 2" by simp
  have l: "unat (2 :: u64) \<le> length [5 :: u8, 6]" unfolding two by simp
  show thesis
  proof (rule fallback.api_write_SomeE [OF small_queue_ok(1) l])
    fix m :: u64 and q
    assume w: "fmq_inv q" "fmq_limit q = fmq_limit small_queue"
      "fmq_contents q = fmq_contents small_queue @ take (unat m) [5, 6]"
      and "length (fmq_contents small_queue) + unat (2 :: u64) \<le> fmq_limit small_queue \<Longrightarrow> m = 2"
    then have "m = 2" by (simp add: small_queue_ok two)
    then have "fmq_contents q = [5, 6]" using w(3) by (simp add: small_queue_ok two)
    then show thesis using that w(1,2) by (simp add: small_queue_ok)
  qed
qed

section \<open>Properties\<close>

text \<open>C27. The queues the client creates are first-in first-out over every history: in the fallback
  build, a queue made for a power-of-two number of bytes below \<open>2 ^ 32\<close> accepts and delivers the
  same bytes in the same order, never holds more than it was made for, and no operation on it is
  undefined.\<close>

theorem fallback_fmq_fifo:
  assumes "effect_fmq_create kind cap esz k = (Inr (Some q), k')"
    and "unat cap * unat esz = 2 ^ e" and "e < 32" and "list_all op_in_bounds ops"
  shows "\<exists>acc del q'. queue_run (fmq_put fallback_api) (fmq_get fallback_api) q ops = Some (acc, del, q') \<and>
    acc = del @ fmq_contents q' \<and> length (fmq_contents q') \<le> 2 ^ e"
proof -
  have pow: "unat cap * unat esz < 2 ^ 32" "unat cap * unat esz dvd 2 ^ 64"
    unfolding assms(2) using assms(3) by (simp_all only: power_strict_increasing_iff le_imp_power_dvd)
  have q: "fmq_inv q" "fmq_contents q = []" "fmq_limit q = 2 ^ e"
    using fallback.created [OF _ pow] assms(1,2) by (auto simp: fallback_api_def)
  obtain acc del q' where "queue_run (fmq_put fallback_api) (fmq_get fallback_api) q ops = Some (acc, del, q')"
      "fmq_inv q'" "fmq_limit q' = fmq_limit q" "fmq_contents q @ acc = del @ fmq_contents q'"
    using fallback.run_fifo [OF q(1) assms(4)] by blast
  then show ?thesis
    using fallback.contents_bound [of q'] q by auto
qed

text \<open>Two bytes into a queue of four: accepted, then delivered.\<close>

theorem fallback_fmq_fifo_witness:
  "\<exists>q k'. effect_fmq_create EFFECT_FMQ_SYNCHRONIZED 4 1 (fresh_kernel []) = (Inr (Some q), k') \<and>
    (\<exists>acc del q'. queue_run (fmq_put fallback_api) (fmq_get fallback_api) q [QWrite [5, 6] 2, QRead [0, 0] 2] =
        Some (acc, del, q') \<and>
      acc = del @ fmq_contents q' \<and> length (fmq_contents q') \<le> 2 ^ 2)"
proof -
  obtain q k' where c: "effect_fmq_create EFFECT_FMQ_SYNCHRONIZED 4 1 (fresh_kernel []) = (Inr (Some q), k')"
    by (simp add: effect_fmq_create_def heap_alloc_def take_fault_def fresh_kernel_def Let_def)
  have "unat (4 :: u64) * unat (1 :: u64) = 2 ^ 2" and "(2 :: nat) < 32"
    and "list_all op_in_bounds [QWrite [5, 6] (2 :: u64), QRead [0, 0] 2]" by simp_all
  with c show ?thesis using fallback_fmq_fifo by blast
qed

text \<open>Over Android's message queue a write or a read moves all the requested bytes or none, in
  order; when it moves none, neither the queue nor the buffer changes.\<close>

theorem android_fmq_all_or_nothing:
  assumes "mq_contract M good contents limit b" and "good q" and "0 < n"
    and "unat n \<le> length src" and "unat n \<le> length dst" and "queue ctx = Some q"
  shows "(\<exists>q'. android_fmq_write M (Some ctx) (Some src) n =
      (if length (contents q) + unat n \<le> limit q then Some (n, Some (ctx\<lparr>queue := Some q'\<rparr>))
       else Some (0, Some ctx)) \<and>
      (length (contents q) + unat n \<le> limit q \<longrightarrow> contents q' = contents q @ take (unat n) src)) \<and>
    (\<exists>q'. android_fmq_read M (Some ctx) (Some dst) n =
      (if unat n \<le> length (contents q)
       then Some (n, Some (take (unat n) (contents q) @ drop (unat n) dst), Some (ctx\<lparr>queue := Some q'\<rparr>))
       else Some (0, Some dst, Some ctx)) \<and>
      (unat n \<le> length (contents q) \<longrightarrow> contents q' = drop (unat n) (contents q)))"
proof
  note M = assms(1)
  have same: "ctx\<lparr>queue := Some q\<rparr> = ctx" using assms(6) by simp
  have len: "length (take (unat n) src) = unat n" using assms(4) by simp
  show "\<exists>q'. android_fmq_write M (Some ctx) (Some src) n =
      (if length (contents q) + unat n \<le> limit q then Some (n, Some (ctx\<lparr>queue := Some q'\<rparr>))
       else Some (0, Some ctx)) \<and>
      (length (contents q) + unat n \<le> limit q \<longrightarrow> contents q' = contents q @ take (unat n) src)"
    using mq_contractD(3,4) [OF M assms(2), of "take (unat n) src"] assms same
    unfolding len by (auto simp: android_fmq_write_def mem_simps) blast
  show "\<exists>q'. android_fmq_read M (Some ctx) (Some dst) n =
      (if unat n \<le> length (contents q)
       then Some (n, Some (take (unat n) (contents q) @ drop (unat n) dst), Some (ctx\<lparr>queue := Some q'\<rparr>))
       else Some (0, Some dst, Some ctx)) \<and>
      (unat n \<le> length (contents q) \<longrightarrow> contents q' = drop (unat n) (contents q))"
    using mq_contractD(5,6) [OF M assms(2), of n] assms
    by (auto simp: android_fmq_read_def mem_simps blit_0 min_absorb2) blast
qed

text \<open>A queue of two bytes holding one: a write of two is refused, a read of one succeeds.\<close>

theorem android_fmq_all_or_nothing_witness:
  "(\<exists>q'. android_fmq_write list_mq (Some \<lparr>queue = Some (2, [7]), a_type = EFFECT_FMQ_SYNCHRONIZED, a_elementSize = 1\<rparr>)
      (Some [1, 2]) 2 =
      Some (0, Some \<lparr>queue = Some (2, [7]), a_type = EFFECT_FMQ_SYNCHRONIZED, a_elementSize = 1\<rparr>)) \<and>
   (\<exists>q'. android_fmq_read list_mq (Some \<lparr>queue = Some (2, [7, 8]), a_type = EFFECT_FMQ_SYNCHRONIZED, a_elementSize = 1\<rparr>)
      (Some [0, 0]) 2 =
      Some (2, Some [7, 8], Some \<lparr>queue = Some q', a_type = EFFECT_FMQ_SYNCHRONIZED, a_elementSize = 1\<rparr>))"
proof
  have two: "unat (2 :: u64) = 2" by simp
  show "\<exists>q'. android_fmq_write list_mq (Some \<lparr>queue = Some (2, [7]), a_type = EFFECT_FMQ_SYNCHRONIZED, a_elementSize = 1\<rparr>)
      (Some [1, 2]) 2 =
      Some (0, Some \<lparr>queue = Some (2, [7]), a_type = EFFECT_FMQ_SYNCHRONIZED, a_elementSize = 1\<rparr>)"
    using android_fmq_all_or_nothing [OF list_mq_contract, of "(2, [7])" 2 "[1, 2]" "[0, 0]"
        "\<lparr>queue = Some (2, [7]), a_type = EFFECT_FMQ_SYNCHRONIZED, a_elementSize = 1\<rparr>"]
    by (simp add: list_mq_good_def two)
  show "\<exists>q'. android_fmq_read list_mq (Some \<lparr>queue = Some (2, [7, 8]), a_type = EFFECT_FMQ_SYNCHRONIZED, a_elementSize = 1\<rparr>)
      (Some [0, 0]) 2 =
      Some (2, Some [7, 8], Some \<lparr>queue = Some q', a_type = EFFECT_FMQ_SYNCHRONIZED, a_elementSize = 1\<rparr>)"
    using android_fmq_all_or_nothing [OF list_mq_contract, of "(2, [7, 8])" 2 "[1, 2]" "[0, 0]"
        "\<lparr>queue = Some (2, [7, 8]), a_type = EFFECT_FMQ_SYNCHRONIZED, a_elementSize = 1\<rparr>"]
    by (simp add: list_mq_good_def two) blast
qed

text \<open>The fallback truncates the byte count to the ring buffer's 32 bits: a queue asked for
  exactly \<open>2 ^ 32\<close> bytes allocates them, reports success, and then accepts nothing; every write
  returns zero and leaves the queue as it was.\<close>

theorem fallback_fmq_create_truncates:
  assumes "unat cap * unat esz = 2 ^ 32"
    and "effect_fmq_create kind cap esz k = (Inr (Some ctx), k')"
  shows "unat (ctx_capacity ctx) = 2 ^ 32 \<and>
    effect_fmq_write (Some ctx) (Some src) n = Some (0, Some ctx)"
proof -
  have cap: "unat (cap * esz) = 2 ^ 32" using assms(1) by (simp add: unat_word_ariths)
  have "(ucast (cap * esz) :: u32) = 0"
    using cap by (simp add: u32_eq_0_iff unat_u64_to_u32)
  moreover have "ringbuffer ctx = effect_ringbuffer_init 0 (ucast (cap * esz))" "ctx_capacity ctx = cap * esz"
    using assms(2) by (auto simp: effect_fmq_create_def Let_def split: prod.splits if_splits)
  ultimately have "ringbuffer ctx = effect_ringbuffer_init 0 0" "unat (ctx_capacity ctx) = 2 ^ 32"
    using cap by simp_all
  then show ?thesis
    by (simp add: effect_fmq_write_def effect_ringbuffer_write_def effect_ringbuffer_init_def
        effect_ringbuffer_get_write_available_def effect_ringbuffer_get_read_available_def Let_def)
qed

theorem fallback_fmq_create_truncates_witness:
  "\<exists>ctx k'. effect_fmq_create EFFECT_FMQ_SYNCHRONIZED 0x40000000 4 (fresh_kernel []) = (Inr (Some ctx), k') \<and>
    effect_fmq_write (Some ctx) (Some [1, 2]) 2 = Some (0, Some ctx)"
proof -
  obtain ctx k' where c: "effect_fmq_create EFFECT_FMQ_SYNCHRONIZED 0x40000000 4 (fresh_kernel []) = (Inr (Some ctx), k')"
    by (simp add: effect_fmq_create_def heap_alloc_def take_fault_def fresh_kernel_def Let_def)
  then show ?thesis using fallback_fmq_create_truncates [OF _ c, of "[1, 2]" 2] by simp
qed

text \<open>The blocking variants of the fallback never report a time-out: the result is never
  negative, and with no room (no data) it is zero, whatever the time-out argument.\<close>

theorem fallback_blocking_never_times_out:
  assumes "fmq_inv ctx" and "unat n \<le> length src" and "unat n \<le> length dst"
  shows "(\<exists>m h. effect_fmq_write_blocking (Some ctx) (Some src) n t = Some (m, h) \<and> 0 \<le> m \<and>
      (length (fmq_contents ctx) = fmq_limit ctx \<longrightarrow> m = 0)) \<and>
    (\<exists>m d h. effect_fmq_read_blocking (Some ctx) (Some dst) n t = Some (m, d, h) \<and> 0 \<le> m \<and>
      (fmq_contents ctx = [] \<longrightarrow> m = 0))"
proof
  have lim: "fmq_limit ctx < 2 ^ 32" by (simp add: fmq_abs_defs ring_defs)
  have nonneg: "sint m = int (unat m)" if "unat m \<le> fmq_limit ctx" for m :: u64
    using that lim by (simp add: sint_u64_small)
  obtain m q where w: "effect_fmq_write (Some ctx) (Some src) n = Some (m, Some q)" "fmq_inv q"
      "fmq_limit q = fmq_limit ctx" "m \<le> n" "fmq_contents q = fmq_contents ctx @ take (unat m) src"
    using fallback.api_write_SomeE [OF assms(1,2)] unfolding fallback_api_def by (simp only: fmq_api.simps) blast
  have "unat m \<le> length src" using w(4) assms(2) by (simp add: word_le_nat_alt)
  then have "length (fmq_contents ctx) + unat m \<le> fmq_limit ctx"
    using fallback.contents_bound [OF w(2)] w(3,5) by simp
  then show "\<exists>m h. effect_fmq_write_blocking (Some ctx) (Some src) n t = Some (m, h) \<and> 0 \<le> m \<and>
      (length (fmq_contents ctx) = fmq_limit ctx \<longrightarrow> m = 0)"
    using w(1) nonneg [of m] by (auto simp: effect_fmq_write_blocking_def unat_eq_0)
  obtain m q d where r: "effect_fmq_read (Some ctx) (Some dst) n = Some (m, d, Some q)"
      "unat m \<le> length (fmq_contents ctx)"
    using fallback.api_read_SomeE [OF assms(1,3)] unfolding fallback_api_def by (simp only: fmq_api.simps) blast
  then have "unat m \<le> fmq_limit ctx" using fallback.contents_bound [OF assms(1)] by simp
  then show "\<exists>m d h. effect_fmq_read_blocking (Some ctx) (Some dst) n t = Some (m, d, h) \<and> 0 \<le> m \<and>
      (fmq_contents ctx = [] \<longrightarrow> m = 0)"
    using r nonneg [of m] by (auto simp: effect_fmq_read_blocking_def unat_eq_0)
qed

text \<open>A one-byte wait on an empty queue of two bytes.\<close>

theorem fallback_blocking_never_times_out_witness:
  "\<exists>q k'. effect_fmq_create EFFECT_FMQ_SYNCHRONIZED 2 1 (fresh_kernel []) = (Inr (Some q), k') \<and>
    (\<exists>d h. effect_fmq_read_blocking (Some q) (Some [9]) 1 20 = Some (0, d, h))"
proof -
  obtain q k' where c: "effect_fmq_create EFFECT_FMQ_SYNCHRONIZED 2 1 (fresh_kernel []) = (Inr (Some q), k')"
    by (simp add: effect_fmq_create_def heap_alloc_def take_fault_def fresh_kernel_def Let_def)
  have "fmq_inv q \<and> fmq_contents q = []"
    using fallback.created [of EFFECT_FMQ_SYNCHRONIZED 2 1] c by (simp add: fallback_api_def)
  then show ?thesis
    using c fallback_blocking_never_times_out [of q 1 "[9]" "[9]" 20] by auto
qed

text \<open>When the second allocation of the fallback fails, its exception leaves the first block
  allocated with no handle to it.\<close>

theorem fallback_fmq_create_leaks:
  assumes "heap_alloc k = (True, k1)" and "heap_alloc k1 = (False, k2)"
  shows "effect_fmq_create kind cap esz k = (Inl bad_alloc, k2) \<and> heap_blocks k2 = Suc (heap_blocks k)"
proof -
  have "heap_blocks k1 = Suc (heap_blocks k)" using assms(1) by (auto elim: heap_alloc_cases)
  moreover have "heap_blocks k2 = heap_blocks k1" using assms(2) by (auto elim: heap_alloc_cases)
  ultimately show ?thesis using assms by (simp add: effect_fmq_create_def Let_def)
qed

theorem fallback_fmq_create_leaks_witness:
  "heap_blocks (snd (effect_fmq_create EFFECT_FMQ_SYNCHRONIZED 4 1 (fresh_kernel [False, True]))) = 1"
  using fallback_fmq_create_leaks [of "fresh_kernel [False, True]" "(fresh_kernel [True])\<lparr>heap_blocks := 1\<rparr>"
      "(fresh_kernel [])\<lparr>heap_blocks := 1\<rparr>" EFFECT_FMQ_SYNCHRONIZED 4 1]
  by (simp add: heap_alloc_def take_fault_def fresh_kernel_def)

end
