(* ===== verification/Stats.thy ===== *)
theory Stats
  imports Prelude
begin

text \<open>
  The statistics both ends keep: \<open>EffectStats\<close> of \<open>client/include/effect_client.h\<close> and
  \<open>SessionStats\<close> of \<open>effectd/include/effectd_session.h\<close>, structures with the same fields, and
  the updates of \<open>client/src/effect_client.c\<close> and \<open>effectd/src/effectd_session.c\<close>, which are the
  same statements in both files. The abstract view of a history of updates is at the end.
\<close>

section \<open>The structure and its updates\<close>

record EffectStats =
  processedFrames :: u64
  droppedFrames :: u64
  avgLatencyUs :: u32
  p95LatencyUs :: u32
  maxLatencyUs :: u32
  timeoutCount :: u32
  xrunCount :: u32

type_synonym SessionStats = EffectStats

definition zero_stats :: EffectStats where
  "zero_stats = \<lparr>processedFrames = 0, droppedFrames = 0, avgLatencyUs = 0, p95LatencyUs = 0,
     maxLatencyUs = 0, timeoutCount = 0, xrunCount = 0\<rparr>"

text \<open>The clock of \<open>clock_gettime\<close> and the microseconds computed from it; \<open>(uint32_t)\<close> of a
  difference keeps its low 32 bits.\<close>

record timespec =
  tv_sec :: int
  tv_nsec :: int

definition get_time_us :: "timespec \<Rightarrow> int" where
  "get_time_us ts = tv_sec ts * 1000000 + tv_nsec ts div 1000"

definition elapsed_us :: "timespec \<Rightarrow> timespec \<Rightarrow> u32" where
  "elapsed_us start finish = word_of_int (get_time_us finish - get_time_us start)"

definition stats_processed :: "u32 \<Rightarrow> u32 \<Rightarrow> EffectStats \<Rightarrow> EffectStats" where
  "stats_processed frames latency st =
     (let st = st\<lparr>processedFrames := processedFrames st + ucast frames\<rparr>;
          st = (if avgLatencyUs st = 0 then st\<lparr>avgLatencyUs := latency\<rparr>
                else st\<lparr>avgLatencyUs := (avgLatencyUs st * 9 + latency) div 10\<rparr>);
          st = (if latency > maxLatencyUs st then st\<lparr>maxLatencyUs := latency\<rparr> else st);
          st = (if latency > p95LatencyUs st then st\<lparr>p95LatencyUs := latency\<rparr> else st)
      in st)"

definition stats_timeout :: "EffectStats \<Rightarrow> EffectStats" where
  "stats_timeout st = st\<lparr>timeoutCount := timeoutCount st + 1\<rparr>"

definition stats_xrun :: "EffectStats \<Rightarrow> EffectStats" where
  "stats_xrun st = st\<lparr>xrunCount := xrunCount st + 1\<rparr>"

definition stats_dropped :: "u32 \<Rightarrow> EffectStats \<Rightarrow> EffectStats" where
  "stats_dropped frames st = st\<lparr>droppedFrames := droppedFrames st + ucast frames\<rparr>"

lemmas stats_defs = stats_timeout_def stats_xrun_def stats_dropped_def

section \<open>Histories of updates\<close>

datatype stats_event = Processed u32 u32 | TimedOut | Xrun | Dropped u32

fun stats_apply :: "EffectStats \<Rightarrow> stats_event \<Rightarrow> EffectStats" where
  "stats_apply st (Processed frames latency) = stats_processed frames latency st"
| "stats_apply st TimedOut = stats_timeout st"
| "stats_apply st Xrun = stats_xrun st"
| "stats_apply st (Dropped frames) = stats_dropped frames st"

definition stats_after :: "stats_event list \<Rightarrow> EffectStats" where
  "stats_after es = foldl stats_apply zero_stats es"

fun latency_of :: "stats_event \<Rightarrow> nat option" where
  "latency_of (Processed frames latency) = Some (unat latency)"
| "latency_of _ = None"

fun frames_of :: "stats_event \<Rightarrow> nat" where
  "frames_of (Processed frames latency) = unat frames"
| "frames_of _ = 0"

fun drops_of :: "stats_event \<Rightarrow> nat" where
  "drops_of (Dropped frames) = unat frames"
| "drops_of _ = 0"

definition latencies :: "stats_event list \<Rightarrow> nat list" where
  "latencies es = List.map_filter latency_of es"

lemma stats_after_Nil [simp]: "stats_after [] = zero_stats"
  by (simp add: stats_after_def)

lemma stats_after_snoc [simp]: "stats_after (es @ [e]) = stats_apply (stats_after es) e"
  by (simp add: stats_after_def)

lemma latencies_Nil [simp]: "latencies [] = []"
  by (simp add: latencies_def map_filter_simps)

lemma latencies_snoc [simp]:
  "latencies (es @ [e]) = latencies es @ (case latency_of e of None \<Rightarrow> [] | Some l \<Rightarrow> [l])"
  by (induction es) (auto simp: latencies_def map_filter_simps split: option.splits)

lemma stats_processed_fields:
  "processedFrames (stats_processed f l st) = processedFrames st + ucast f"
  "droppedFrames (stats_processed f l st) = droppedFrames st"
  "avgLatencyUs (stats_processed f l st) =
     (if avgLatencyUs st = 0 then l else (avgLatencyUs st * 9 + l) div 10)"
  "maxLatencyUs (stats_processed f l st) = max (maxLatencyUs st) l"
  "p95LatencyUs (stats_processed f l st) = max (p95LatencyUs st) l"
  "timeoutCount (stats_processed f l st) = timeoutCount st"
  "xrunCount (stats_processed f l st) = xrunCount st"
  by (auto simp: stats_processed_def Let_def max_def)

text \<open>Counters modulo their width, with natural numbers on the other side.\<close>

lemma unat_max: "unat (max (a :: 'a::len word) b) = max (unat a) (unat b)"
  by (simp add: max_def word_le_nat_alt)

lemma Max_snoc: "Max (insert 0 (set (xs @ [x]))) = max (Max (insert 0 (set xs))) (x :: nat)"
proof -
  have "insert 0 (set (xs @ [x])) = insert x (insert 0 (set xs))" by auto
  then show ?thesis by (simp only: Max_insert finite_insert finite_set insert_not_empty max.commute not_False_eq_True)
qed

lemma processed_after: "processedFrames (stats_after es) = of_nat (sum_list (map frames_of es))"
proof (induction es rule: rev_induct)
  case (snoc e es)
  then show ?case by (cases e) (simp_all add: stats_processed_fields stats_defs)
qed (simp add: zero_stats_def)

lemma dropped_after: "droppedFrames (stats_after es) = of_nat (sum_list (map drops_of es))"
proof (induction es rule: rev_induct)
  case (snoc e es)
  then show ?case by (cases e) (simp_all add: stats_processed_fields stats_defs)
qed (simp add: zero_stats_def)

lemma counters_after:
  "timeoutCount (stats_after es) = of_nat (count_list es TimedOut)"
  "xrunCount (stats_after es) = of_nat (count_list es Xrun)"
proof (induction es rule: rev_induct)
  case (snoc e es)
  case 1
  with snoc show ?case by (cases e) (simp_all add: stats_processed_fields stats_defs)
  case 2
  with snoc show ?case by (cases e) (simp_all add: stats_processed_fields stats_defs)
qed (simp_all add: zero_stats_def)

definition worst :: "stats_event list \<Rightarrow> nat" where
  "worst es = Max (insert 0 (set (latencies es)))"

lemma worst_snoc: "worst (es @ [e]) = (case latency_of e of None \<Rightarrow> worst es | Some l \<Rightarrow> max (worst es) l)"
proof (cases "latency_of e")
  case None
  then show ?thesis by (simp add: worst_def)
next
  case (Some l)
  then show ?thesis unfolding worst_def latencies_snoc Some option.case Max_snoc by simp
qed

lemma maxima_after:
  "unat (maxLatencyUs (stats_after es)) = worst es"
  "unat (p95LatencyUs (stats_after es)) = worst es"
proof (induction es rule: rev_induct)
  case (snoc e es)
  case 1
  with snoc show ?case by (cases e) (simp_all add: stats_processed_fields stats_defs unat_max worst_snoc)
  case 2
  with snoc show ?case by (cases e) (simp_all add: stats_processed_fields stats_defs unat_max worst_snoc)
qed (simp_all add: zero_stats_def worst_def)

lemma no_latency_no_average: "latencies es = [] \<Longrightarrow> avgLatencyUs (stats_after es) = 0"
proof (induction es rule: rev_induct)
  case (snoc e es)
  then show ?case by (cases e) (simp_all add: stats_defs)
qed (simp add: zero_stats_def)

lemma average_step:
  assumes "unat a \<le> hi" and "unat l \<le> hi" and "10 * hi < 2 ^ 32" and "lo \<le> unat a" and "lo \<le> unat l"
  shows "lo \<le> unat ((a * 9 + l) div 10 :: u32) \<and> unat ((a * 9 + l) div 10 :: u32) \<le> hi"
proof -
  have "unat (a * 9) = unat a * 9" using assms(1,3) by (simp add: unat_word_ariths)
  then have "unat (a * 9 + l) = unat a * 9 + unat l" using assms(1-3) by (simp add: unat_word_ariths)
  then have "unat ((a * 9 + l) div 10) = (unat a * 9 + unat l) div 10" by (simp add: unat_div)
  then show ?thesis using assms(1,2,4,5) by (simp add: div_le_mono less_eq_div_iff_mult_less_eq)
qed

section \<open>Properties\<close>

text \<open>C37. After any history of updates the statistics are the summary of it: the frames processed
  and dropped and the two counters modulo their widths, and the maximum of the latencies. The
  field named after the 95th percentile is that same maximum.\<close>

theorem stats_summarise_history:
  "processedFrames (stats_after es) = of_nat (sum_list (map frames_of es)) \<and>
   droppedFrames (stats_after es) = of_nat (sum_list (map drops_of es)) \<and>
   timeoutCount (stats_after es) = of_nat (count_list es TimedOut) \<and>
   xrunCount (stats_after es) = of_nat (count_list es Xrun) \<and>
   unat (maxLatencyUs (stats_after es)) = Max (insert 0 (set (latencies es))) \<and>
   p95LatencyUs (stats_after es) = maxLatencyUs (stats_after es)"
  by (simp add: processed_after dropped_after counters_after word_unat_eq_iff maxima_after)
    (simp add: worst_def)

text \<open>As long as every latency lies between two bounds below a tenth of \<open>2 ^ 32\<close>
  microseconds, so does the rolling average, from the first processed buffer on: no update
  overflows and rounding never leaves the range.\<close>

theorem stats_average_in_range:
  assumes "\<forall>l \<in> set (latencies es). lo \<le> l \<and> l \<le> hi" and "10 * hi < 2 ^ 32" and "latencies es \<noteq> []"
  shows "lo \<le> unat (avgLatencyUs (stats_after es)) \<and> unat (avgLatencyUs (stats_after es)) \<le> hi"
  using assms(1,3)
proof (induction es rule: rev_induct)
  case (snoc e es)
  show ?case
  proof (cases "\<exists>f l. e = Processed f l")
    case True
    then obtain f l where e: "e = Processed f l" by blast
    have l: "lo \<le> unat l" "unat l \<le> hi" using snoc.prems(1) e by auto
    show ?thesis
    proof (cases "avgLatencyUs (stats_after es) = 0")
      case True
      then show ?thesis using l by (simp add: e stats_processed_fields)
    next
      case False
      then have "latencies es \<noteq> []"
        using no_latency_no_average by blast
      then have "lo \<le> unat (avgLatencyUs (stats_after es)) \<and> unat (avgLatencyUs (stats_after es)) \<le> hi"
        using snoc by auto
      then show ?thesis
        using average_step [OF _ l(2) assms(2) _ l(1)] False by (simp add: e stats_processed_fields)
    qed
  next
    case False
    then have "latencies (es @ [e]) = latencies es"
      and "avgLatencyUs (stats_after (es @ [e])) = avgLatencyUs (stats_after es)"
      by (cases e; simp add: stats_defs)+
    then show ?thesis using snoc by simp
  qed
qed simp

text \<open>Two buffers of 1000 and 2000 microseconds.\<close>

theorem stats_average_in_range_witness:
  "1000 \<le> unat (avgLatencyUs (stats_after [Processed 480 1000, Xrun, Processed 480 2000])) \<and>
   unat (avgLatencyUs (stats_after [Processed 480 1000, Xrun, Processed 480 2000])) \<le> 2000"
  by (rule stats_average_in_range) (simp_all add: latencies_def map_filter_simps)

end
