(* ===== verification/Audio.thy ===== *)
theory Audio
  imports Prelude
begin

text \<open>
  The audio format both ends agree on: \<open>EffectConfig\<close> of \<open>client/include/effect_client.h\<close> and
  \<open>AudioConfig\<close> of \<open>effectd/include/effectd_session.h\<close>, structures with the same fields, and the
  byte count per frame, a function with the same body in \<open>client/src/effect_client.c\<close> and
  \<open>effectd/src/effectd_session.c\<close>.
\<close>

record EffectConfig =
  sampleRate :: u32
  channels :: u32
  format :: u32
  framesPerBuffer :: u32

type_synonym AudioConfig = EffectConfig

definition calculate_bytes_per_frame :: "EffectConfig \<Rightarrow> u32" where
  "calculate_bytes_per_frame cfg =
     (let bytes_per_sample = (if format cfg = 16 then 2 else 4) in channels cfg * bytes_per_sample)"

end
