(* ===== verification/Client.thy ===== *)
theory Client
  imports Fmq Stats Audio
begin

text \<open>
  The client library: \<open>client/src/effect_client.c\<close> with its interface
  \<open>client/include/effect_client.h\<close>. The session structure is compiled in two shapes, one over
  message queues (\<open>USE_FMQ\<close>) and one over shared memory; the fields common to both are the base
  record here, and the functions that touch only those are polymorphic in the rest.

  A caller's memory is one block of bytes; \<open>input\<close> and \<open>output\<close> are offsets into it, so they may
  coincide or overlap, and null pointers are \<open>None\<close>. \<open>memcpy\<close> between partly overlapping ranges is
  undefined; with equal pointers, which the interface allows, it is the identity. The service at
  the other end of the queues runs concurrently; \<open>env i\<close> is what it does to the shared queues and
  the kernel in the \<open>i\<close>-th gap between the client's own steps: after the write, during the wait,
  and before the read. The mutex around the statistics is not modelled: every critical section
  is one step.
\<close>

section \<open>Types of the interface\<close>

datatype EffectType = EFFECT_TYPE_KARAOKE_NO_MIC | EFFECT_TYPE_NOISE_REDUCTION

datatype EffectResult = EFFECT_OK | EFFECT_ERROR_INVALID_ARGUMENTS | EFFECT_ERROR_NO_MEMORY
  | EFFECT_ERROR_INVALID_STATE | EFFECT_ERROR_NOT_SUPPORTED | EFFECT_ERROR_TIMEOUT
  | EFFECT_ERROR_DEAD_OBJECT

record client_base =
  sessionId :: u32
  effectType :: EffectType
  config :: EffectConfig
  eventFdIn :: int
  eventFdOut :: int
  stats :: EffectStats
  isStarted :: bool
  isConnected :: bool

record 'q EffectSession = client_base +
  inputFmq :: "'q option"
  outputFmq :: "'q option"

record ShmEffectSession = client_base +
  shmFd :: int
  shmAddr :: nat
  shmSize :: u64
  inputRb :: effect_ringbuffer_t
  outputRb :: effect_ringbuffer_t

definition MAX_BUFFER_SIZE :: u64 where "MAX_BUFFER_SIZE = 1024 * 1024"

definition TIMEOUT_MS :: int where "TIMEOUT_MS = 20"

text \<open>\<open>memcpy\<close> inside the caller's memory.\<close>

definition memcpy_within :: "bytes \<Rightarrow> nat \<Rightarrow> nat \<Rightarrow> nat \<Rightarrow> bytes option" where
  "memcpy_within um doff soff n =
     (if doff \<noteq> soff \<and> doff < soff + n \<and> soff < doff + n then None else memcpy um doff um soff n)"

section \<open>Functions of both builds\<close>

definition EffectClient_Start :: "'a client_base_scheme option \<Rightarrow> EffectResult \<times> 'a client_base_scheme option" where
  "EffectClient_Start handle =
     (case handle of
        None \<Rightarrow> (EFFECT_ERROR_INVALID_ARGUMENTS, None)
      | Some session \<Rightarrow>
          if \<not> isConnected session then (EFFECT_ERROR_DEAD_OBJECT, Some session)
          else (EFFECT_OK, Some (session\<lparr>isStarted := True\<rparr>)))"

definition EffectClient_SetParam ::
  "'a client_base_scheme option \<Rightarrow> u32 \<Rightarrow> bytes option \<Rightarrow> u32 \<Rightarrow> EffectResult" where
  "EffectClient_SetParam handle key val valueSize =
     (case (handle, val) of
        (Some session, Some v) \<Rightarrow>
          if valueSize = 0 then EFFECT_ERROR_INVALID_ARGUMENTS
          else if \<not> isConnected session then EFFECT_ERROR_DEAD_OBJECT
          else EFFECT_OK
      | _ \<Rightarrow> EFFECT_ERROR_INVALID_ARGUMENTS)"

definition EffectClient_QueryStats ::
  "'a client_base_scheme option \<Rightarrow> EffectStats option \<Rightarrow> EffectResult \<times> EffectStats option" where
  "EffectClient_QueryStats handle st =
     (case (handle, st) of
        (Some session, Some old) \<Rightarrow> (EFFECT_OK, Some (stats session))
      | _ \<Rightarrow> (EFFECT_ERROR_INVALID_ARGUMENTS, st))"

definition EffectClient_Stop :: "'a client_base_scheme option \<Rightarrow> EffectResult \<times> 'a client_base_scheme option" where
  "EffectClient_Stop handle =
     (case handle of
        None \<Rightarrow> (EFFECT_ERROR_INVALID_ARGUMENTS, None)
      | Some session \<Rightarrow> (EFFECT_OK, Some (session\<lparr>isStarted := False\<rparr>)))"

section \<open>The message queue build\<close>

type_synonym 'q EffectHandle = "'q EffectSession option"

type_synonym 'q peer = "nat \<Rightarrow> 'q \<times> 'q \<times> kernel \<Rightarrow> 'q \<times> 'q \<times> kernel"

text \<open>\<open>handle\<close> is the caller's variable, \<open>None\<close> for a null pointer to it. An exception thrown by
  the queue's allocation leaves the function.\<close>

definition EffectClient_Open ::
  "'q fmq_api \<Rightarrow> u32 \<Rightarrow> EffectType \<Rightarrow> EffectConfig option \<Rightarrow> 'q EffectHandle option \<Rightarrow> kernel \<Rightarrow>
   (cxx_exception + EffectResult) \<times> 'q EffectHandle option \<times> kernel" where
  "EffectClient_Open api pid kind cfg handle k =
     (case (cfg, handle) of
        (Some conf, Some old) \<Rightarrow>
          let (ok, k) = heap_alloc k in
          if \<not> ok then (Inr EFFECT_ERROR_NO_MEMORY, handle, k)
          else
            let bytesPerFrame = calculate_bytes_per_frame conf;
                queueCapacity = MAX_BUFFER_SIZE;
                (r, k) = api_create api EFFECT_FMQ_SYNCHRONIZED queueCapacity 1 k in
            (case r of
               Inl e \<Rightarrow> (Inl e, handle, k)
             | Inr None \<Rightarrow> (Inr EFFECT_ERROR_NO_MEMORY, handle, heap_free k)
             | Inr (Some inq) \<Rightarrow>
                 let (r, k) = api_create api EFFECT_FMQ_SYNCHRONIZED queueCapacity 1 k in
                 (case r of
                    Inl e \<Rightarrow> (Inl e, handle, k)
                  | Inr None \<Rightarrow>
                      (Inr EFFECT_ERROR_NO_MEMORY, handle, heap_free (api_destroy api (Some inq) k))
                  | Inr (Some outq) \<Rightarrow>
                      let (fdIn, k) = effect_eventfd_create 0 k;
                          (fdOut, k) = effect_eventfd_create 0 k in
                      if fdIn < 0 \<or> fdOut < 0 then
                        let k = (if fdIn \<ge> 0 then sys_close fdIn k else k);
                            k = (if fdOut \<ge> 0 then sys_close fdOut k else k);
                            k = api_destroy api (Some inq) k;
                            k = api_destroy api (Some outq) k
                        in (Inr EFFECT_ERROR_NO_MEMORY, handle, heap_free k)
                      else
                        (Inr EFFECT_OK,
                         Some (Some \<lparr>sessionId = pid, effectType = kind, config = conf,
                           eventFdIn = fdIn, eventFdOut = fdOut, stats = zero_stats,
                           isStarted = False, isConnected = True,
                           inputFmq = Some inq, outputFmq = Some outq\<rparr>), k)))
      | _ \<Rightarrow> (Inr EFFECT_ERROR_INVALID_ARGUMENTS, handle, k))"

definition run_peer :: "'q peer \<Rightarrow> nat \<Rightarrow> 'q EffectSession \<times> kernel \<Rightarrow> 'q EffectSession \<times> kernel" where
  "run_peer env i sk =
     (let (session, k) = sk in
      case (inputFmq session, outputFmq session) of
        (Some a, Some b) \<Rightarrow>
          let (a', b', k') = env i (a, b, k)
          in (session\<lparr>inputFmq := Some a', outputFmq := Some b'\<rparr>, k')
      | _ \<Rightarrow> (session, k))"

definition EffectClient_Process ::
  "'q fmq_api \<Rightarrow> 'q peer \<Rightarrow> (nat \<Rightarrow> timespec) \<Rightarrow> 'q EffectHandle \<Rightarrow> nat option \<Rightarrow> nat option \<Rightarrow> u32 \<Rightarrow>
   bytes \<Rightarrow> kernel \<Rightarrow> (EffectResult \<times> 'q EffectHandle \<times> bytes \<times> kernel) option" where
  "EffectClient_Process api env clock handle input output frames um k =
     (case (handle, input, output) of
        (Some session, Some inp, Some out) \<Rightarrow>
          if frames = 0 then Some (EFFECT_ERROR_INVALID_ARGUMENTS, handle, um, k)
          else if \<not> isStarted session then Some (EFFECT_ERROR_INVALID_STATE, handle, um, k)
          else do {
            let start_time = clock 0;
            let bytesPerFrame = calculate_bytes_per_frame (config session);
            let totalBytes = frames * bytesPerFrame;
            (written, inq) \<leftarrow> api_write api (inputFmq session) (Some (drop inp um)) (ucast totalBytes);
            let session = session\<lparr>inputFmq := inq\<rparr>;
            if written < ucast totalBytes then do {
              let session = session\<lparr>stats := stats_xrun (stats session)\<rparr>;
              um \<leftarrow> memcpy_within um out inp (unat totalBytes);
              Some (EFFECT_ERROR_TIMEOUT, Some session, um, k) }
            else do {
              let (session, k) = run_peer env 0 (session, k);
              let (sig, k) = effect_eventfd_signal (eventFdIn session) k;
              let (session, k) = run_peer env 1 (session, k);
              let (wait_result, k) = effect_eventfd_wait (eventFdOut session) TIMEOUT_MS k;
              if wait_result < 0 then do {
                let session = session\<lparr>stats := stats_timeout (stats session)\<rparr>;
                um \<leftarrow> memcpy_within um out inp (unat totalBytes);
                Some (EFFECT_ERROR_TIMEOUT, Some session, um, k) }
              else do {
                let (session, k) = run_peer env 2 (session, k);
                (got, dst, outq) \<leftarrow> api_read api (outputFmq session) (Some (drop out um)) (ucast totalBytes);
                let session = session\<lparr>outputFmq := outq\<rparr>;
                let um = (case dst of None \<Rightarrow> um | Some d \<Rightarrow> take out um @ d);
                if got < ucast totalBytes then do {
                  um \<leftarrow> memcpy_within um out inp (unat totalBytes);
                  let session = session\<lparr>stats := stats_dropped frames (stats session)\<rparr>;
                  Some (EFFECT_ERROR_TIMEOUT, Some session, um, k) }
                else do {
                  let latency = elapsed_us start_time (clock 1);
                  let session = session\<lparr>stats := stats_processed frames latency (stats session)\<rparr>;
                  Some (EFFECT_OK, Some session, um, k) } } } }
      | _ \<Rightarrow> Some (EFFECT_ERROR_INVALID_ARGUMENTS, handle, um, k))"

definition EffectClient_Close :: "'q fmq_api \<Rightarrow> 'q EffectHandle \<Rightarrow> kernel \<Rightarrow> EffectResult \<times> kernel" where
  "EffectClient_Close api handle k =
     (case handle of
        None \<Rightarrow> (EFFECT_ERROR_INVALID_ARGUMENTS, k)
      | Some session \<Rightarrow>
          let k = (if eventFdIn session \<ge> 0 then sys_close (eventFdIn session) k else k);
              k = (if eventFdOut session \<ge> 0 then sys_close (eventFdOut session) k else k);
              k = (if inputFmq session \<noteq> None then api_destroy api (inputFmq session) k else k);
              k = (if outputFmq session \<noteq> None then api_destroy api (outputFmq session) k else k)
          in (EFFECT_OK, heap_free k))"

section \<open>One call of the processing function\<close>

text \<open>Ranges of the caller's memory that are in bounds and equal or disjoint.\<close>

definition ranges_ok :: "bytes \<Rightarrow> nat \<Rightarrow> nat \<Rightarrow> nat \<Rightarrow> bool" where
  "ranges_ok um inp out n \<longleftrightarrow> inp + n \<le> length um \<and> out + n \<le> length um \<and>
     (inp = out \<or> inp + n \<le> out \<or> out + n \<le> inp)"

lemma memcpy_within_ok:
  "ranges_ok um inp out n \<Longrightarrow> memcpy_within um out inp n = Some (blit um out (take n (drop inp um)))"
  by (auto simp: ranges_ok_def memcpy_within_def mem_simps)

text \<open>Both queues of a session are there and in order, and the service keeps them so.\<close>

definition client_ok :: "('q \<Rightarrow> bool) \<Rightarrow> 'q EffectSession \<Rightarrow> bool" where
  "client_ok good session \<longleftrightarrow>
     (\<exists>a b. inputFmq session = Some a \<and> good a \<and> outputFmq session = Some b \<and> good b)"

definition peer_ok :: "('q \<Rightarrow> bool) \<Rightarrow> 'q peer \<Rightarrow> bool" where
  "peer_ok good env \<longleftrightarrow> (\<forall>i a b k a' b' k'. env i (a, b, k) = (a', b', k') \<longrightarrow> good a \<longrightarrow> good b \<longrightarrow>
     good a' \<and> good b')"

lemma run_peer_ok:
  assumes "peer_ok good env" and "client_ok good session"
  obtains a b k' where "run_peer env i (session, k) =
      (session\<lparr>inputFmq := Some a, outputFmq := Some b\<rparr>, k')" and "good a" and "good b"
proof -
  obtain a b where ab: "inputFmq session = Some a" "good a" "outputFmq session = Some b" "good b"
    using assms(2) by (auto simp: client_ok_def)
  obtain a' b' k' where e: "env i (a, b, k) = (a', b', k')" by (metis prod_cases3)
  then have "good a'" "good b'" using assms(1) ab unfolding peer_ok_def by blast+
  then show thesis using that ab e by (simp add: run_peer_def)
qed

lemma client_okI: "good a \<Longrightarrow> good b \<Longrightarrow> client_ok good (session\<lparr>inputFmq := Some a, outputFmq := Some b\<rparr>)"
  by (simp add: client_ok_def)

text \<open>Between them the client's signals and waits and a well-behaved service change only the two
  event counters.\<close>

definition keeps_resources :: "int \<Rightarrow> int \<Rightarrow> kernel \<Rightarrow> kernel \<Rightarrow> bool" where
  "keeps_resources fi fo k k' \<longleftrightarrow> mappings k' = mappings k \<and> shm_names k' = shm_names k \<and>
     heap_blocks k' = heap_blocks k \<and> (\<forall>n. int n \<noteq> fi \<longrightarrow> int n \<noteq> fo \<longrightarrow> fds k' n = fds k n)"

definition peer_keeps :: "int \<Rightarrow> int \<Rightarrow> 'q peer \<Rightarrow> bool" where
  "peer_keeps fi fo env \<longleftrightarrow> (\<forall>i a b k. keeps_resources fi fo k (snd (snd (env i (a, b, k)))))"

lemma keeps_refl [simp]: "keeps_resources fi fo k k"
  by (simp add: keeps_resources_def)

lemma keeps_trans: "keeps_resources fi fo k k' \<Longrightarrow> keeps_resources fi fo k' k'' \<Longrightarrow> keeps_resources fi fo k k''"
  by (simp add: keeps_resources_def)

lemma keeps_event:
  assumes "event_frame fd k k'" and "fd = fi \<or> fd = fo"
  shows "keeps_resources fi fo k k'"
  using assms by (auto simp: event_frame_def keeps_resources_def fd_of_def split: if_splits)

lemma run_peer_keeps:
  assumes "peer_keeps fi fo env" and "run_peer env i (session, k) = (session', k')"
  shows "keeps_resources fi fo k k'"
proof (cases "inputFmq session = None \<or> outputFmq session = None")
  case True
  then show ?thesis using assms(2) by (auto simp: run_peer_def split: option.splits)
next
  case False
  then obtain a b where "inputFmq session = Some a" "outputFmq session = Some b" by auto
  then have "k' = snd (snd (env i (a, b, k)))" using assms(2) by (auto simp: run_peer_def split: prod.splits)
  then show ?thesis using assms(1) by (simp add: peer_keeps_def)
qed

context fmq_backend
begin

text \<open>What happens from the write of a call to the end of its wait.\<close>

lemma client_gap:
  assumes "peer_ok inv env" and "client_ok inv s"
  obtains a0 b0 k1 sg k2 a b k3 wr k4 where "run_peer env 0 (s, k) = (s\<lparr>inputFmq := Some a0, outputFmq := Some b0\<rparr>, k1)"
    and "effect_eventfd_signal (eventFdIn s) k1 = (sg, k2)"
    and "run_peer env 1 (s\<lparr>inputFmq := Some a0, outputFmq := Some b0\<rparr>, k2) =
      (s\<lparr>inputFmq := Some a, outputFmq := Some b\<rparr>, k3)" and "inv a" and "inv b"
    and "effect_eventfd_wait (eventFdOut s) TIMEOUT_MS k3 = (wr, k4)"
    and "peer_keeps (eventFdIn s) (eventFdOut s) env \<Longrightarrow> keeps_resources (eventFdIn s) (eventFdOut s) k k4"
proof -
  obtain a0 b0 k1 where 0: "run_peer env 0 (s, k) = (s\<lparr>inputFmq := Some a0, outputFmq := Some b0\<rparr>, k1)" "inv a0" "inv b0"
    using run_peer_ok [OF assms] by blast
  obtain sg k2 where g: "effect_eventfd_signal (eventFdIn s) k1 = (sg, k2)" by fastforce
  obtain a b k3 where 1: "run_peer env 1 (s\<lparr>inputFmq := Some a0, outputFmq := Some b0\<rparr>, k2) =
      (s\<lparr>inputFmq := Some a0, outputFmq := Some b0, inputFmq := Some a, outputFmq := Some b\<rparr>, k3)" "inv a" "inv b"
    using run_peer_ok [OF assms(1) client_okI [where good = inv, OF 0(2,3)]] by blast
  obtain wr k4 where w: "effect_eventfd_wait (eventFdOut s) TIMEOUT_MS k3 = (wr, k4)" by fastforce
  have "keeps_resources (eventFdIn s) (eventFdOut s) k k4" if "peer_keeps (eventFdIn s) (eventFdOut s) env"
    using run_peer_keeps [OF that 0(1)] run_peer_keeps [OF that 1(1)]
      keeps_event [OF signal_frame [OF g]] keeps_event [OF wait_frame [OF w]]
    by (blast intro: keeps_trans)
  then show thesis using that [OF 0(1) g _ 1(2,3) w] 1(1) by simp
qed

text \<open>The call's read, at the output range.\<close>

lemma client_read:
  assumes "inv b" and um: "ranges_ok um inp out n" and len: "unat len = n"
  obtains g b' d where
    "api_read api (Some b) (Some (drop out um)) len = Some (g, Some (blit (drop out um) 0 d), Some b')"
    and "inv b'" and "length d = unat g" and "unat g \<le> n" and "g < len \<longleftrightarrow> length d < n"
    and "take out um @ blit (drop out um) 0 d = blit um out d"
proof -
  have "unat len \<le> length (drop out um)" using um by (auto simp: len ranges_ok_def)
  then obtain g b' where r: "api_read api (Some b) (Some (drop out um)) len =
      Some (g, Some (blit (drop out um) 0 (take (unat g) (contents b))), Some b')"
    "inv b'" "g \<le> len" "unat g \<le> length (contents b)"
    using api_read_SomeE [OF assms(1)] by metis
  then show thesis using um len
    by (intro that [of g "take (unat g) (contents b)" b'])
      (simp_all add: word_le_nat_alt word_less_nat_alt blit_drop ranges_ok_def)
qed

text \<open>The copy of the input after a short read.\<close>

lemma memcpy_after_short_read:
  assumes "ranges_ok um inp out n" and "length d < n"
  shows "memcpy_within (blit um out d) out inp n = Some (blit um out (take n (drop inp (blit um out d))))"
proof -
  have rg: "ranges_ok (blit um out d) inp out n" using assms by (simp add: ranges_ok_def)
  have "blit (blit um out d) out (take n (drop inp (blit um out d))) = blit um out (take n (drop inp (blit um out d)))"
    using assms by (intro blit_blit) (auto simp: ranges_ok_def)
  then show ?thesis using memcpy_within_ok [OF rg] by simp
qed

text \<open>A call on a started session with buffers in bounds ends in one of four ways.\<close>

lemma process_cases:
  assumes s: "client_ok inv session" "isStarted session" "peer_ok inv env" and fr: "frames \<noteq> 0"
    and n: "n = unat (frames * calculate_bytes_per_frame (config session))" and um: "ranges_ok um inp out n"
  obtains (xrun) s' where "EffectClient_Process api env clock (Some session) (Some inp) (Some out) frames um k =
        Some (EFFECT_ERROR_TIMEOUT, Some s', blit um out (take n (drop inp um)), k)"
      and "client_ok inv s'" and "client_base.truncate s' = (client_base.truncate session)\<lparr>stats := stats_xrun (stats session)\<rparr>"
  | (late) s' k' where "EffectClient_Process api env clock (Some session) (Some inp) (Some out) frames um k =
        Some (EFFECT_ERROR_TIMEOUT, Some s', blit um out (take n (drop inp um)), k')"
      and "client_ok inv s'" and "client_base.truncate s' = (client_base.truncate session)\<lparr>stats := stats_timeout (stats session)\<rparr>"
      and "peer_keeps (eventFdIn session) (eventFdOut session) env \<Longrightarrow> keeps_resources (eventFdIn session) (eventFdOut session) k k'"
  | (short) s' k' d where "EffectClient_Process api env clock (Some session) (Some inp) (Some out) frames um k =
        Some (EFFECT_ERROR_TIMEOUT, Some s', blit um out (take n (drop inp (blit um out d))), k')"
      and "length d < n" and "client_ok inv s'"
      and "client_base.truncate s' = (client_base.truncate session)\<lparr>stats := stats_dropped frames (stats session)\<rparr>"
      and "peer_keeps (eventFdIn session) (eventFdOut session) env \<Longrightarrow> keeps_resources (eventFdIn session) (eventFdOut session) k k'"
  | (delivered) s' k' d where "EffectClient_Process api env clock (Some session) (Some inp) (Some out) frames um k =
        Some (EFFECT_OK, Some s', blit um out d, k')"
      and "length d = n" and "client_ok inv s'"
      and "client_base.truncate s' = (client_base.truncate session)\<lparr>stats :=
        stats_processed frames (elapsed_us (clock 0) (clock 1)) (stats session)\<rparr>"
      and "peer_keeps (eventFdIn session) (eventFdOut session) env \<Longrightarrow> keeps_resources (eventFdIn session) (eventFdOut session) k k'"
proof -
  let ?total = "ucast (frames * calculate_bytes_per_frame (config session)) :: u64"
  let ?P = "EffectClient_Process api env clock (Some session) (Some inp) (Some out) frames um k"
  have total: "unat ?total = n" using n by simp
  obtain a b where ab: "inputFmq session = Some a" "inv a" "outputFmq session = Some b" "inv b"
    using s(1) by (auto simp: client_ok_def)
  have "unat ?total \<le> length (drop inp um)" unfolding total using um by (auto simp: ranges_ok_def)
  then obtain m a1 where w: "api_write api (Some a) (Some (drop inp um)) ?total = Some (m, Some a1)" "inv a1"
    using api_write_SomeE [OF ab(2)] by metis
  let ?s1 = "session\<lparr>inputFmq := Some a1\<rparr>"
  have s1: "client_ok inv ?s1" using ab w by (simp add: client_ok_def)
  show thesis
  proof (cases "m < ?total")
    case True
    have "?P = Some (EFFECT_ERROR_TIMEOUT, Some (?s1\<lparr>stats := stats_xrun (stats session)\<rparr>),
        blit um out (take n (drop inp um)), k)"
      using fr s(2) w(1) ab(1) True memcpy_within_ok [OF um] n by (simp add: EffectClient_Process_def)
    then show thesis
      using s1 by (intro xrun) (auto simp: client_ok_def client_base.truncate_def)
  next
    case wrote: False
    obtain a2 b2 k2 sg k3 a4 b4 k4 wr k5 where p0: "run_peer env 0 (?s1, k) = (?s1\<lparr>inputFmq := Some a2, outputFmq := Some b2\<rparr>, k2)"
      and g: "effect_eventfd_signal (eventFdIn ?s1) k2 = (sg, k3)"
      and p1: "run_peer env 1 (?s1\<lparr>inputFmq := Some a2, outputFmq := Some b2\<rparr>, k3) = (?s1\<lparr>inputFmq := Some a4, outputFmq := Some b4\<rparr>, k4)"
        "inv a4" "inv b4"
      and wt: "effect_eventfd_wait (eventFdOut ?s1) TIMEOUT_MS k4 = (wr, k5)"
      and kp: "peer_keeps (eventFdIn ?s1) (eventFdOut ?s1) env \<Longrightarrow>
        keeps_resources (eventFdIn ?s1) (eventFdOut ?s1) k k5"
      by (rule client_gap [OF s(3) s1, of k]) (rule that)
    let ?s4 = "session\<lparr>inputFmq := Some a4, outputFmq := Some b4\<rparr>"
    note run = fr s(2) w(1) ab(1) wrote p0 g p1(1) wt
    show thesis
    proof (cases "wr < 0")
      case True
      have "?P = Some (EFFECT_ERROR_TIMEOUT, Some (?s4\<lparr>stats := stats_timeout (stats session)\<rparr>),
          blit um out (take n (drop inp um)), k5)"
        using run True memcpy_within_ok [OF um] n
        by (simp add: EffectClient_Process_def)
      then show thesis
        using p1 kp by (intro late) (auto simp: client_ok_def client_base.truncate_def)
    next
      case woke: False
      obtain a6 b6 k6 where p2: "run_peer env 2 (?s4, k5) = (?s4\<lparr>inputFmq := Some a6, outputFmq := Some b6\<rparr>, k6)"
          "inv a6" "inv b6"
        using run_peer_ok [OF s(3) client_okI [where good = inv, OF p1(2,3)]] by blast
      have kp6: "keeps_resources (eventFdIn session) (eventFdOut session) k k6"
        if "peer_keeps (eventFdIn session) (eventFdOut session) env"
        using kp that run_peer_keeps [OF that p2(1)] by (auto intro: keeps_trans)
      obtain g b7 d where r1: "api_read api (Some b6) (Some (drop out um)) ?total = Some (g, Some (blit (drop out um) 0 d), Some b7)"
        and r: "inv b7" "length d = unat g" "unat g \<le> n" "g < ?total \<longleftrightarrow> length d < n"
        and um1: "take out um @ blit (drop out um) 0 d = blit um out d"
        by (rule client_read [OF p2(3) um total]) (rule that)
      let ?s7 = "session\<lparr>inputFmq := Some a6, outputFmq := Some b7\<rparr>"
      show thesis
      proof (cases "g < ?total")
        case True
        then have ltn: "length d < n" using r(4) by simp
        have "?P = Some (EFFECT_ERROR_TIMEOUT, Some (?s7\<lparr>stats := stats_dropped frames (stats session)\<rparr>),
            blit um out (take n (drop inp (blit um out d))), k6)"
          using run woke p2(1) r1 um1 True memcpy_after_short_read [OF um ltn] n
          by (simp add: EffectClient_Process_def)
        then show thesis
          using p2 r ltn kp6 by (intro short) (auto simp: client_ok_def client_base.truncate_def)
      next
        case False
        then have eqn: "length d = n" using r(2-4) by simp
        have "?P = Some (EFFECT_OK, Some (?s7\<lparr>stats :=
            stats_processed frames (elapsed_us (clock 0) (clock 1)) (stats session)\<rparr>), blit um out d, k6)"
          using run woke p2(1) r1 um1 False n
          by (simp add: EffectClient_Process_def)
        then show thesis
          using p2 r eqn kp6 by (intro that(4)) (auto simp: client_ok_def client_base.truncate_def)
      qed
    qed
  qed
qed

end

section \<open>Opening\<close>

context fmq_backend
begin

lemma create_cases_backend:
  assumes "api_create api kind MAX_BUFFER_SIZE 1 k = (r, k')"
  obtains (throws) e where "r = Inl e"
    | (null) fs where "r = Inr None" and "k' = k\<lparr>faults := fs\<rparr>"
    | (made) q fs where "r = Inr (Some q)" and "inv q" and "contents q = []" and "limit q = 1048576"
        and "k' = k\<lparr>faults := fs, heap_blocks := heap_blocks k + blocks\<rparr>"
proof (cases r)
  case (Inl e)
  then show thesis by (rule throws)
next
  case (Inr h)
  have size: "unat MAX_BUFFER_SIZE * unat (1 :: u64) = 1048576" by (simp add: MAX_BUFFER_SIZE_def)
  have c: "api_create api kind MAX_BUFFER_SIZE 1 k = (Inr h, k')" using assms Inr by simp
  show thesis
  proof (cases h)
    case None
    then show thesis using null create_balance [OF c] Inr by auto
  next
    case (Some q)
    have "inv q \<and> contents q = [] \<and> limit q = 1048576"
      using created [OF c [unfolded Some]] unfolding size by simp
    then show thesis using made create_balance [OF c] Inr Some by auto
  qed
qed

lemma open_cases:
  assumes "EffectClient_Open api pid kind (Some conf) (Some old) k = (r, h, k')"
  obtains (throws) e where "r = Inl e"
    | (fails) fs where "r = Inr EFFECT_ERROR_NO_MEMORY" and "h = Some old" and "k' = k\<lparr>faults := fs\<rparr>"
    | (opens) a b fi fo fs where "r = Inr EFFECT_OK" and
        "h = Some (Some \<lparr>sessionId = pid, effectType = kind, config = conf, eventFdIn = int fi,
           eventFdOut = int fo, stats = zero_stats, isStarted = False, isConnected = True,
           inputFmq = Some a, outputFmq = Some b\<rparr>)"
        and "inv a" and "contents a = []" and "limit a = 1048576"
        and "inv b" and "contents b = []" and "limit b = 1048576"
        and "fi \<noteq> fo" and "fds k fi = None" and "fds k fo = None"
        and "k' = k\<lparr>faults := fs, fds := (fds k)(fi \<mapsto> EventFd 0, fo \<mapsto> EventFd 0),
              heap_blocks := heap_blocks k + Suc (2 * blocks)\<rparr>"
proof -
  note O = assms [unfolded EffectClient_Open_def Let_def, simplified]
  obtain ok k1 where a: "heap_alloc k = (ok, k1)" by fastforce
  then show thesis
  proof (cases rule: heap_alloc_cases)
    case (fails fs)
    then show thesis using O a by (intro that(2) [of fs]) auto
  next
    case (allocates fs)
    obtain r1 k2 where c1: "api_create api EFFECT_FMQ_SYNCHRONIZED MAX_BUFFER_SIZE 1 k1 = (r1, k2)" by fastforce
    then show thesis
    proof (cases rule: create_cases_backend)
      case (throws e)
      then show thesis using O a allocates c1 by (intro that(1) [of e]) auto
    next
      case (null fs)
      then show thesis using O a allocates c1 by (intro that(2) [of fs]) (auto simp: heap_free_def)
    next
      case A: (made qa fs1)
      obtain r2 k3 where c2: "api_create api EFFECT_FMQ_SYNCHRONIZED MAX_BUFFER_SIZE 1 k2 = (r2, k3)" by fastforce
      then show thesis
      proof (cases rule: create_cases_backend)
        case (throws e)
        then show thesis using O a allocates c1 A c2 by (intro that(1) [of e]) auto
      next
        case (null fs)
        then show thesis
          using O a allocates c1 A c2 destroy_balance [of "Some qa"]
          by (intro that(2) [of fs]) (auto simp: heap_free_def)
      next
        case B: (made qb fs2)
        obtain fdIn k4 where e1: "effect_eventfd_create 0 k3 = (fdIn, k4)" by fastforce
        obtain fdOut k5 where e2: "effect_eventfd_create 0 k4 = (fdOut, k5)" by fastforce
        note ctx = O a allocates c1 A c2 B e1 e2
        have d: "api_destroy api (Some qa) k = k\<lparr>heap_blocks := heap_blocks k - blocks\<rparr>"
          "api_destroy api (Some qb) k = k\<lparr>heap_blocks := heap_blocks k - blocks\<rparr>" for k
          using destroy_balance A(2) B(2) by simp_all
        from e1 e2 show thesis
        proof (cases rule: eventfd_pair_cases)
          case (fails fs)
          then show thesis using ctx d by (intro that(2) [of fs]) (auto simp: heap_free_def Let_def)
        next
          case (opens n m fs)
          have "fds k n = None" and "fds k m = None" using opens(4,5) B A allocates by auto
          then show thesis using ctx opens
            by (intro that(3) [where a = qa and b = qb and fi = n and fo = m and fs = fs]) auto
        qed
      qed
    qed
  qed
qed

end

end
