(* ===== verification/ClientLife.thy ===== *)
theory ClientLife
  imports Client
begin

text \<open>
  What a caller of \<open>client/include/effect_client.h\<close> can rely on in the message queue build, for
  every queue implementation that keeps \<open>fmq_backend\<close>: the guarantees of one call of
  \<open>EffectClient_Process\<close>, and of a whole session from \<open>EffectClient_Open\<close> through any sequence of
  calls to \<open>EffectClient_Close\<close>.
\<close>

section \<open>Sequences of calls on a session\<close>

datatype 'q client_op =
    Start
  | Process "'q peer" "nat \<Rightarrow> timespec" "nat option" "nat option" u32 bytes
  | SetParam u32 "bytes option" u32
  | QueryStats "EffectStats option"
  | Stop

fun client_step ::
  "'q fmq_api \<Rightarrow> 'q client_op \<Rightarrow> 'q EffectHandle \<times> kernel \<Rightarrow>
   (EffectResult \<times> 'q EffectHandle \<times> kernel) option" where
  "client_step api Start (h, k) = (case EffectClient_Start h of (r, h') \<Rightarrow> Some (r, h', k))"
| "client_step api (Process env clock inp out frames um) (h, k) = do {
     (r, h', um', k') \<leftarrow> EffectClient_Process api env clock h inp out frames um k;
     Some (r, h', k') }"
| "client_step api (SetParam key val sz) (h, k) = Some (EffectClient_SetParam h key val sz, h, k)"
| "client_step api (QueryStats st) (h, k) = Some (fst (EffectClient_QueryStats h st), h, k)"
| "client_step api Stop (h, k) = (case EffectClient_Stop h of (r, h') \<Rightarrow> Some (r, h', k))"

fun client_run ::
  "'q fmq_api \<Rightarrow> 'q client_op list \<Rightarrow> 'q EffectHandle \<times> kernel \<Rightarrow>
   (EffectResult list \<times> 'q EffectHandle \<times> kernel) option" where
  "client_run api [] (h, k) = Some ([], h, k)"
| "client_run api (op # ops) (h, k) = do {
     (r, h, k) \<leftarrow> client_step api op (h, k);
     (rs, h, k) \<leftarrow> client_run api ops (h, k);
     Some (r # rs, h, k) }"

text \<open>A processing call is in order when its buffers are null or in bounds for the session's
  format, and the service keeps the queues in order and touches only the two event counters.\<close>

fun client_op_ok :: "('q \<Rightarrow> bool) \<Rightarrow> EffectConfig \<Rightarrow> int \<Rightarrow> int \<Rightarrow> 'q client_op \<Rightarrow> bool" where
  "client_op_ok good conf fi fo (Process env clock inp out frames um) =
     (peer_ok good env \<and> peer_keeps fi fo env \<and>
      (case (inp, out) of
         (Some i, Some j) \<Rightarrow> ranges_ok um i j (unat (frames * calculate_bytes_per_frame conf))
       | _ \<Rightarrow> True))"
| "client_op_ok good conf fi fo _ = True"

text \<open>What stays of a session through its life.\<close>

definition same_session :: "'q EffectSession \<Rightarrow> 'q EffectSession \<Rightarrow> bool" where
  "same_session s s' \<longleftrightarrow> config s' = config s \<and> eventFdIn s' = eventFdIn s \<and>
     eventFdOut s' = eventFdOut s \<and> isConnected s' = isConnected s"

lemma same_session_refl [simp]: "same_session s s"
  by (simp add: same_session_def)

lemma same_session_trans: "same_session s t \<Longrightarrow> same_session t u \<Longrightarrow> same_session s u"
  by (simp add: same_session_def)

lemma truncate_same:
  assumes "client_base.truncate s' = (client_base.truncate s)\<lparr>stats := st\<rparr>"
  shows "same_session s s' \<and> isStarted s' = isStarted s \<and> stats s' = st"
  using assms by (simp add: client_base.truncate_def same_session_def)

text \<open>Calls that return before any work.\<close>

lemma process_rejects:
  "frames = 0 \<Longrightarrow> EffectClient_Process api env clock h inp out frames um k =
     Some (EFFECT_ERROR_INVALID_ARGUMENTS, h, um, k)"
  "EffectClient_Process api env clock h None out frames um k =
     Some (EFFECT_ERROR_INVALID_ARGUMENTS, h, um, k)"
  "EffectClient_Process api env clock h inp None frames um k =
     Some (EFFECT_ERROR_INVALID_ARGUMENTS, h, um, k)"
  "frames \<noteq> 0 \<Longrightarrow> \<not> isStarted s \<Longrightarrow> EffectClient_Process api env clock (Some s) (Some i) (Some j) frames um k =
     Some (EFFECT_ERROR_INVALID_STATE, Some s, um, k)"
  by (auto simp: EffectClient_Process_def split: option.splits)

context fmq_backend
begin

lemma process_step:
  assumes s: "client_ok inv s" and op: "client_op_ok inv (config s) (eventFdIn s) (eventFdOut s)
      (Process env clock inp out frames um)"
  shows "\<exists>r s' um' k'. EffectClient_Process api env clock (Some s) inp out frames um k =
      Some (r, Some s', um', k') \<and>
    r \<noteq> EFFECT_ERROR_DEAD_OBJECT \<and> client_ok inv s' \<and> same_session s s' \<and>
    keeps_resources (eventFdIn s) (eventFdOut s) k k'"
proof (cases "frames = 0 \<or> inp = None \<or> out = None")
  case True
  then show ?thesis by (elim disjE) (simp_all add: process_rejects(1-3) s)
next
  case False
  then obtain i j where ij: "inp = Some i" "out = Some j" "frames \<noteq> 0" by auto
  show ?thesis
  proof (cases "isStarted s")
    case False
    then show ?thesis using s ij by (simp add: process_rejects(4))
  next
    case True
    have ok: "peer_ok inv env" "ranges_ok um i j (unat (frames * calculate_bytes_per_frame (config s)))"
        "peer_keeps (eventFdIn s) (eventFdOut s) env"
      using op ij by auto
    show ?thesis
      using process_cases [OF s True ok(1) ij(3) refl ok(2), of clock k] ok(3) ij
      by (cases rule: process_cases [OF s True ok(1) ij(3) refl ok(2), of clock k])
        (use truncate_same in \<open>fastforce+\<close>)
  qed
qed

text \<open>A block that does not fit.\<close>

lemma process_full:
  assumes a: "inputFmq s = Some a" "inv a" and s: "isStarted s" "frames \<noteq> 0"
    and n: "n = unat (frames * calculate_bytes_per_frame (config s))" and um: "ranges_ok um inp out n"
    and full: "limit a < length (contents a) + n"
  shows "\<exists>m a'. EffectClient_Process api env clock (Some s) (Some inp) (Some out) frames um k =
      Some (EFFECT_ERROR_TIMEOUT, Some (s\<lparr>inputFmq := Some a', stats := stats_xrun (stats s)\<rparr>),
        blit um out (take n (drop inp um)), k) \<and>
    m < n \<and> inv a' \<and> contents a' = contents a @ take m (drop inp um)"
proof -
  let ?total = "ucast (frames * calculate_bytes_per_frame (config s)) :: u64"
  have total: "unat ?total = n" using n by simp
  have len: "unat ?total \<le> length (drop inp um)" unfolding total using um by (auto simp: ranges_ok_def)
  obtain m a' where w: "api_write api (Some a) (Some (drop inp um)) ?total = Some (m, Some a')" "inv a'"
      "limit a' = limit a" "m \<le> ?total" "contents a' = contents a @ take (unat m) (drop inp um)"
    using api_write_SomeE [OF a(2) len] by blast
  have "unat m \<le> length (drop inp um)" using w(4) len by (simp add: word_le_nat_alt)
  then have "unat m < n" using contents_bound [OF w(2)] w(3,5) full by simp
  then have "m < ?total" using total by (simp add: word_less_nat_alt)
  then have "EffectClient_Process api env clock (Some s) (Some inp) (Some out) frames um k =
      Some (EFFECT_ERROR_TIMEOUT, Some (s\<lparr>inputFmq := Some a', stats := stats_xrun (stats s)\<rparr>),
        blit um out (take n (drop inp um)), k)"
    using s a w(1) memcpy_within_ok [OF um] n by (simp add: EffectClient_Process_def)
  then show ?thesis using \<open>unat m < n\<close> w by blast
qed

lemma client_step_ok:
  assumes "client_ok inv s" and "client_op_ok inv (config s) (eventFdIn s) (eventFdOut s) op"
    and "isConnected s"
  shows "\<exists>r s' k'. client_step api op (Some s, k) = Some (r, Some s', k') \<and>
    r \<noteq> EFFECT_ERROR_DEAD_OBJECT \<and> client_ok inv s' \<and> same_session s s' \<and>
    keeps_resources (eventFdIn s) (eventFdOut s) k k'"
proof (cases op)
  case (Process env clock inp out frames um)
  obtain r s' um' k' where "EffectClient_Process api env clock (Some s) inp out frames um k =
      Some (r, Some s', um', k')" "r \<noteq> EFFECT_ERROR_DEAD_OBJECT" "client_ok inv s'" "same_session s s'"
      "keeps_resources (eventFdIn s) (eventFdOut s) k k'"
    using process_step [OF assms(1) assms(2) [unfolded Process]] by blast
  then show ?thesis by (simp add: Process)
next
  case Start
  have "client_ok inv (s\<lparr>isStarted := True\<rparr>)" using assms(1) by (simp add: client_ok_def)
  then show ?thesis
    using assms(3) by (simp add: Start EffectClient_Start_def same_session_def)
next
  case Stop
  have "client_ok inv (s\<lparr>isStarted := False\<rparr>)" using assms(1) by (simp add: client_ok_def)
  then show ?thesis by (simp add: Stop EffectClient_Stop_def same_session_def)
next
  case (SetParam key val sz)
  then show ?thesis
    using assms by (simp add: EffectClient_SetParam_def split: option.split)
next
  case (QueryStats st)
  then show ?thesis
    using assms by (simp add: EffectClient_QueryStats_def split: option.split)
qed

lemma client_run_ok:
  assumes "client_ok inv s" and "isConnected s"
    and "list_all (client_op_ok inv (config s) (eventFdIn s) (eventFdOut s)) ops"
  shows "\<exists>rs s' k'. client_run api ops (Some s, k) = Some (rs, Some s', k') \<and>
    EFFECT_ERROR_DEAD_OBJECT \<notin> set rs \<and> client_ok inv s' \<and> same_session s s' \<and>
    keeps_resources (eventFdIn s) (eventFdOut s) k k'"
  using assms
proof (induction ops arbitrary: s k)
  case Nil
  then show ?case by simp
next
  case (Cons op ops)
  obtain r s1 k1 where 1: "client_step api op (Some s, k) = Some (r, Some s1, k1)"
      "r \<noteq> EFFECT_ERROR_DEAD_OBJECT" "client_ok inv s1" "same_session s s1"
      "keeps_resources (eventFdIn s) (eventFdOut s) k k1"
    using client_step_ok [OF Cons.prems(1) _ Cons.prems(2), of op k] Cons.prems(3) by auto
  have "list_all (client_op_ok inv (config s1) (eventFdIn s1) (eventFdOut s1)) ops" "isConnected s1"
    using Cons.prems 1(4) by (simp_all add: same_session_def)
  then obtain rs s2 k2 where 2: "client_run api ops (Some s1, k1) = Some (rs, Some s2, k2)"
      "EFFECT_ERROR_DEAD_OBJECT \<notin> set rs" "client_ok inv s2" "same_session s1 s2"
      "keeps_resources (eventFdIn s1) (eventFdOut s1) k1 k2"
    using Cons.IH [OF 1(3)] by blast
  have "keeps_resources (eventFdIn s) (eventFdOut s) k k2"
    using keeps_trans 1(4,5) 2(5) by (fastforce simp: same_session_def)
  then show ?case
    using 1 2 same_session_trans [OF 1(4) 2(4)] by auto
qed

lemma close_restores:
  assumes s: "client_ok inv s" "eventFdIn s = int fi" "eventFdOut s = int fo"
    and keep: "keeps_resources (int fi) (int fo) k1 k2"
    and k1: "k1 = k\<lparr>faults := fs, fds := (fds k)(fi \<mapsto> EventFd 0, fo \<mapsto> EventFd 0),
      heap_blocks := heap_blocks k + Suc (2 * blocks)\<rparr>" "fds k fi = None" "fds k fo = None"
  shows "fst (EffectClient_Close api (Some s) k2) = EFFECT_OK \<and>
    resources (snd (EffectClient_Close api (Some s) k2)) = resources k"
proof -
  obtain a b where ab: "inputFmq s = Some a" "inv a" "outputFmq s = Some b" "inv b"
    using s(1) by (auto simp: client_ok_def)
  have d: "api_destroy api (Some a) k = k\<lparr>heap_blocks := heap_blocks k - blocks\<rparr>"
    "api_destroy api (Some b) k = k\<lparr>heap_blocks := heap_blocks k - blocks\<rparr>" for k
    using destroy_balance ab by simp_all
  have "(fds k2)(fi := None, fo := None) = fds k"
    using keep k1 by (auto simp: keeps_resources_def)
  then show ?thesis
    using keep ab s(2,3)
    by (simp add: EffectClient_Close_def d sys_close_def heap_free_def resources_def keeps_resources_def k1(1))
qed

end

section \<open>A concrete session\<close>

text \<open>Mono, 16 bits: two bytes per frame.\<close>

definition small_config :: EffectConfig where
  "small_config = \<lparr>sampleRate = 48000, channels = 1, format = 16, framesPerBuffer = 1\<rparr>"

definition small_session :: "EffectFmqContext EffectSession" where
  "small_session = \<lparr>sessionId = 7, effectType = EFFECT_TYPE_NOISE_REDUCTION, config = small_config,
     eventFdIn = 0, eventFdOut = 1, stats = zero_stats, isStarted = True, isConnected = True,
     inputFmq = Some small_queue, outputFmq = Some small_queue\<rparr>"

definition idle_peer :: "'q peer" where
  "idle_peer i abk = abk"

lemma small_session_ok:
  "client_ok fmq_inv small_session" "isStarted small_session" "config small_session = small_config"
  by (simp_all add: small_session_def client_ok_def small_queue_ok)

lemma idle_peer_ok: "peer_ok good idle_peer" "peer_keeps fi fo idle_peer"
  by (simp_all add: idle_peer_def peer_ok_def peer_keeps_def)

lemma small_bytes: "calculate_bytes_per_frame small_config = 2"
  by (simp add: calculate_bytes_per_frame_def small_config_def)

text \<open>A call while nobody serves the queues.\<close>

lemma run_idle: "run_peer idle_peer i (s, k) = (s, k)"
  by (simp add: run_peer_def idle_peer_def split: option.split)

lemma process_idle:
  assumes "api_write api (inputFmq s) (Some (drop inp um)) (ucast (frames * calculate_bytes_per_frame (config s))) = Some (m, q)"
    and "\<not> m < ucast (frames * calculate_bytes_per_frame (config s))"
    and "isStarted s" and "frames \<noteq> 0" and "ranges_ok um inp out (unat (frames * calculate_bytes_per_frame (config s)))"
  shows "EffectClient_Process api idle_peer clock (Some s) (Some inp) (Some out) frames um (fresh_kernel []) =
    Some (EFFECT_ERROR_TIMEOUT, Some (s\<lparr>inputFmq := q, stats := stats_timeout (stats s)\<rparr>),
     blit um out (take (unat (frames * calculate_bytes_per_frame (config s))) (drop inp um)), fresh_kernel [])"
  using assms by (simp add: EffectClient_Process_def run_idle closed_events fresh_closed memcpy_within_ok)

lemma small_write:
  "\<exists>q. api_write fallback_api (inputFmq small_session) (Some (drop 0 [1, 2, 0, 0])) (ucast (1 * 2 :: u32)) = Some (2, q)"
proof -
  obtain m q where w: "api_write fallback_api (Some small_queue) (Some [1, 2, 0, 0]) 2 = Some (m, Some q)"
      "length (fmq_contents small_queue) + unat (2 :: u64) \<le> fmq_limit small_queue \<Longrightarrow> m = 2"
    by (rule fallback.api_write_SomeE [OF small_queue_ok(1), of 2 "[1, 2, 0, 0]"]) auto
  have "m = 2" using w(2) by (simp add: small_queue_ok)
  then show ?thesis using w(1) by (simp add: small_session_def)
qed

section \<open>Properties\<close>

text \<open>C3. A processing call on a started session, whose buffers are in bounds and do not partly
  overlap, has no undefined behaviour whatever the service does to the queues: it returns
  \<open>EFFECT_OK\<close> or \<open>EFFECT_ERROR_TIMEOUT\<close>, writes nothing outside the output range, and leaves a
  session that is as good as before.\<close>

theorem client_process_safe:
  assumes "fmq_backend good contents limit api blks" and "client_ok good session" and "isStarted session"
    and "peer_ok good env" and "frames \<noteq> 0"
    and "n = unat (frames * calculate_bytes_per_frame (config session))" and "ranges_ok um inp out n"
  shows "\<exists>r s' um' k'. EffectClient_Process api env clock (Some session) (Some inp) (Some out) frames um k =
      Some (r, Some s', um', k') \<and> r \<in> {EFFECT_OK, EFFECT_ERROR_TIMEOUT} \<and>
    client_ok good s' \<and> same_session session s' \<and> isStarted s' \<and>
    length um' = length um \<and> take out um' = take out um \<and> drop (out + n) um' = drop (out + n) um"
proof -
  have outside: "length (blit um out xs) = length um \<and> take out (blit um out xs) = take out um \<and>
      drop (out + n) (blit um out xs) = drop (out + n) um" if "length xs = n" for xs
    using that assms(7) by (auto simp: ranges_ok_def blit_def)
  have x: "length (take n (drop inp um)) = n" using assms(7) by (auto simp: ranges_ok_def)
  show ?thesis
  proof (cases rule: fmq_backend.process_cases [OF assms(1-7), of clock k, case_names xrun late short delivered])
    case (xrun s')
    then show ?thesis using outside [OF x] truncate_same [OF xrun(3)] assms(3) by blast
  next
    case (late s' k')
    then show ?thesis using outside [OF x] truncate_same [OF late(3)] assms(3) by blast
  next
    case (short s' k' d)
    have "length (take n (drop inp (blit um out d))) = n" using assms(7) short(2) by (auto simp: ranges_ok_def)
    then show ?thesis using outside short truncate_same [OF short(4)] assms(3) by blast
  next
    case (delivered s' k' d)
    then show ?thesis using outside [OF delivered(2)] truncate_same [OF delivered(4)] assms(3) by blast
  qed
qed

theorem client_process_safe_witness:
  "\<exists>r s' um' k'. EffectClient_Process fallback_api idle_peer (\<lambda>i. \<lparr>tv_sec = 0, tv_nsec = 0\<rparr>) (Some small_session)
      (Some 0) (Some 2) 1 [1, 2, 0, 0] (fresh_kernel []) = Some (r, Some s', um', k') \<and>
    r \<in> {EFFECT_OK, EFFECT_ERROR_TIMEOUT} \<and> client_ok fmq_inv s' \<and> same_session small_session s' \<and>
    isStarted s' \<and> length um' = length [1, 2, 0, 0 :: u8] \<and> take 2 um' = take 2 [1, 2, 0, 0] \<and>
    drop (2 + 2) um' = drop (2 + 2) [1, 2, 0, 0]"
  by (rule client_process_safe [OF fallback.fmq_backend_axioms small_session_ok(1,2) idle_peer_ok(1)])
    (simp_all add: small_session_ok small_bytes ranges_ok_def)

text \<open>C10. A time-out means passthrough: with separate input and output ranges, every call that
  returns \<open>EFFECT_ERROR_TIMEOUT\<close> has copied its input to its output, whether the queue was full,
  the wait expired, or too little came back.\<close>

theorem client_timeout_is_passthrough:
  assumes "fmq_backend good contents limit api blks" and "client_ok good session" and "isStarted session"
    and "peer_ok good env" and "frames \<noteq> 0"
    and "n = unat (frames * calculate_bytes_per_frame (config session))" and "ranges_ok um inp out n"
    and "inp + n \<le> out \<or> out + n \<le> inp"
    and "EffectClient_Process api env clock (Some session) (Some inp) (Some out) frames um k =
      Some (EFFECT_ERROR_TIMEOUT, h', um', k')"
  shows "take n (drop out um') = take n (drop inp um)"
proof -
  have x: "length (take n (drop inp um)) = n" and b: "out + n \<le> length um"
    using assms(7) by (auto simp: ranges_ok_def)
  have copied: "take n (drop out (blit um out (take n (drop inp um)))) = take n (drop inp um)"
    using load_blit [of out "take n (drop inp um)" um] x b by simp
  show ?thesis
  proof (cases rule: fmq_backend.process_cases [OF assms(1-7), of clock k, case_names xrun late short delivered])
    case (short s' k' d)
    have "take n (drop inp (blit um out d)) = take n (drop inp um)"
      using assms(8) b short(2) by (intro load_blit_disjoint) auto
    then show ?thesis using short(1) assms(9) copied by simp
  qed (use assms(9) copied in auto)
qed

text \<open>Nothing ever arrives: the call times out with the input copied.\<close>

theorem client_timeout_is_passthrough_witness:
  "\<exists>h' um' k'. EffectClient_Process fallback_api idle_peer (\<lambda>i. \<lparr>tv_sec = 0, tv_nsec = 0\<rparr>) (Some small_session)
      (Some 0) (Some 2) 1 [1, 2, 0, 0] (fresh_kernel []) = Some (EFFECT_ERROR_TIMEOUT, h', um', k') \<and>
    take 2 (drop 2 um') = [1, 2]"
proof -
  have two: "1 * calculate_bytes_per_frame (config small_session) = 2" "unat (2 :: u32) = 2"
    by (simp_all add: small_session_ok small_bytes)
  have rg: "ranges_ok [1, 2, 0, 0] 0 2 2" by (simp add: ranges_ok_def)
  obtain q where "api_write fallback_api (inputFmq small_session) (Some (drop 0 [1, 2, 0, 0])) (ucast (1 * 2 :: u32)) = Some (2, q)"
    using small_write by blast
  then have "\<exists>h' um' k'. EffectClient_Process fallback_api idle_peer (\<lambda>i. \<lparr>tv_sec = 0, tv_nsec = 0\<rparr>) (Some small_session)
      (Some 0) (Some 2) 1 [1, 2, 0, 0] (fresh_kernel []) = Some (EFFECT_ERROR_TIMEOUT, h', um', k')"
    using process_idle [of fallback_api small_session 0 "[1, 2, 0, 0]" 1 2 q 2] rg
    by (simp add: small_session_ok small_bytes two)
  moreover have "2 = unat (1 * calculate_bytes_per_frame (config small_session))" by (simp only: two)
  ultimately show ?thesis
    using client_timeout_is_passthrough [OF fallback.fmq_backend_axioms small_session_ok(1,2) idle_peer_ok(1),
        of 1 2 "[1, 2, 0, 0]" 0 2] rg by fastforce
qed

text \<open>C23. The statistics account for every call exactly once: \<open>EFFECT_OK\<close> adds the frames and the
  measured latency, \<open>EFFECT_ERROR_TIMEOUT\<close> counts one overrun, or one time-out, or the frames as
  dropped, and nothing else changes.\<close>

theorem client_process_accounting:
  assumes "fmq_backend good contents limit api blks" and "client_ok good session" and "isStarted session"
    and "peer_ok good env" and "frames \<noteq> 0"
    and "n = unat (frames * calculate_bytes_per_frame (config session))" and "ranges_ok um inp out n"
  shows "\<exists>r s' um' k'. EffectClient_Process api env clock (Some session) (Some inp) (Some out) frames um k =
      Some (r, Some s', um', k') \<and>
    (r = EFFECT_OK \<and> stats s' = stats_processed frames (elapsed_us (clock 0) (clock 1)) (stats session) \<or>
     r = EFFECT_ERROR_TIMEOUT \<and>
       stats s' \<in> {stats_xrun (stats session), stats_timeout (stats session), stats_dropped frames (stats session)})"
proof (cases rule: fmq_backend.process_cases [OF assms(1-7), of clock k, case_names xrun late short delivered])
  case (xrun s')
  then show ?thesis using truncate_same by blast
next
  case (late s' k')
  then show ?thesis using truncate_same by blast
next
  case (short s' k' d)
  then show ?thesis using truncate_same by blast
next
  case (delivered s' k' d)
  then show ?thesis using truncate_same by blast
qed

theorem client_process_accounting_witness:
  "\<exists>r s' um' k'. EffectClient_Process fallback_api idle_peer (\<lambda>i. \<lparr>tv_sec = 0, tv_nsec = 0\<rparr>) (Some small_session)
      (Some 0) (Some 0) 1 [1, 2] (fresh_kernel []) = Some (r, Some s', um', k') \<and>
    (r = EFFECT_OK \<and> stats s' = stats_processed 1 (elapsed_us \<lparr>tv_sec = 0, tv_nsec = 0\<rparr> \<lparr>tv_sec = 0, tv_nsec = 0\<rparr>)
       (stats small_session) \<or>
     r = EFFECT_ERROR_TIMEOUT \<and>
       stats s' \<in> {stats_xrun (stats small_session), stats_timeout (stats small_session), stats_dropped 1 (stats small_session)})"
  by (rule client_process_accounting [OF fallback.fmq_backend_axioms small_session_ok(1,2) idle_peer_ok(1), of 1 2])
    (simp_all add: small_session_ok small_bytes ranges_ok_def)



text \<open>C15. A session's whole life is free of undefined behaviour and of leaks: after a successful
  open, any sequence of calls in any order (with buffers in bounds and a service that touches only
  what it shares) runs to its end without \<open>EFFECT_ERROR_DEAD_OBJECT\<close>, and closing the session then
  gives every resource back.\<close>

theorem client_life_no_leak:
  assumes "fmq_backend good contents limit api blks"
    and "EffectClient_Open api pid kind (Some conf) (Some old) k = (Inr EFFECT_OK, Some (Some s), k1)"
    and "list_all (client_op_ok good conf (eventFdIn s) (eventFdOut s)) ops"
  shows "\<exists>rs s' k2. client_run api ops (Some s, k1) = Some (rs, Some s', k2) \<and>
    EFFECT_ERROR_DEAD_OBJECT \<notin> set rs \<and>
    fst (EffectClient_Close api (Some s') k2) = EFFECT_OK \<and>
    resources (snd (EffectClient_Close api (Some s') k2)) = resources k"
proof (cases rule: fmq_backend.open_cases [OF assms(1,2), case_names throws fails opens])
  case (opens a b fi fo fs)
  have s: "client_ok good s" "isConnected s" "config s = conf" "eventFdIn s = int fi" "eventFdOut s = int fo"
    using opens by (auto simp: client_ok_def)
  obtain rs s' k2 where run: "client_run api ops (Some s, k1) = Some (rs, Some s', k2)"
      "EFFECT_ERROR_DEAD_OBJECT \<notin> set rs" "client_ok good s'" "same_session s s'"
      "keeps_resources (eventFdIn s) (eventFdOut s) k1 k2"
    using fmq_backend.client_run_ok [OF assms(1) s(1,2)] assms(3) s(3) by blast
  have "eventFdIn s' = int fi" "eventFdOut s' = int fo" using run(4) s by (simp_all add: same_session_def)
  then show ?thesis
    using fmq_backend.close_restores [OF assms(1) run(3)] run s opens(12) opens(10,11) by simp
qed simp_all

theorem client_life_no_leak_witness:
  "\<exists>s k1. EffectClient_Open fallback_api 7 EFFECT_TYPE_NOISE_REDUCTION (Some small_config) (Some None) (fresh_kernel []) =
      (Inr EFFECT_OK, Some (Some s), k1) \<and>
    (\<exists>rs s' k2. client_run fallback_api [Start, Process idle_peer (\<lambda>i. \<lparr>tv_sec = 0, tv_nsec = 0\<rparr>) (Some 0) (Some 2) 1
        [1, 2, 0, 0], Stop] (Some s, k1) = Some (rs, Some s', k2) \<and>
      resources (snd (EffectClient_Close fallback_api (Some s') k2)) = resources (fresh_kernel []))"
proof -
  have "\<exists>s k1. EffectClient_Open fallback_api 7 EFFECT_TYPE_NOISE_REDUCTION (Some small_config) (Some None) (fresh_kernel []) =
      (Inr EFFECT_OK, Some (Some s), k1)"
    by (simp add: EffectClient_Open_def fallback_api_def effect_fmq_create_def heap_alloc_def take_fault_def
        fresh_kernel_def effect_eventfd_create_def new_fd_def lowest_fd_def upt_conv_Cons Let_def)
  then obtain s k1 where o: "EffectClient_Open fallback_api 7 EFFECT_TYPE_NOISE_REDUCTION (Some small_config)
      (Some None) (fresh_kernel []) = (Inr EFFECT_OK, Some (Some s), k1)" by blast
  have "list_all (client_op_ok fmq_inv small_config (eventFdIn s) (eventFdOut s))
      [Start, Process idle_peer (\<lambda>i. \<lparr>tv_sec = 0, tv_nsec = 0\<rparr>) (Some 0) (Some 2) 1 [1, 2, 0, 0], Stop]"
    by (simp add: idle_peer_ok small_bytes ranges_ok_def)
  then show ?thesis
    using client_life_no_leak [OF fallback.fmq_backend_axioms o] o by blast
qed

text \<open>A block that does not fit the input queue is an overrun: the call times out at once with
  the input copied to the output and the service not woken; no partial write makes it succeed.\<close>

theorem client_full_queue_is_xrun:
  assumes "fmq_backend good contents limit api blks" and "inputFmq s = Some a" and "good a"
    and "isStarted s" and "frames \<noteq> 0"
    and "n = unat (frames * calculate_bytes_per_frame (config s))" and "ranges_ok um inp out n"
    and "limit a < length (contents a) + n"
  shows "\<exists>a'. EffectClient_Process api env clock (Some s) (Some inp) (Some out) frames um k =
    Some (EFFECT_ERROR_TIMEOUT, Some (s\<lparr>inputFmq := Some a', stats := stats_xrun (stats s)\<rparr>),
      blit um out (take n (drop inp um)), k)"
  using fmq_backend.process_full [OF assms] by blast

text \<open>Three frames of two bytes and a queue of four bytes.\<close>

theorem client_full_queue_is_xrun_witness:
  "\<exists>a'. EffectClient_Process fallback_api idle_peer (\<lambda>i. \<lparr>tv_sec = 0, tv_nsec = 0\<rparr>) (Some small_session)
      (Some 0) (Some 6) 3 [1, 2, 3, 4, 5, 6, 0, 0, 0, 0, 0, 0] (fresh_kernel []) =
    Some (EFFECT_ERROR_TIMEOUT, Some (small_session\<lparr>inputFmq := Some a', stats := stats_xrun (stats small_session)\<rparr>),
      [1, 2, 3, 4, 5, 6, 1, 2, 3, 4, 5, 6], fresh_kernel [])"
proof -
  have "inputFmq small_session = Some small_queue" by (simp add: small_session_def)
  moreover have "6 = unat (3 * calculate_bytes_per_frame (config small_session))"
    by (simp add: small_session_ok small_bytes)
  moreover have "ranges_ok [1, 2, 3, 4, 5, 6, 0, 0, 0, 0, 0, 0] 0 6 6" by (simp add: ranges_ok_def)
  ultimately show ?thesis
    using client_full_queue_is_xrun [OF fallback.fmq_backend_axioms, of small_session small_queue 3 6
        "[1, 2, 3, 4, 5, 6, 0, 0, 0, 0, 0, 0]" 0 6]
    by (simp add: small_queue_ok small_session_ok blit_def)
qed



end
