(* ===== verification/ShmClient.thy ===== *)
theory ShmClient
  imports Client
begin

text \<open>
  The shared memory build of \<open>client/src/effect_client.c\<close> (\<open>USE_SHARED_MEMORY\<close>, what the
  \<open>Makefile\<close> builds). The two ring buffers lie in one shared mapping; their index structures are
  fields of the session, so they are private to the client. \<open>rb_data\<close> is an offset into the
  mapping. The service can change the contents of the mapping and the events, which \<open>env i\<close>
  does in the \<open>i\<close>-th gap of a call.
\<close>

section \<open>The mapping as a block of memory\<close>

definition shm_load :: "nat \<Rightarrow> kernel \<Rightarrow> bytes option" where
  "shm_load addr k =
     (case mappings k addr of
        None \<Rightarrow> None
      | Some (i, n) \<Rightarrow>
          if i < length (files k) \<and> n \<le> length (files k ! i) then Some (take n (files k ! i)) else None)"

definition shm_store :: "nat \<Rightarrow> bytes \<Rightarrow> kernel \<Rightarrow> kernel" where
  "shm_store addr m k =
     (case mappings k addr of
        None \<Rightarrow> k
      | Some (i, n) \<Rightarrow> k\<lparr>files := (files k)[i := m @ drop n (files k ! i)]\<rparr>)"

lemma shm_load_store:
  "shm_load addr k = Some m \<Longrightarrow> length m' = length m \<Longrightarrow> shm_load addr (shm_store addr m' k) = Some m'"
  by (auto simp: shm_load_def shm_store_def split: option.splits if_splits)

lemma shm_load_event:
  assumes "event_frame fd k k'"
  shows "shm_load addr k' = shm_load addr k"
  unfolding shm_load_def event_frameD(1) [OF assms] event_frameD(2) [OF assms] ..

section \<open>The functions\<close>

type_synonym ShmEffectHandle = "ShmEffectSession option"

type_synonym shm_peer = "nat \<Rightarrow> kernel \<Rightarrow> kernel"

definition shm_EffectClient_Open ::
  "u32 \<Rightarrow> EffectType \<Rightarrow> EffectConfig option \<Rightarrow> ShmEffectHandle option \<Rightarrow> kernel \<Rightarrow>
   EffectResult \<times> ShmEffectHandle option \<times> kernel" where
  "shm_EffectClient_Open pid kind cfg handle k =
     (case (cfg, handle) of
        (Some conf, Some old) \<Rightarrow>
          let (ok, k) = heap_alloc k in
          if \<not> ok then (EFFECT_ERROR_NO_MEMORY, handle, k)
          else
            let ringBufferSize = MAX_BUFFER_SIZE;
                size_shm = ringBufferSize * 2;
                (fd, k) = effect_shared_memory_create ''effect_shm'' size_shm k in
            if fd < 0 then (EFFECT_ERROR_NO_MEMORY, handle, heap_free k)
            else
              let (addr, k) = effect_shared_memory_map fd size_shm k in
              if addr = 0 then (EFFECT_ERROR_NO_MEMORY, handle, heap_free (sys_close fd k))
              else
                let inRb = effect_ringbuffer_init 0 (ucast ringBufferSize);
                    outRb = effect_ringbuffer_init (unat ringBufferSize) (ucast ringBufferSize);
                    (fdIn, k) = effect_eventfd_create 0 k;
                    (fdOut, k) = effect_eventfd_create 0 k in
                if fdIn < 0 \<or> fdOut < 0 then
                  let k = (if fdIn \<ge> 0 then sys_close fdIn k else k);
                      k = (if fdOut \<ge> 0 then sys_close fdOut k else k);
                      (u, k) = effect_shared_memory_unmap addr size_shm k;
                      k = sys_close fd k
                  in (EFFECT_ERROR_NO_MEMORY, handle, heap_free k)
                else
                  (EFFECT_OK,
                   Some (Some \<lparr>sessionId = pid, effectType = kind, config = conf,
                     eventFdIn = fdIn, eventFdOut = fdOut, stats = zero_stats,
                     isStarted = False, isConnected = True,
                     shmFd = fd, shmAddr = addr, shmSize = size_shm, inputRb = inRb, outputRb = outRb\<rparr>), k)
      | _ \<Rightarrow> (EFFECT_ERROR_INVALID_ARGUMENTS, handle, k))"

definition shm_EffectClient_Process ::
  "shm_peer \<Rightarrow> (nat \<Rightarrow> timespec) \<Rightarrow> ShmEffectHandle \<Rightarrow> nat option \<Rightarrow> nat option \<Rightarrow> u32 \<Rightarrow>
   bytes \<Rightarrow> kernel \<Rightarrow> (EffectResult \<times> ShmEffectHandle \<times> bytes \<times> kernel) option" where
  "shm_EffectClient_Process env clock handle input output frames um k =
     (case (handle, input, output) of
        (Some session, Some inp, Some out) \<Rightarrow>
          if frames = 0 then Some (EFFECT_ERROR_INVALID_ARGUMENTS, handle, um, k)
          else if \<not> isStarted session then Some (EFFECT_ERROR_INVALID_STATE, handle, um, k)
          else do {
            let start_time = clock 0;
            let bytesPerFrame = calculate_bytes_per_frame (config session);
            let totalBytes = frames * bytesPerFrame;
            mem \<leftarrow> shm_load (shmAddr session) k;
            (written, rb, mem) \<leftarrow> effect_ringbuffer_write (inputRb session) mem (drop inp um) totalBytes;
            let session = session\<lparr>inputRb := rb\<rparr>;
            let k = shm_store (shmAddr session) mem k;
            if written < totalBytes then do {
              let session = session\<lparr>stats := stats_xrun (stats session)\<rparr>;
              Some (EFFECT_ERROR_TIMEOUT, Some session, um, k) }
            else do {
              let k = env 0 k;
              let (sig, k) = effect_eventfd_signal (eventFdIn session) k;
              let k = env 1 k;
              let (wait_result, k) = effect_eventfd_wait (eventFdOut session) TIMEOUT_MS k;
              if wait_result < 0 then do {
                let session = session\<lparr>stats := stats_timeout (stats session)\<rparr>;
                um \<leftarrow> memcpy_within um out inp (unat totalBytes);
                Some (EFFECT_ERROR_TIMEOUT, Some session, um, k) }
              else do {
                let k = env 2 k;
                mem \<leftarrow> shm_load (shmAddr session) k;
                (got, dst, rb) \<leftarrow> effect_ringbuffer_read (outputRb session) mem (drop out um) totalBytes;
                let session = session\<lparr>outputRb := rb\<rparr>;
                let um = take out um @ dst;
                if got < totalBytes then do {
                  um \<leftarrow> memcpy_within um out inp (unat totalBytes);
                  let session = session\<lparr>stats := stats_dropped frames (stats session)\<rparr>;
                  Some (EFFECT_ERROR_TIMEOUT, Some session, um, k) }
                else do {
                  let latency = elapsed_us start_time (clock 1);
                  let session = session\<lparr>stats := stats_processed frames latency (stats session)\<rparr>;
                  Some (EFFECT_OK, Some session, um, k) } } } }
      | _ \<Rightarrow> Some (EFFECT_ERROR_INVALID_ARGUMENTS, handle, um, k))"

definition shm_EffectClient_Close :: "ShmEffectHandle \<Rightarrow> kernel \<Rightarrow> EffectResult \<times> kernel" where
  "shm_EffectClient_Close handle k =
     (case handle of
        None \<Rightarrow> (EFFECT_ERROR_INVALID_ARGUMENTS, k)
      | Some session \<Rightarrow>
          let k = (if eventFdIn session \<ge> 0 then sys_close (eventFdIn session) k else k);
              k = (if eventFdOut session \<ge> 0 then sys_close (eventFdOut session) k else k);
              k = (if shmAddr session \<noteq> 0
                   then snd (effect_shared_memory_unmap (shmAddr session) (shmSize session) k) else k);
              k = (if shmFd session \<ge> 0 then sys_close (shmFd session) k else k)
          in (EFFECT_OK, heap_free k))"

section \<open>One call\<close>

text \<open>A session whose mapping is there, with \<open>u\<close> bytes in the input ring and an empty output
  ring. The service keeps the mapping.\<close>

definition shm_ready :: "ShmEffectSession \<Rightarrow> kernel \<Rightarrow> bool" where
  "shm_ready s k \<longleftrightarrow> (\<exists>m. shm_load (shmAddr s) k = Some m \<and> length m = 2 ^ 21)"

definition shm_ok :: "ShmEffectSession \<Rightarrow> nat \<Rightarrow> bool" where
  "shm_ok s u \<longleftrightarrow> rb_data (inputRb s) = 0 \<and> unat (rb_capacity (inputRb s)) = 2 ^ 20 \<and>
     rb_used (inputRb s) = u \<and> u \<le> 2 ^ 20 \<and>
     rb_data (outputRb s) = 2 ^ 20 \<and> unat (rb_capacity (outputRb s)) = 2 ^ 20 \<and> rb_used (outputRb s) = 0"

definition shm_peer_ok :: "nat \<Rightarrow> shm_peer \<Rightarrow> bool" where
  "shm_peer_ok addr env \<longleftrightarrow>
     (\<forall>i k m. shm_load addr k = Some m \<longrightarrow> (\<exists>m'. shm_load addr (env i k) = Some m' \<and> length m' = length m))"

lemma shm_ready_peer: "shm_ready s k \<Longrightarrow> shm_peer_ok (shmAddr s) env \<Longrightarrow> shm_ready s (env i k)"
  unfolding shm_ready_def shm_peer_ok_def by metis

lemma shm_ready_event: "event_frame fd k k' \<Longrightarrow> shm_ready s k \<Longrightarrow> shm_ready s k'"
  by (simp add: shm_ready_def shm_load_event)

lemma shm_write:
  assumes ok: "shm_ok s u" and m: "length m = 2 ^ 21" and src: "unat sz \<le> length src"
  obtains rb m' where "effect_ringbuffer_write (inputRb s) m src sz = Some (of_nat (min (unat sz) (2 ^ 20 - u)), rb, m')"
    and "length m' = length m" and "shm_ok (s\<lparr>inputRb := rb\<rparr>) (u + min (unat sz) (2 ^ 20 - u))"
proof -
  let ?rb = "inputRb s"
  have cap: "unat (rb_capacity ?rb) = 2 ^ 20" and u: "rb_used ?rb = u" "u \<le> 2 ^ 20" and d: "rb_data ?rb = 0"
    using ok by (simp_all add: shm_ok_def)
  have "rb_aligned ?rb" unfolding rb_aligned_def cap by (rule le_imp_power_dvd) simp
  moreover from this have "rb_wf ?rb m" using cap u d m by (simp add: rb_wf_def)
  ultimately obtain rb m' where w: "effect_ringbuffer_write ?rb m src sz = Some (of_nat (rb_accepts ?rb sz), rb, m')"
      "rb_contents rb m' = rb_contents ?rb m @ take (rb_accepts ?rb sz) src"
      "rb_capacity rb = rb_capacity ?rb" "rb_data rb = rb_data ?rb" "length m' = length m"
    using write_correct [of ?rb m sz src] src by blast
  have n: "rb_accepts ?rb sz = min (unat sz) (2 ^ 20 - u)" using cap u by simp
  have "length (rb_contents rb m') = length (rb_contents ?rb m @ take (rb_accepts ?rb sz) src)"
    by (simp only: w(2))
  then have "rb_used rb = u + min (unat sz) (2 ^ 20 - u)" using src u n by simp
  then have "shm_ok (s\<lparr>inputRb := rb\<rparr>) (u + min (unat sz) (2 ^ 20 - u))"
    using ok w(3,4) cap d u by (auto simp: shm_ok_def min_def)
  then show thesis using that w(1,5) n by simp
qed

lemma shm_read_nothing:
  assumes "shm_ok s u"
  shows "effect_ringbuffer_read (outputRb s) m dst sz = Some (0, dst, outputRb s)"
proof -
  have "write_index (outputRb s) - read_index (outputRb s) = 0"
    using assms by (simp add: shm_ok_def rb_used_def unat_eq_0)
  then show ?thesis by (simp add: effect_ringbuffer_read_def Let_def)
qed

text \<open>Every call on a byte count that is not zero times out: the output ring the client reads is its
  own and nobody advances it. The input ring only fills.\<close>

lemma shm_process_step:
  assumes ok: "shm_ok s u" "shm_ready s k" "shm_peer_ok (shmAddr s) env" "isStarted s" "frames \<noteq> 0"
    and n: "n = unat (frames * calculate_bytes_per_frame (config s))" "0 < n" and um: "ranges_ok um inp out n"
  shows "\<exists>s' k'. shm_EffectClient_Process env clock (Some s) (Some inp) (Some out) frames um k =
      Some (EFFECT_ERROR_TIMEOUT, Some s',
        if u + n \<le> 2 ^ 20 then blit um out (take n (drop inp um)) else um, k') \<and>
    shm_ok s' (min (2 ^ 20) (u + n)) \<and> shm_ready s' k' \<and> shmAddr s' = shmAddr s \<and>
    config s' = config s \<and> isStarted s' \<and> eventFdIn s' = eventFdIn s \<and> eventFdOut s' = eventFdOut s"
proof -
  let ?total = "frames * calculate_bytes_per_frame (config s)"
  let ?P = "shm_EffectClient_Process env clock (Some s) (Some inp) (Some out) frames um k"
  obtain m where m: "shm_load (shmAddr s) k = Some m" "length m = 2 ^ 21"
    using ok(2) by (auto simp: shm_ready_def)
  have src: "unat ?total \<le> length (drop inp um)" and dst: "out \<le> length um"
    using um by (auto simp: ranges_ok_def n(1) [symmetric])
  obtain rb m1 where w: "effect_ringbuffer_write (inputRb s) m (drop inp um) ?total =
      Some (of_nat (min (unat ?total) (2 ^ 20 - u)), rb, m1)"
    "length m1 = length m" "shm_ok (s\<lparr>inputRb := rb\<rparr>) (u + min (unat ?total) (2 ^ 20 - u))"
    by (rule shm_write [OF ok(1) m(2) src])
  have "unat (of_nat (min (unat ?total) (2 ^ 20 - u)) :: u32) = min n (2 ^ 20 - u)"
    unfolding n(1) [symmetric] by (rule unat_of_nat_u32) simp
  then have full: "(of_nat (min (unat ?total) (2 ^ 20 - u)) < ?total) = (2 ^ 20 - u < n)"
    by (simp add: word_less_nat_alt n(1) [symmetric] min_less_iff_disj)
  let ?s1 = "s\<lparr>inputRb := rb\<rparr>"
  have u': "u + min (unat ?total) (2 ^ 20 - u) = min (2 ^ 20) (u + n)"
    using ok(1) by (auto simp: n(1) [symmetric] shm_ok_def)
  have s1: "shm_ok ?s1 (min (2 ^ 20) (u + n))" using w(3) u' by simp
  have up: "shm_ok (?s1\<lparr>stats := st\<rparr>) (min (2 ^ 20) (u + n))" for st using s1 by (simp add: shm_ok_def)
  define k1 where "k1 = shm_store (shmAddr s) m1 k"
  have r1: "shm_ready s k1"
    unfolding k1_def using shm_load_store [OF m(1) w(2)] w(2) m(2) by (auto simp: shm_ready_def)
  have rdy: "shm_ready (?s1\<lparr>stats := st\<rparr>) k = shm_ready s k" for st k by (simp add: shm_ready_def)
  have u: "u \<le> 2 ^ 20" using ok(1) by (simp add: shm_ok_def)
  show ?thesis
  proof (cases "u + n \<le> 2 ^ 20")
    case False
    then have "2 ^ 20 - u < n" using u by arith
    then have full: "of_nat (min (unat ?total) (2 ^ 20 - u)) < ?total" using full by blast
    have "?P = Some (EFFECT_ERROR_TIMEOUT, Some (?s1\<lparr>stats := stats_xrun (stats s)\<rparr>), um, k1)"
      using ok(4,5) m(1) w(1) full by (simp add: shm_EffectClient_Process_def k1_def)
    then show ?thesis using False up r1 rdy ok(4) by simp
  next
    case fits: True
    then have "\<not> 2 ^ 20 - u < n" by simp
    then have full: "\<not> of_nat (min (unat ?total) (2 ^ 20 - u)) < ?total" using full by blast
    obtain sg k2 where g: "effect_eventfd_signal (eventFdIn s) (env 0 k1) = (sg, k2)" by fastforce
    obtain wr k3 where wt: "effect_eventfd_wait (eventFdOut s) TIMEOUT_MS (env 1 k2) = (wr, k3)" by fastforce
    have r3: "shm_ready s k3"
      using shm_ready_peer [OF r1 ok(3)] shm_ready_event [OF signal_frame [OF g]]
        shm_ready_peer [OF _ ok(3)] shm_ready_event [OF wait_frame [OF wt]] by blast
    have copied: "memcpy_within um out inp n = Some (blit um out (take n (drop inp um)))"
      by (rule memcpy_within_ok [OF um])
    show ?thesis
    proof (cases "wr < 0")
      case True
      have "?P = Some (EFFECT_ERROR_TIMEOUT, Some (?s1\<lparr>stats := stats_timeout (stats s)\<rparr>),
          blit um out (take n (drop inp um)), k3)"
        using ok(4,5) m(1) w(1) full g wt True copied
        by (simp add: shm_EffectClient_Process_def k1_def [symmetric] n(1) [symmetric])
      then show ?thesis using fits up r3 rdy ok(4) by simp
    next
      case False
      have r4: "shm_ready s (env 2 k3)" by (rule shm_ready_peer [OF r3 ok(3)])
      then obtain m2 where m2: "shm_load (shmAddr s) (env 2 k3) = Some m2" by (auto simp: shm_ready_def)
      have "?total \<noteq> 0" using n by auto
      then have "?P = Some (EFFECT_ERROR_TIMEOUT, Some (?s1\<lparr>stats := stats_dropped frames (stats s)\<rparr>),
          blit um out (take n (drop inp um)), env 2 k3)"
        using ok(4,5) m(1) w(1) full g wt False copied m2 shm_read_nothing [OF ok(1)] dst
        by (simp add: shm_EffectClient_Process_def k1_def [symmetric] n(1) [symmetric] word_neq_0_conv)
      then show ?thesis using fits up r4 rdy ok(4) by simp
    qed
  qed
qed

section \<open>Opening and closing\<close>

lemma kernel_wf_heap [simp]: "kernel_wf (k\<lparr>heap_blocks := n\<rparr>) = kernel_wf k"
  by (simp add: kernel_wf_def)

lemma eventfd_create_wf:
  assumes "effect_eventfd_create v k = (fd, k')" and "kernel_wf k"
  shows "kernel_wf k'"
  using assms(1)
proof (cases rule: eventfd_create_cases)
  case (opens n fs)
  then show ?thesis using assms(2) by (simp add: kernel_wf_def)
qed (use assms(2) in simp)

lemma shm_sizes:
  "MAX_BUFFER_SIZE * 2 = 2 ^ 21" "unat (2 ^ 21 :: u64) = 2 ^ 21" "unat MAX_BUFFER_SIZE = 2 ^ 20"
  "(ucast MAX_BUFFER_SIZE :: u32) = 2 ^ 20"
  by (simp_all add: MAX_BUFFER_SIZE_def)

text \<open>The first half of opening: the allocation, a descriptor of a new file and its mapping, or nothing.\<close>

lemma shm_block_cases:
  assumes wf: "kernel_wf k" and a: "heap_alloc k = (True, k1)"
    and c: "effect_shared_memory_create name (MAX_BUFFER_SIZE * 2) k1 = (fd, k2)"
    and m: "effect_shared_memory_map fd (MAX_BUFFER_SIZE * 2) k2 = (addr, k3)"
  obtains (no_file) "fd = - 1" and "resources (heap_free k2) = resources k"
  | (no_mapping) n where "fd = int n" and "addr = 0" and "resources (heap_free (sys_close fd k3)) = resources k"
  | (mapped) n where "fd = int n" and "addr \<noteq> 0" and "fds k n = None" and "mappings k addr = None"
      and "fds k3 = (fds k)(n \<mapsto> MemFile (length (files k)))" and "files k3 = files k @ [replicate (2 ^ 21) 0]"
      and "shm_names k3 = shm_names k" and "heap_blocks k3 = Suc (heap_blocks k)"
      and "mappings k3 = (mappings k)(addr \<mapsto> (length (files k), 2 ^ 21))"
proof -
  obtain fs where k1: "k1 = k\<lparr>faults := fs, heap_blocks := Suc (heap_blocks k)\<rparr>"
    using a by (cases rule: heap_alloc_cases) auto
  have wf1: "kernel_wf k1" using wf k1 by (simp add: kernel_wf_def)
  from c wf1 show thesis
  proof (cases rule: create_cases)
    case (fails fs2 ff)
    then show thesis using k1 by (intro no_file) (auto simp: heap_free_def resources_def)
  next
    case C: (opens n fs2)
    have k2: "fds k2 = (fds k)(n \<mapsto> MemFile (length (files k)))" "fds k n = None"
        "files k2 = files k @ [replicate (2 ^ 21) 0]" "mappings k2 = mappings k" "shm_names k2 = shm_names k"
        "heap_blocks k2 = Suc (heap_blocks k)"
      using C(2) unfolding C(5) k1 by (simp_all add: shm_sizes)
    have closed: "(fds k)(n := None) = fds k" using k2(2) by auto
    from m C(4) show thesis
    proof (cases rule: map_cases)
      case (fails fs3)
      then show thesis using C(1) k2 closed
        by (intro no_mapping) (auto simp: heap_free_def resources_def sys_close_def)
    next
      case M: (maps i fs3)
      have i: "i = length (files k)" using M(2) C(1) k2 by simp
      show thesis
        by (rule mapped [OF C(1) M(1) k2(2)]) (use M(3) k2 in \<open>simp_all add: M(5) i shm_sizes\<close>)
    qed
  qed
qed

lemma shm_open_cases:
  assumes O: "shm_EffectClient_Open pid kind (Some conf) (Some old) k = (r, h, k')" and wf: "kernel_wf k"
  obtains (fails) "r = EFFECT_ERROR_NO_MEMORY" and "h = Some old" and "resources k' = resources k"
  | (opens) fd fi fo a where "r = EFFECT_OK" and
      "h = Some (Some \<lparr>sessionId = pid, effectType = kind, config = conf, eventFdIn = int fi,
         eventFdOut = int fo, stats = zero_stats, isStarted = False, isConnected = True,
         shmFd = int fd, shmAddr = a, shmSize = 2 ^ 21,
         inputRb = effect_ringbuffer_init 0 (2 ^ 20), outputRb = effect_ringbuffer_init (2 ^ 20) (2 ^ 20)\<rparr>)"
      and "a \<noteq> 0" and "fds k fd = None" and "fds k fi = None" and "fds k fo = None"
      and "fd \<noteq> fi" and "fd \<noteq> fo" and "fi \<noteq> fo" and "mappings k a = None"
      and "fds k' = (fds k)(fd \<mapsto> MemFile (length (files k)), fi \<mapsto> EventFd 0, fo \<mapsto> EventFd 0)"
      and "mappings k' = (mappings k)(a \<mapsto> (length (files k), 2 ^ 21))"
      and "shm_names k' = shm_names k" and "heap_blocks k' = Suc (heap_blocks k)"
      and "shm_load a k' = Some (replicate (2 ^ 21) 0)"
proof -
  note O = O [unfolded shm_EffectClient_Open_def Let_def, simplified]
  obtain ok k1 where a: "heap_alloc k = (ok, k1)" by fastforce
  obtain fd k2 where c: "effect_shared_memory_create ''effect_shm'' (MAX_BUFFER_SIZE * 2) k1 = (fd, k2)" by fastforce
  obtain addr k3 where m: "effect_shared_memory_map fd (MAX_BUFFER_SIZE * 2) k2 = (addr, k3)" by fastforce
  obtain fdIn k4 where e1: "effect_eventfd_create 0 k3 = (fdIn, k4)" by fastforce
  obtain fdOut k5 where e2: "effect_eventfd_create 0 k4 = (fdOut, k5)" by fastforce
  note ctx = O a c m e1 e2
  show thesis
  proof (cases ok)
    case False
    with a have "resources k1 = resources k" by (cases rule: heap_alloc_cases) (simp_all add: resources_def)
    then show thesis using O a False by (intro that(1)) auto
  next
    case True
    then have a': "heap_alloc k = (True, k1)" using a by simp
    from wf a' c m show thesis
    proof (cases rule: shm_block_cases)
      case no_file
      then show thesis using ctx True by (intro that(1)) auto
    next
      case (no_mapping n)
      then show thesis using ctx True by (intro that(1)) auto
    next
      case M: (mapped n)
      have closed: "(fds k)(n := None) = fds k" and unmapped: "(mappings k)(addr := None) = mappings k"
        using M(3,4) by auto
      have unmap: "mappings q addr = Some (i, 2 ^ 21) \<Longrightarrow> effect_shared_memory_unmap addr (MAX_BUFFER_SIZE * 2) q =
          (0, q\<lparr>mappings := (mappings q)(addr := None)\<rparr>)" for q i
        unfolding shm_sizes(1) using unmap_mapped [of q addr i "2 ^ 21"] by (simp add: shm_sizes)
      from e1 e2 show thesis
      proof (cases rule: eventfd_pair_cases)
        case (fails fs)
        show thesis
          using ctx True fails(1) unmap [of "k3\<lparr>faults := fs\<rparr>"] fails(2) M closed unmapped
          by (intro that(1)) (auto simp: heap_free_def resources_def sys_close_def Let_def)
      next
        case (opens fi fo fs)
        have free: "fds k fi = None" "fds k fo = None" "n \<noteq> fi" "n \<noteq> fo"
          using opens(4,5) M(5) by (auto split: if_splits)
        have r: "r = EFFECT_OK" and k': "k' = k5"
          and h: "h = Some (Some \<lparr>sessionId = pid, effectType = kind, config = conf, eventFdIn = int fi,
            eventFdOut = int fo, stats = zero_stats, isStarted = False, isConnected = True,
            shmFd = int n, shmAddr = addr, shmSize = 2 ^ 21,
            inputRb = effect_ringbuffer_init 0 (2 ^ 20), outputRb = effect_ringbuffer_init (2 ^ 20) (2 ^ 20)\<rparr>)"
          using ctx True M(1,2) opens(1,2) unfolding shm_sizes by auto
        have m5: "fds k5 = (fds k)(n \<mapsto> MemFile (length (files k)), fi \<mapsto> EventFd 0, fo \<mapsto> EventFd 0)"
            "mappings k5 = (mappings k)(addr \<mapsto> (length (files k), 2 ^ 21))"
            "shm_names k5 = shm_names k" "heap_blocks k5 = Suc (heap_blocks k)"
            "files k5 = files k @ [replicate (2 ^ 21) 0]"
          unfolding opens(6) using M by simp_all
        have load: "shm_load addr k5 = Some (replicate (2 ^ 21) 0)"
          by (simp add: shm_load_def m5(2,5))
        show thesis
          by (rule that(2) [OF r h M(2,3) free(1,2) free(3,4) opens(3) M(4)])
            (simp_all add: k' m5 load)
      qed
    qed
  qed
qed

section \<open>Sequences of processing calls\<close>

record shm_call =
  c_env :: shm_peer
  c_clock :: "nat \<Rightarrow> timespec"
  c_input :: nat
  c_output :: nat
  c_frames :: u32
  c_memory :: bytes

fun shm_calls ::
  "shm_call list \<Rightarrow> ShmEffectHandle \<Rightarrow> kernel \<Rightarrow>
   ((EffectResult \<times> bytes) list \<times> ShmEffectHandle \<times> kernel) option" where
  "shm_calls [] h k = Some ([], h, k)"
| "shm_calls (c # cs) h k = do {
     (r, h, um, k) \<leftarrow> shm_EffectClient_Process (c_env c) (c_clock c) h (Some (c_input c)) (Some (c_output c))
       (c_frames c) (c_memory c) k;
     (rs, h, k) \<leftarrow> shm_calls cs h k;
     Some ((r, um) # rs, h, k) }"

definition call_bytes :: "EffectConfig \<Rightarrow> shm_call \<Rightarrow> nat" where
  "call_bytes conf c = unat (c_frames c * calculate_bytes_per_frame conf)"

definition shm_call_ok :: "EffectConfig \<Rightarrow> nat \<Rightarrow> shm_call \<Rightarrow> bool" where
  "shm_call_ok conf addr c \<longleftrightarrow> c_frames c \<noteq> 0 \<and> 0 < call_bytes conf c \<and> shm_peer_ok addr (c_env c) \<and>
     ranges_ok (c_memory c) (c_input c) (c_output c) (call_bytes conf c)"

definition passed_through :: "EffectConfig \<Rightarrow> shm_call \<Rightarrow> bytes" where
  "passed_through conf c =
     blit (c_memory c) (c_output c) (take (call_bytes conf c) (drop (c_input c) (c_memory c)))"

text \<open>What the calls return when \<open>u\<close> bytes have been offered before them.\<close>

fun shm_expected :: "EffectConfig \<Rightarrow> nat \<Rightarrow> shm_call list \<Rightarrow> (EffectResult \<times> bytes) list" where
  "shm_expected conf u [] = []"
| "shm_expected conf u (c # cs) =
     (EFFECT_ERROR_TIMEOUT, if u + call_bytes conf c \<le> 2 ^ 20 then passed_through conf c else c_memory c) #
     shm_expected conf (u + call_bytes conf c) cs"

lemma shm_calls_run:
  assumes "shm_ok s (min (2 ^ 20) u)" and "shm_ready s k" and "isStarted s" and "config s = conf"
    and "list_all (shm_call_ok conf (shmAddr s)) cs"
  shows "\<exists>h' k'. shm_calls cs (Some s) k = Some (shm_expected conf u cs, h', k')"
  using assms
proof (induction cs arbitrary: s k u)
  case Nil
  then show ?case by simp
next
  case (Cons c cs)
  have c: "shm_peer_ok (shmAddr s) (c_env c)" "c_frames c \<noteq> 0" "0 < call_bytes conf c"
      "ranges_ok (c_memory c) (c_input c) (c_output c) (call_bytes conf c)"
    using Cons.prems(5) by (simp_all add: shm_call_ok_def)
  have n: "call_bytes conf c = unat (c_frames c * calculate_bytes_per_frame (config s))"
    by (simp add: call_bytes_def Cons.prems(4))
  obtain s' k' where step: "shm_EffectClient_Process (c_env c) (c_clock c) (Some s) (Some (c_input c))
      (Some (c_output c)) (c_frames c) (c_memory c) k = Some (EFFECT_ERROR_TIMEOUT, Some s',
        if min (2 ^ 20) u + call_bytes conf c \<le> 2 ^ 20 then passed_through conf c else c_memory c, k')"
    "shm_ok s' (min (2 ^ 20) (min (2 ^ 20) u + call_bytes conf c))" "shm_ready s' k'" "shmAddr s' = shmAddr s"
    "config s' = conf" "isStarted s'"
    using shm_process_step [OF Cons.prems(1,2) c(1) Cons.prems(3) c(2) n c(3,4), of "c_clock c"] Cons.prems(4)
    unfolding passed_through_def by blast
  have u: "min (2 ^ 20) (min (2 ^ 20) u + call_bytes conf c) = min (2 ^ 20) (u + call_bytes conf c)"
    by (auto simp: min_def)
  have fits: "(min (2 ^ 20) u + call_bytes conf c \<le> 2 ^ 20) = (u + call_bytes conf c \<le> 2 ^ 20)"
    using c(3) by (auto simp: min_def)
  have "list_all (shm_call_ok conf (shmAddr s')) cs" using Cons.prems(5) step(4) by simp
  then obtain h'' k'' where "shm_calls cs (Some s') k' = Some (shm_expected conf (u + call_bytes conf c) cs, h'', k'')"
    using Cons.IH [OF step(2) [unfolded u] step(3,6,5)] by blast
  then show ?case using step(1) unfolding fits by simp
qed

text \<open>Opening succeeds on a kernel with nothing open and no faults.\<close>

lemma shm_open_fresh:
  "\<exists>s k1. shm_EffectClient_Open 7 EFFECT_TYPE_NOISE_REDUCTION (Some conf) (Some None) (fresh_kernel []) =
    (EFFECT_OK, Some (Some s), k1)"
proof -
  let ?f = "\<lparr>faults = [], fd_limit = 8, fds = [0 \<mapsto> MemFile 0], files = [resize 2097152 []], mappings = Map.empty,
     next_addr = 1, shm_names = [], heap_blocks = 1\<rparr>"
  let ?m = "?f\<lparr>mappings := [1 \<mapsto> (0, 2097152)], next_addr := 2\<rparr>"
  have sz: "MAX_BUFFER_SIZE * 2 = 2 ^ 21" "unat (2 ^ 21 :: u64) = 2 ^ 21" by (simp_all add: MAX_BUFFER_SIZE_def)
  have a: "heap_alloc (fresh_kernel []) = (True, (fresh_kernel [])\<lparr>heap_blocks := 1\<rparr>)"
    by (simp add: heap_alloc_def take_fault_def fresh_kernel_def)
  have c: "effect_shared_memory_create ''effect_shm'' (MAX_BUFFER_SIZE * 2) ((fresh_kernel [])\<lparr>heap_blocks := 1\<rparr>) = (0, ?f)"
    unfolding sz(1)
    by (simp add: effect_shared_memory_create_def memfd_create_wrapper_def new_file_def new_fd_def take_fault_def
        lowest_fd_0 sys_ftruncate_def fd_of_def fresh_kernel_def del: resize_Nil)
  have m: "effect_shared_memory_map 0 (MAX_BUFFER_SIZE * 2) ?f = (1, ?m)"
    unfolding sz(1)
    by (simp add: effect_shared_memory_map_def sys_mmap_def take_fault_def fd_of_def del: resize_Nil)
  obtain fi k4 where e1: "effect_eventfd_create 0 ?m = (fi, k4)" "0 \<le> fi" "faults k4 = []" "fds k4 = [0 \<mapsto> MemFile 0, 1 \<mapsto> EventFd 0]" "fd_limit k4 = 8"
    by (simp add: effect_eventfd_create_def new_fd_def take_fault_def lowest_fd_def upt_conv_Cons del: resize_Nil)
  obtain fo k5 where e2: "effect_eventfd_create 0 k4 = (fo, k5)" "0 \<le> fo"
    using e1(3-5) by (simp add: effect_eventfd_create_def new_fd_def take_fault_def lowest_fd_def upt_conv_Cons)
  show ?thesis
    using e1(1,2) e2 by (simp add: shm_EffectClient_Open_def a c m Let_def del: resize_Nil One_nat_def)
qed

section \<open>Properties\<close>

text \<open>C39. In the shared memory build no session ever delivers processed audio. Whatever the
  service does to the shared memory and the events, every processing call of a session times out:
  it passes its input through as long as the bytes offered since the session was opened fit in one
  mebibyte, and from then on, although it reports the same time-out, it leaves the output buffer as
  it found it.\<close>

theorem shm_session_never_delivers:
  assumes "kernel_wf k"
    and "shm_EffectClient_Open pid kind (Some conf) (Some old) k = (EFFECT_OK, Some (Some s), k1)"
    and "EffectClient_Start (Some s) = (EFFECT_OK, Some s1)"
    and "list_all (shm_call_ok conf (shmAddr s)) cs"
  shows "\<exists>h' k2. shm_calls cs (Some s1) k1 = Some (shm_expected conf 0 cs, h', k2)"
proof (cases rule: shm_open_cases [OF assms(2,1), case_names fails opens])
  case (opens fd fi fo a)
  have s1: "s1 = s\<lparr>isStarted := True\<rparr>" using assms(3) by (auto simp: EffectClient_Start_def split: if_splits)
  have "shm_ok s1 (min (2 ^ 20) 0)"
    using opens(2) by (simp add: s1 shm_ok_def rb_used_def effect_ringbuffer_init_def)
  moreover have "shm_ready s1 k1"
    using opens(2,15) by (simp add: s1 shm_ready_def)
  ultimately show ?thesis
    using shm_calls_run [of s1 0 k1 conf cs] assms(4) opens(2) by (simp add: s1)
qed simp

text \<open>One frame, which is passed through, and then one block of a mebibyte, which is not.\<close>

theorem shm_session_never_delivers_witness:
  "\<exists>s k1 h' k2. shm_EffectClient_Open 7 EFFECT_TYPE_NOISE_REDUCTION
      (Some \<lparr>sampleRate = 48000, channels = 1, format = 16, framesPerBuffer = 1\<rparr>) (Some None) (fresh_kernel []) =
      (EFFECT_OK, Some (Some s), k1) \<and>
    shm_calls
      [\<lparr>c_env = \<lambda>i k. k, c_clock = \<lambda>i. \<lparr>tv_sec = 0, tv_nsec = 0\<rparr>, c_input = 0, c_output = 2,
         c_frames = 1, c_memory = [1, 2, 0, 0]\<rparr>,
       \<lparr>c_env = \<lambda>i k. k, c_clock = \<lambda>i. \<lparr>tv_sec = 0, tv_nsec = 0\<rparr>, c_input = 0, c_output = 1048576,
         c_frames = 524288, c_memory = replicate 1048576 7 @ replicate 1048576 0\<rparr>]
      (Some (s\<lparr>isStarted := True\<rparr>)) k1 =
      Some ([(EFFECT_ERROR_TIMEOUT, [1, 2, 1, 2]),
        (EFFECT_ERROR_TIMEOUT, replicate 1048576 7 @ replicate 1048576 0)], h', k2)"
proof -
  let ?conf = "\<lparr>sampleRate = 48000, channels = 1, format = 16, framesPerBuffer = 1\<rparr>"
  let ?c = "\<lparr>c_env = \<lambda>i k. k, c_clock = \<lambda>i. \<lparr>tv_sec = 0, tv_nsec = 0\<rparr>, c_input = 0, c_output = 2,
        c_frames = 1, c_memory = [1, 2, 0, 0]\<rparr>"
  let ?d = "\<lparr>c_env = \<lambda>i k. k, c_clock = \<lambda>i. \<lparr>tv_sec = 0, tv_nsec = 0\<rparr>, c_input = 0, c_output = 1048576,
        c_frames = 524288, c_memory = replicate 1048576 7 @ replicate 1048576 0\<rparr>"
  obtain s k1 where o: "shm_EffectClient_Open 7 EFFECT_TYPE_NOISE_REDUCTION (Some ?conf) (Some None) (fresh_kernel []) =
      (EFFECT_OK, Some (Some s), k1)"
    using shm_open_fresh by blast
  then have "isConnected s"
    by (cases rule: shm_open_cases [OF _ fresh_kernel_wf, consumes 1]) auto
  then have st: "EffectClient_Start (Some s) = (EFFECT_OK, Some (s\<lparr>isStarted := True\<rparr>))"
    by (simp add: EffectClient_Start_def)
  have n: "call_bytes ?conf ?c = 2" "call_bytes ?conf ?d = 1048576"
    by (simp_all add: call_bytes_def calculate_bytes_per_frame_def)
  have "shm_call_ok ?conf (shmAddr s) ?c" "shm_call_ok ?conf (shmAddr s) ?d"
    unfolding shm_call_ok_def n by (simp_all add: shm_peer_ok_def ranges_ok_def)
  then have "list_all (shm_call_ok ?conf (shmAddr s)) [?c, ?d]" by simp
  then obtain h' k2 where "shm_calls [?c, ?d] (Some (s\<lparr>isStarted := True\<rparr>)) k1 =
      Some (shm_expected ?conf 0 [?c, ?d], h', k2)"
    using shm_session_never_delivers [OF fresh_kernel_wf o st] by blast
  moreover have "shm_expected ?conf 0 [?c, ?d] = [(EFFECT_ERROR_TIMEOUT, [1, 2, 1, 2]),
      (EFFECT_ERROR_TIMEOUT, replicate 1048576 7 @ replicate 1048576 0)]"
    unfolding shm_expected.simps passed_through_def n by (simp add: blit_def)
  ultimately show ?thesis using o by auto
qed

text \<open>In the shared memory build, too, opening is all or nothing, and closing right after a
  successful opening gives everything back: descriptors, mapping, names and memory.\<close>

theorem shm_open_close_no_leak:
  assumes "kernel_wf k" and "shm_EffectClient_Open pid kind (Some conf) (Some old) k = (r, h, k')"
  shows "(r = EFFECT_ERROR_NO_MEMORY \<and> h = Some old \<and> resources k' = resources k) \<or>
    (\<exists>s. r = EFFECT_OK \<and> h = Some (Some s) \<and> isConnected s \<and> \<not> isStarted s \<and>
      shm_load (shmAddr s) k' = Some (replicate (2 ^ 21) 0) \<and>
      fst (shm_EffectClient_Close (Some s) k') = EFFECT_OK \<and>
      resources (snd (shm_EffectClient_Close (Some s) k')) = resources k)"
proof (cases rule: shm_open_cases [OF assms(2,1), case_names fails opens])
  case (opens fd fi fo a)
  have "(fds k)(fd := None, fi := None, fo := None) = fds k" "(mappings k)(a := None) = mappings k"
    using opens(4-6,10) by auto
  then show ?thesis
    using opens by (auto simp: shm_EffectClient_Close_def effect_shared_memory_unmap_def sys_munmap_def
        sys_close_def heap_free_def resources_def fun_upd_twist fun_upd_upd)
qed simp

theorem shm_open_close_no_leak_witness:
  "\<exists>s k1. shm_EffectClient_Open 7 EFFECT_TYPE_NOISE_REDUCTION
      (Some \<lparr>sampleRate = 48000, channels = 1, format = 16, framesPerBuffer = 1\<rparr>) (Some None) (fresh_kernel []) =
      (EFFECT_OK, Some (Some s), k1) \<and>
    resources (snd (shm_EffectClient_Close (Some s) k1)) = resources (fresh_kernel [])"
proof -
  obtain s k1 where o: "shm_EffectClient_Open 7 EFFECT_TYPE_NOISE_REDUCTION
      (Some \<lparr>sampleRate = 48000, channels = 1, format = 16, framesPerBuffer = 1\<rparr>) (Some None) (fresh_kernel []) =
      (EFFECT_OK, Some (Some s), k1)"
    using shm_open_fresh by blast
  then show ?thesis using shm_open_close_no_leak [OF fresh_kernel_wf o] by auto
qed

end
