(* ===== verification/Session.thy ===== *)
theory Session
  imports Fmq Stats Audio
begin

text \<open>
  The service's side: \<open>effectd/src/effectd_session.c\<close> with
  \<open>effectd/include/effectd_session.h\<close>. A session is driven by calls on one side and by its
  processing thread on the other. The thread is a value here (\<open>thread\<close>): not created, created but
  not yet run, in its loop with its two buffers, or returned; one iteration of the loop is one
  step. Theory \<open>SessionLife\<close> interleaves calls, thread steps and what the client does to the shared queues.
\<close>

section \<open>Types\<close>

datatype SessionState = SESSION_STATE_IDLE | SESSION_STATE_OPENED | SESSION_STATE_STARTED
  | SESSION_STATE_STOPPED | SESSION_STATE_ERROR

datatype EffectLibType = EFFECT_LIB_KARAOKE_NO_MIC | EFFECT_LIB_NOISE_REDUCTION

record 'q ServerSession =
  srv_sessionId :: u32
  srv_effectType :: EffectLibType
  srv_config :: AudioConfig
  state :: SessionState
  srv_inputFmq :: "'q option"
  srv_outputFmq :: "'q option"
  srv_eventFdIn :: int
  srv_eventFdOut :: int
  libHandle :: "nat option"
  libContext :: "nat option"
  threadRunning :: bool
  srv_stats :: SessionStats

datatype thread = NoThread | Created | Looping bytes bytes | Returned

section \<open>The processing thread\<close>

text \<open>The effect itself is a placeholder in the source: a copy, and a pause that is not modelled.\<close>

definition mock_process_audio :: "nat option \<Rightarrow> bytes \<Rightarrow> bytes \<Rightarrow> u32 \<Rightarrow> u32 \<Rightarrow> bytes option" where
  "mock_process_audio context input output frames bytesPerFrame =
     memcpy output 0 input 0 (unat (frames * bytesPerFrame))"

definition buffer_size :: "AudioConfig \<Rightarrow> u32" where
  "buffer_size cfg = framesPerBuffer cfg * calculate_bytes_per_frame cfg"

text \<open>Up to the loop: both buffers, or none and an early return. Their bytes are not read before
  they are written; they are zero here.\<close>

definition thread_enter :: "'q ServerSession \<Rightarrow> kernel \<Rightarrow> thread \<times> kernel" where
  "thread_enter session k =
     (let bufferSize = buffer_size (srv_config session);
          (ok1, k) = heap_alloc k;
          (ok2, k) = heap_alloc k
      in if \<not> ok1 \<or> \<not> ok2 then
           let k = (if ok1 then heap_free k else k);
               k = (if ok2 then heap_free k else k)
           in (Returned, k)
         else (Looping (replicate (unat bufferSize) 0) (replicate (unat bufferSize) 0), k))"

text \<open>One iteration of the loop; \<open>clock\<close> is what the two readings of the time return.\<close>

definition processing_iteration ::
  "'q fmq_api \<Rightarrow> (nat \<Rightarrow> timespec) \<Rightarrow> 'q ServerSession \<Rightarrow> bytes \<Rightarrow> bytes \<Rightarrow> kernel \<Rightarrow>
   ('q ServerSession \<times> bytes \<times> bytes \<times> kernel) option" where
  "processing_iteration api clock session inputBuffer outputBuffer k =
     (let bytesPerFrame = calculate_bytes_per_frame (srv_config session);
          bufferSize = buffer_size (srv_config session);
          (wait_result, k) = effect_eventfd_wait (srv_eventFdIn session) 100 k
      in if wait_result < 0 then Some (session, inputBuffer, outputBuffer, k)
         else
           let start_time = clock 0; available = api_available_to_read api (srv_inputFmq session) in
           if available < ucast bufferSize then Some (session, inputBuffer, outputBuffer, k)
           else do {
             (got, dst, inq) \<leftarrow> api_read api (srv_inputFmq session) (Some inputBuffer) (ucast bufferSize);
             let session = session\<lparr>srv_inputFmq := inq\<rparr>;
             let inputBuffer = (case dst of None \<Rightarrow> inputBuffer | Some d \<Rightarrow> d);
             if got < ucast bufferSize then
               Some (session\<lparr>srv_stats := stats_xrun (srv_stats session)\<rparr>, inputBuffer, outputBuffer, k)
             else do {
               outputBuffer \<leftarrow> mock_process_audio (libContext session) inputBuffer outputBuffer
                 (framesPerBuffer (srv_config session)) bytesPerFrame;
               (written, outq) \<leftarrow> api_write api (srv_outputFmq session) (Some outputBuffer) (ucast bufferSize);
               let session = session\<lparr>srv_outputFmq := outq\<rparr>;
               if written < ucast bufferSize then
                 Some (session\<lparr>srv_stats := stats_dropped (framesPerBuffer (srv_config session)) (srv_stats session)\<rparr>,
                   inputBuffer, outputBuffer, k)
               else
                 let (sig, k) = effect_eventfd_signal (srv_eventFdOut session) k;
                     latency = elapsed_us start_time (clock 1)
                 in Some (session\<lparr>srv_stats :=
                      stats_processed (framesPerBuffer (srv_config session)) latency (srv_stats session)\<rparr>,
                      inputBuffer, outputBuffer, k) } })"

text \<open>One turn of the thread from wherever it is: the loop condition is read at its head.\<close>

definition thread_turn ::
  "'q fmq_api \<Rightarrow> (nat \<Rightarrow> timespec) \<Rightarrow> 'q ServerSession \<Rightarrow> thread \<Rightarrow> kernel \<Rightarrow>
   ('q ServerSession \<times> thread \<times> kernel) option" where
  "thread_turn api clock session th k =
     (case th of
        Created \<Rightarrow> (case thread_enter session k of (th', k') \<Rightarrow> Some (session, th', k'))
      | Looping ib ob \<Rightarrow>
          if threadRunning session then do {
            (session', ib', ob', k') \<leftarrow> processing_iteration api clock session ib ob k;
            Some (session', Looping ib' ob', k') }
          else Some (session, Returned, heap_free (heap_free k))
      | _ \<Rightarrow> Some (session, th, k))"

section \<open>The calls\<close>

definition effectd_session_create ::
  "u32 \<Rightarrow> EffectLibType \<Rightarrow> AudioConfig \<Rightarrow> kernel \<Rightarrow> 'q ServerSession option \<times> kernel" where
  "effectd_session_create sid kind cfg k =
     (let (ok, k) = heap_alloc k in
      if \<not> ok then (None, k)
      else (Some \<lparr>srv_sessionId = sid, srv_effectType = kind, srv_config = cfg, state = SESSION_STATE_IDLE,
              srv_inputFmq = None, srv_outputFmq = None, srv_eventFdIn = - 1, srv_eventFdOut = - 1,
              libHandle = None, libContext = None, threadRunning = False, srv_stats = zero_stats\<rparr>, k))"

definition effectd_session_open :: "'q ServerSession option \<Rightarrow> int \<times> 'q ServerSession option" where
  "effectd_session_open session =
     (case session of
        None \<Rightarrow> (- 1, None)
      | Some s \<Rightarrow>
          if state s \<noteq> SESSION_STATE_IDLE then (- 1, Some s)
          else (0, Some (s\<lparr>state := SESSION_STATE_OPENED\<rparr>)))"

definition pthread_create :: "thread \<Rightarrow> kernel \<Rightarrow> int \<times> thread \<times> kernel" where
  "pthread_create th k = (let (bad, k) = take_fault k in if bad then (11, th, k) else (0, Created, k))"

definition effectd_session_start ::
  "'q ServerSession option \<Rightarrow> thread \<Rightarrow> kernel \<Rightarrow> int \<times> 'q ServerSession option \<times> thread \<times> kernel" where
  "effectd_session_start session th k =
     (case session of
        None \<Rightarrow> (- 1, None, th, k)
      | Some s \<Rightarrow>
          if state s \<noteq> SESSION_STATE_OPENED then (- 1, Some s, th, k)
          else
            let s = s\<lparr>threadRunning := True\<rparr>; (err, th, k) = pthread_create th k in
            if err \<noteq> 0 then (- 1, Some (s\<lparr>threadRunning := False\<rparr>), th, k)
            else (0, Some (s\<lparr>state := SESSION_STATE_STARTED\<rparr>), th, k))"

text \<open>\<open>pthread_join\<close> lets the thread run to its end; the loop condition is false by then, so what
  is left of it is its entry, if it has not run yet, and its exit.\<close>

definition pthread_join :: "'q ServerSession \<Rightarrow> thread \<Rightarrow> kernel \<Rightarrow> thread \<times> kernel" where
  "pthread_join session th k =
     (case th of
        Created \<Rightarrow>
          let (th', k') = thread_enter session k in
          (NoThread, case th' of Looping ib ob \<Rightarrow> heap_free (heap_free k') | _ \<Rightarrow> k')
      | Looping ib ob \<Rightarrow> (NoThread, heap_free (heap_free k))
      | _ \<Rightarrow> (NoThread, k))"

definition effectd_session_stop ::
  "'q ServerSession option \<Rightarrow> thread \<Rightarrow> kernel \<Rightarrow> int \<times> 'q ServerSession option \<times> thread \<times> kernel" where
  "effectd_session_stop session th k =
     (case session of
        None \<Rightarrow> (- 1, None, th, k)
      | Some s \<Rightarrow>
          if state s \<noteq> SESSION_STATE_STARTED then (- 1, Some s, th, k)
          else
            let s = s\<lparr>threadRunning := False\<rparr>; (th, k) = pthread_join s th k in
            (0, Some (s\<lparr>state := SESSION_STATE_STOPPED\<rparr>), th, k))"

text \<open>No library is ever loaded, so unloading it changes nothing of the modelled state.\<close>

definition effectd_session_destroy ::
  "'q ServerSession option \<Rightarrow> thread \<Rightarrow> kernel \<Rightarrow> 'q ServerSession option \<times> thread \<times> kernel" where
  "effectd_session_destroy session th k =
     (case session of
        None \<Rightarrow> (None, th, k)
      | Some s \<Rightarrow>
          let (th, k) =
            (if state s = SESSION_STATE_STARTED
             then case effectd_session_stop session th k of (r, s', th', k') \<Rightarrow> (th', k')
             else (th, k))
          in (None, th, heap_free k))"

definition effectd_session_set_param :: "'q ServerSession option \<Rightarrow> u32 \<Rightarrow> bytes option \<Rightarrow> u32 \<Rightarrow> int" where
  "effectd_session_set_param session key val valueSize = (if session = None then - 1 else 0)"

definition effectd_session_get_state :: "'q ServerSession option \<Rightarrow> SessionState" where
  "effectd_session_get_state session =
     (case session of None \<Rightarrow> SESSION_STATE_ERROR | Some s \<Rightarrow> state s)"

definition effectd_session_get_stats ::
  "'q ServerSession option \<Rightarrow> SessionStats option \<Rightarrow> SessionStats option" where
  "effectd_session_get_stats session st =
     (case (session, st) of (Some s, Some old) \<Rightarrow> Some (srv_stats s) | _ \<Rightarrow> st)"

section \<open>One iteration\<close>

definition srv_ok :: "('q \<Rightarrow> bool) \<Rightarrow> 'q ServerSession \<Rightarrow> bool" where
  "srv_ok good s \<longleftrightarrow>
     (\<exists>a b. srv_inputFmq s = Some a \<and> good a \<and> srv_outputFmq s = Some b \<and> good b)"

text \<open>The session after an iteration that moved a block: queues and statistics.\<close>

abbreviation moved ::
  "'q ServerSession \<Rightarrow> 'q \<Rightarrow> 'q \<Rightarrow> SessionStats \<Rightarrow> 'q ServerSession" where
  "moved s a b st \<equiv> s\<lparr>srv_inputFmq := Some a, srv_outputFmq := Some b, srv_stats := st\<rparr>"

lemma iteration_idle:
  assumes "effect_eventfd_wait (srv_eventFdIn s) 100 k = (w, k1)"
    and "w < 0 \<or> unat (api_available_to_read api (srv_inputFmq s)) < unat (buffer_size (srv_config s))"
  shows "processing_iteration api clock s ib ob k = Some (s, ib, ob, k1)"
  using assms by (auto simp: processing_iteration_def word_less_nat_alt Let_def)

context fmq_backend
begin

lemma iteration_moves:
  assumes w: "effect_eventfd_wait (srv_eventFdIn s) 100 k = (w, k1)" "\<not> w < 0"
    and q: "srv_inputFmq s = Some a" "inv a" "srv_outputFmq s = Some b" "inv b"
    and n: "n = unat (buffer_size (srv_config s))" "n \<le> length (contents a)"
    and buf: "length ib = n" "length ob = n"
    and x: "x = take n (contents a)"
  obtains (dropped) a' b' m where "processing_iteration api clock s ib ob k =
        Some (moved s a' b' (stats_dropped (framesPerBuffer (srv_config s)) (srv_stats s)), x, x, k1)"
      and "m < n" and "limit b < length (contents b) + n"
      and "inv a'" and "limit a' = limit a" and "contents a' = drop n (contents a)"
      and "inv b'" and "limit b' = limit b" and "contents b' = contents b @ take m x"
  | (delivered) a' b' where "processing_iteration api clock s ib ob k =
        Some (moved s a' b' (stats_processed (framesPerBuffer (srv_config s)) (elapsed_us (clock 0) (clock 1)) (srv_stats s)),
          x, x, snd (effect_eventfd_signal (srv_eventFdOut s) k1))"
      and "inv a'" and "limit a' = limit a" and "contents a' = drop n (contents a)"
      and "inv b'" and "limit b' = limit b" and "contents b' = contents b @ x"
proof -
  let ?sz = "ucast (buffer_size (srv_config s)) :: u64"
  have sz: "unat ?sz = n" using n by simp
  have avail: "unat (api_available_to_read api (Some a)) = length (contents a)" by (rule readable [OF q(2)])
  have enough: "\<not> api_available_to_read api (Some a) < ?sz"
    unfolding word_less_nat_alt avail sz using n(2) by simp
  have lib: "unat ?sz \<le> length ib" unfolding sz using buf by simp
  obtain g a' where r: "api_read api (Some a) (Some ib) ?sz =
      Some (g, Some (blit ib 0 (take (unat g) (contents a))), Some a')" "inv a'" "limit a' = limit a"
      "g \<le> ?sz" "unat g \<le> length (contents a)"
      "contents a' = drop (unat g) (contents a)" "unat ?sz \<le> length (contents a) \<Longrightarrow> g = ?sz"
    using api_read_SomeE [OF q(2) lib] by blast
  have g: "g = ?sz" by (rule r(7)) (simp only: sz n(2))
  have len: "length x = n" using x n(2) by simp
  have ib: "blit ib 0 (take (unat g) (contents a)) = x"
    unfolding g sz x [symmetric] using len buf by (simp add: blit_0)
  have same: "framesPerBuffer (srv_config s) * calculate_bytes_per_frame (srv_config s) = buffer_size (srv_config s)"
    by (simp add: buffer_size_def)
  have proc: "mock_process_audio c x ob (framesPerBuffer (srv_config s)) (calculate_bytes_per_frame (srv_config s)) = Some x" for c
    unfolding mock_process_audio_def same n(1) [symmetric] using len buf by (simp add: mem_simps blit_0)
  have lx: "unat ?sz \<le> length x" unfolding sz len ..
  obtain m b' where wr: "api_write api (Some b) (Some x) ?sz = Some (m, Some b')" "inv b'" "limit b' = limit b"
      "m \<le> ?sz" "contents b' = contents b @ take (unat m) x"
      "length (contents b) + unat ?sz \<le> limit b \<Longrightarrow> m = ?sz"
    using api_write_SomeE [OF q(4) lx] by blast
  have a': "contents a' = drop n (contents a)" using r(6) unfolding g sz .
  show thesis
  proof (cases "m < ?sz")
    case True
    have P: "processing_iteration api clock s ib ob k =
        Some (moved s a' b' (stats_dropped (framesPerBuffer (srv_config s)) (srv_stats s)), x, x, k1)"
      unfolding processing_iteration_def
      using w q(1,3) enough r(1) ib g proc wr(1) True by simp
    show thesis
    proof (rule dropped [OF P _ _ r(2,3) a' wr(2,3,5)])
      show "unat m < n" using True unfolding word_less_nat_alt sz .
      show "limit b < length (contents b) + n" using wr(6) True unfolding sz by fastforce
    qed
  next
    case False
    then have m: "m = ?sz" using wr(4) by simp
    have P: "processing_iteration api clock s ib ob k =
        Some (moved s a' b' (stats_processed (framesPerBuffer (srv_config s)) (elapsed_us (clock 0) (clock 1)) (srv_stats s)),
          x, x, snd (effect_eventfd_signal (srv_eventFdOut s) k1))"
      unfolding processing_iteration_def
      using w q(1,3) enough r(1) ib g proc wr(1) m by (simp split: prod.split)
    have "contents b' = contents b @ x" using wr(5) unfolding m sz by (simp add: len)
    then show thesis by (rule delivered [OF P r(2,3) a' wr(2,3)])
  qed
qed

end

end
