(* ===== verification/SessionLife.thy ===== *)
theory SessionLife
  imports Session
begin

text \<open>
  The life of a service session as a state machine: every interleaving of the calls of
  \<open>effectd/include/effectd_session.h\<close>, turns of the processing thread, and the client's use of the
  shared queues and events. The invariant ties the session's state to the existence of the thread
  and to the heap; its consequences are that the thread never outlives the session, that
  destroying a session in any state gives everything back, and that a stopped session stays
  stopped.
\<close>

section \<open>Steps\<close>

record 'q server =
  session :: "'q ServerSession option"
  worker :: thread
  ker :: kernel

text \<open>\<open>client\<close> is everything outside the session: it may set the session's queues and events, as the
  HIDL glue is meant to, use the queues, signal, wait, and open and close what is its own; it does
  not touch the service's heap.\<close>

inductive server_step :: "'q fmq_api \<Rightarrow> 'q server \<Rightarrow> 'q server \<Rightarrow> bool" for api where
  open_call: "effectd_session_open (session sv) = (r, s') \<Longrightarrow> server_step api sv (sv\<lparr>session := s'\<rparr>)"
| start_call: "effectd_session_start (session sv) (worker sv) (ker sv) = (r, s', th', k') \<Longrightarrow>
    server_step api sv \<lparr>session = s', worker = th', ker = k'\<rparr>"
| stop_call: "effectd_session_stop (session sv) (worker sv) (ker sv) = (r, s', th', k') \<Longrightarrow>
    server_step api sv \<lparr>session = s', worker = th', ker = k'\<rparr>"
| destroy_call: "effectd_session_destroy (session sv) (worker sv) (ker sv) = (s', th', k') \<Longrightarrow>
    server_step api sv \<lparr>session = s', worker = th', ker = k'\<rparr>"
| turn: "session sv = Some s \<Longrightarrow> thread_turn api clock s (worker sv) (ker sv) = Some (s', th', k') \<Longrightarrow>
    server_step api sv \<lparr>session = Some s', worker = th', ker = k'\<rparr>"
| client: "session sv = Some s \<Longrightarrow> heap_blocks k' = heap_blocks (ker sv) \<Longrightarrow>
    server_step api sv (sv\<lparr>session := Some (s\<lparr>srv_inputFmq := a, srv_outputFmq := b,
      srv_eventFdIn := i, srv_eventFdOut := j\<rparr>), ker := k'\<rparr>)"

inductive_cases server_stepE: "server_step api sv sv'"

text \<open>The invariant, over the heap blocks \<open>h\<close> that are not the session's.\<close>

fun thread_blocks :: "thread \<Rightarrow> nat" where
  "thread_blocks (Looping ib ob) = 2"
| "thread_blocks _ = 0"

definition server_ok :: "nat \<Rightarrow> 'q server \<Rightarrow> bool" where
  "server_ok h sv \<longleftrightarrow>
     (case session sv of
        None \<Rightarrow> worker sv = NoThread \<and> heap_blocks (ker sv) = h
      | Some s \<Rightarrow> (worker sv \<noteq> NoThread \<longleftrightarrow> state s = SESSION_STATE_STARTED) \<and>
          (threadRunning s \<longleftrightarrow> state s = SESSION_STATE_STARTED) \<and> state s \<noteq> SESSION_STATE_ERROR \<and>
          heap_blocks (ker sv) = h + 1 + thread_blocks (worker sv))"

lemma take_fault_heap: "take_fault k = (b, k') \<Longrightarrow> heap_blocks k' = heap_blocks k"
  using take_fault_faults by fastforce

lemma thread_enter_blocks:
  assumes "thread_enter s k = (th, k')"
  shows "heap_blocks k' = heap_blocks k + thread_blocks th" and "th \<noteq> NoThread"
    and "(\<exists>ib ob. th = Looping ib ob) \<or> th = Returned"
proof -
  obtain ok1 k1 where a: "heap_alloc k = (ok1, k1)" by fastforce
  obtain ok2 k2 where b: "heap_alloc k1 = (ok2, k2)" by fastforce
  have 1: "heap_blocks k1 = heap_blocks k + (if ok1 then 1 else 0)"
    using a by (rule heap_alloc_cases) auto
  have 2: "heap_blocks k2 = heap_blocks k1 + (if ok2 then 1 else 0)"
    using b by (rule heap_alloc_cases) auto
  show "heap_blocks k' = heap_blocks k + thread_blocks th" and "th \<noteq> NoThread"
    and "(\<exists>ib ob. th = Looping ib ob) \<or> th = Returned"
    using assms 1 2 by (auto simp: thread_enter_def a b Let_def heap_free_def split: if_splits)
qed

lemma pthread_join_blocks:
  assumes "pthread_join s th k = (th', k')"
  shows "th' = NoThread" and "heap_blocks k' = heap_blocks k - thread_blocks th"
proof -
  obtain t k1 where e: "thread_enter s k = (t, k1)" by fastforce
  show "th' = NoThread" and "heap_blocks k' = heap_blocks k - thread_blocks th"
    using assms thread_enter_blocks [OF e]
    by (cases th; auto simp: pthread_join_def e Let_def heap_free_def split: thread.splits)+
qed

lemma pthread_joinD:
  "pthread_join s th k = (th', k') \<Longrightarrow> th' = NoThread \<and> heap_blocks k' = heap_blocks k - thread_blocks th"
  using pthread_join_blocks by blast

text \<open>An iteration changes only the queues and statistics of the session, and no heap.\<close>

lemma iteration_frame:
  assumes "processing_iteration api clock s ib ob k = Some (s', ib', ob', k')"
  shows "state s' = state s" and "threadRunning s' = threadRunning s" and "srv_config s' = srv_config s"
    and "heap_blocks k' = heap_blocks k"
proof -
  obtain w k1 where w: "effect_eventfd_wait (srv_eventFdIn s) 100 k = (w, k1)" by fastforce
  obtain sg k2 where g: "effect_eventfd_signal (srv_eventFdOut s) k1 = (sg, k2)" by fastforce
  have h: "heap_blocks k1 = heap_blocks k" "heap_blocks k2 = heap_blocks k1"
    using event_frameD(4) wait_frame [OF w] signal_frame [OF g] by blast+
  show "state s' = state s" and "threadRunning s' = threadRunning s" and "srv_config s' = srv_config s"
    and "heap_blocks k' = heap_blocks k"
    using assms w g h
    by (auto simp: processing_iteration_def Let_def split: if_splits Option.bind_splits)
qed

lemma server_step_ok:
  assumes "server_step api sv sv'" and "server_ok h sv"
  shows "server_ok h sv'"
  using assms(1)
proof cases
  case (open_call r s')
  then show ?thesis
    using assms(2) by (cases sv) (auto simp: effectd_session_open_def server_ok_def split: option.splits if_splits)
next
  case (start_call r s' th' k')
  then show ?thesis
    using assms(2)
    by (cases sv) (auto simp: effectd_session_start_def server_ok_def pthread_create_def Let_def take_fault_heap
        split: option.splits if_splits prod.splits)
next
  case (stop_call r s' th' k')
  then show ?thesis
    using assms(2)
    by (cases sv) (auto simp: effectd_session_stop_def server_ok_def Let_def
        dest: pthread_joinD split: option.splits if_splits prod.splits)
next
  case (destroy_call s' th' k')
  then show ?thesis
    using assms(2)
    by (cases sv) (auto simp: effectd_session_destroy_def effectd_session_stop_def server_ok_def Let_def heap_free_def
        dest: pthread_joinD split: option.splits if_splits prod.splits)
next
  case (turn s clock s' th' k')
  note turned = turn
  show ?thesis
  proof (cases "worker sv")
    case Created
    obtain t k1 where e: "thread_enter s (ker sv) = (t, k1)" by fastforce
    show ?thesis
      using assms(2) turned thread_enter_blocks [OF e] by (auto simp: server_ok_def thread_turn_def Created e)
  next
    case (Looping ib ob)
    show ?thesis
    proof (cases "threadRunning s")
      case True
      then obtain ib' ob' where "processing_iteration api clock s ib ob (ker sv) = Some (s', ib', ob', k')"
          "th' = Looping ib' ob'"
        using turned(3) Looping by (auto simp: thread_turn_def split: Option.bind_splits)
      then show ?thesis
        using assms(2) turned iteration_frame by (fastforce simp: server_ok_def Looping)
    next
      case False
      then show ?thesis using assms(2) turned Looping by (auto simp: server_ok_def)
    qed
  qed (use assms(2) turned in \<open>auto simp: server_ok_def thread_turn_def\<close>)
next
  case (client s k' a b i j)
  then show ?thesis using assms(2) by (auto simp: server_ok_def)
qed

lemma server_steps_ok: "(server_step api)\<^sup>*\<^sup>* sv sv' \<Longrightarrow> server_ok h sv \<Longrightarrow> server_ok h sv'"
  by (induction rule: rtranclp_induct) (blast intro: server_step_ok)+

lemma created_ok:
  assumes "effectd_session_create sid kind cfg k = (s, k')"
  shows "server_ok (heap_blocks k) \<lparr>session = s, worker = NoThread, ker = k'\<rparr>"
proof -
  obtain ok k1 where a: "heap_alloc k = (ok, k1)" by fastforce
  then show ?thesis
    using assms a by (cases rule: heap_alloc_cases) (auto simp: effectd_session_create_def server_ok_def)
qed

section \<open>A stopped session\<close>

definition stopped :: "'q server \<Rightarrow> bool" where
  "stopped sv \<longleftrightarrow> worker sv = NoThread \<and>
     (case session sv of None \<Rightarrow> True | Some s \<Rightarrow> state s = SESSION_STATE_STOPPED \<and> \<not> threadRunning s)"

lemma stopped_step:
  assumes "server_step api sv sv'" and "stopped sv"
  shows "stopped sv'"
  using assms(1)
proof cases
  case (open_call r s')
  then show ?thesis
    using assms(2) by (cases sv) (auto simp: effectd_session_open_def stopped_def split: option.splits if_splits)
next
  case (start_call r s' th' k')
  then show ?thesis
    using assms(2) by (cases sv) (auto simp: effectd_session_start_def stopped_def split: option.splits if_splits)
next
  case (stop_call r s' th' k')
  then show ?thesis
    using assms(2) by (cases sv) (auto simp: effectd_session_stop_def stopped_def split: option.splits if_splits)
next
  case (destroy_call s' th' k')
  then show ?thesis
    using assms(2) by (cases sv) (auto simp: effectd_session_destroy_def stopped_def split: option.splits if_splits)
next
  case (turn s clock s' th' k')
  then show ?thesis using assms(2) by (auto simp: stopped_def thread_turn_def)
next
  case (client s k' a b i j)
  then show ?thesis using assms(2) by (auto simp: stopped_def)
qed

lemma stopped_steps: "(server_step api)\<^sup>*\<^sup>* sv sv' \<Longrightarrow> stopped sv \<Longrightarrow> stopped sv'"
  by (induction rule: rtranclp_induct) (blast intro: stopped_step)+

section \<open>The thread on its own\<close>

text \<open>Turn after turn with nobody else acting, for as many turns as there are clocks.\<close>

fun thread_run ::
  "'q fmq_api \<Rightarrow> (nat \<Rightarrow> timespec) list \<Rightarrow> 'q ServerSession \<Rightarrow> thread \<Rightarrow> kernel \<Rightarrow>
   ('q ServerSession \<times> thread \<times> kernel) option" where
  "thread_run api [] s th k = Some (s, th, k)"
| "thread_run api (c # cs) s th k = do {
     (s, th, k) \<leftarrow> thread_turn api c s th k;
     thread_run api cs s th k }"

lemma wait_no_fd:
  assumes "effect_eventfd_wait fd t k = (w, k')" and "fd < 0"
  shows "w < 0"
proof (rule ccontr)
  assume "\<not> w < 0"
  then have "\<exists>c. fd_of k fd = Some (EventFd c) \<and> c \<noteq> 0"
    using wait_succeedsD [OF assms(1)] by simp
  then show False using assms(2) by (simp add: fd_of_def)
qed

lemma iteration_no_fd:
  assumes "srv_eventFdIn s < 0"
  shows "\<exists>k'. processing_iteration api clock s ib ob k = Some (s, ib, ob, k')"
proof -
  obtain w k' where w: "effect_eventfd_wait (srv_eventFdIn s) 100 k = (w, k')" by fastforce
  then have "w < 0" using wait_no_fd assms by blast
  then show ?thesis using iteration_idle [OF w] by blast
qed

lemma thread_run_no_fd:
  assumes "srv_eventFdIn s < 0"
  shows "\<exists>th' k'. thread_run api cs s th k = Some (s, th', k')"
proof (induction cs arbitrary: th k)
  case (Cons c cs)
  have "\<exists>th' k'. thread_turn api c s th k = Some (s, th', k')"
  proof (cases th)
    case (Looping ib ob)
    obtain k' where "processing_iteration api c s ib ob k = Some (s, ib, ob, k')"
      using iteration_no_fd [OF assms] by blast
    then show ?thesis by (simp add: thread_turn_def Looping)
  qed (auto simp: thread_turn_def split: prod.split)
  then show ?case using Cons by fastforce
qed simp

section \<open>Properties\<close>

text \<open>C14. The life of a service session, over every interleaving of calls, thread turns and client
  actions from its creation: the thread exists exactly while the session is started, the error
  state is never entered, the heap holds the session and, in the loop, its two buffers; and
  destroying it, whatever its state, stops the thread and gives every block back.\<close>

theorem server_life_safe:
  assumes "effectd_session_create sid kind cfg k = (Some s0, k0)"
    and "(server_step api)\<^sup>*\<^sup>* \<lparr>session = Some s0, worker = NoThread, ker = k0\<rparr> sv"
  shows "(case session sv of
      None \<Rightarrow> worker sv = NoThread \<and> heap_blocks (ker sv) = heap_blocks k
    | Some s \<Rightarrow> (worker sv \<noteq> NoThread \<longleftrightarrow> state s = SESSION_STATE_STARTED) \<and>
        (threadRunning s \<longleftrightarrow> state s = SESSION_STATE_STARTED) \<and> state s \<noteq> SESSION_STATE_ERROR \<and>
        heap_blocks (ker sv) = heap_blocks k + 1 + thread_blocks (worker sv)) \<and>
    (\<exists>k'. effectd_session_destroy (session sv) (worker sv) (ker sv) = (None, NoThread, k') \<and>
      heap_blocks k' = heap_blocks k)"
proof -
  have ok: "server_ok (heap_blocks k) sv"
    by (rule server_steps_ok [OF assms(2) created_ok [OF assms(1)]])
  obtain s' th' k' where d: "effectd_session_destroy (session sv) (worker sv) (ker sv) = (s', th', k')"
    by (metis prod_cases3)
  have "server_ok (heap_blocks k) \<lparr>session = s', worker = th', ker = k'\<rparr>"
    by (rule server_step_ok [OF destroy_call [OF d] ok])
  moreover have "s' = None"
    using d by (auto simp: effectd_session_destroy_def split: option.splits prod.splits)
  ultimately show ?thesis using ok d by (simp add: server_ok_def)
qed

text \<open>Opened, started, its thread entered, on an empty kernel.\<close>

theorem server_life_safe_witness:
  "\<exists>s0 k0 sv. effectd_session_create 7 EFFECT_LIB_NOISE_REDUCTION
      \<lparr>sampleRate = 48000, channels = 1, format = 16, framesPerBuffer = 1\<rparr> (fresh_kernel []) = (Some s0, k0) \<and>
    (server_step fallback_api)\<^sup>*\<^sup>* \<lparr>session = Some s0, worker = NoThread, ker = k0\<rparr> sv \<and>
    worker sv = Looping (replicate 2 0) (replicate 2 0) \<and> heap_blocks (ker sv) = 3 \<and>
    (\<exists>k'. effectd_session_destroy (session sv) (worker sv) (ker sv) = (None, NoThread, k') \<and> heap_blocks k' = 0)"
proof -
  let ?cfg = "\<lparr>sampleRate = 48000, channels = 1, format = 16, framesPerBuffer = 1\<rparr>"
  let ?k = "\<lambda>n. (fresh_kernel [])\<lparr>heap_blocks := n\<rparr>"
  define s0 :: "EffectFmqContext ServerSession" where "s0 = \<lparr>srv_sessionId = 7, srv_effectType = EFFECT_LIB_NOISE_REDUCTION,
      srv_config = ?cfg, state = SESSION_STATE_IDLE, srv_inputFmq = None, srv_outputFmq = None,
      srv_eventFdIn = - 1, srv_eventFdOut = - 1, libHandle = None, libContext = None,
      threadRunning = False, srv_stats = zero_stats\<rparr>"
  define s1 where "s1 = s0\<lparr>state := SESSION_STATE_OPENED\<rparr>"
  define s2 where "s2 = s1\<lparr>threadRunning := True, state := SESSION_STATE_STARTED\<rparr>"
  define sv where "sv = \<lparr>session = Some s2, worker = Looping (replicate 2 0) (replicate 2 0), ker = ?k 3\<rparr>"
  have c: "effectd_session_create 7 EFFECT_LIB_NOISE_REDUCTION ?cfg (fresh_kernel []) = (Some s0, ?k 1)"
    by (simp add: effectd_session_create_def heap_alloc_def take_fault_def fresh_kernel_def s0_def)
  have bs: "unat (buffer_size ?cfg) = 2" by (simp add: buffer_size_def calculate_bytes_per_frame_def)
  have st1: "server_step fallback_api \<lparr>session = Some s0, worker = NoThread, ker = ?k 1\<rparr>
      \<lparr>session = Some s1, worker = NoThread, ker = ?k 1\<rparr>"
    using open_call [of "\<lparr>session = Some s0, worker = NoThread, ker = ?k 1\<rparr>" 0 "Some s1" fallback_api]
    by (simp add: effectd_session_open_def s1_def) (simp add: s0_def)
  have st2: "server_step fallback_api \<lparr>session = Some s1, worker = NoThread, ker = ?k 1\<rparr>
      \<lparr>session = Some s2, worker = Created, ker = ?k 1\<rparr>"
    by (rule start_call [where r = 0])
      (simp add: effectd_session_start_def pthread_create_def take_fault_def fresh_kernel_def s1_def s2_def)
  have st3: "server_step fallback_api \<lparr>session = Some s2, worker = Created, ker = ?k 1\<rparr> sv"
    unfolding sv_def
    by (rule turn [of _ s2])
      (simp_all add: thread_turn_def thread_enter_def heap_alloc_def take_fault_def fresh_kernel_def
        s2_def s1_def s0_def bs)
  have steps: "(server_step fallback_api)\<^sup>*\<^sup>* \<lparr>session = Some s0, worker = NoThread, ker = ?k 1\<rparr> sv"
    using st1 st2 st3 by (meson converse_rtranclp_into_rtranclp rtranclp.rtrancl_refl)
  have d: "\<exists>k'. effectd_session_destroy (session sv) (worker sv) (ker sv) = (None, NoThread, k') \<and> heap_blocks k' = 0"
    using server_life_safe [OF c steps] by (simp add: fresh_kernel_def)
  have "worker sv = Looping (replicate 2 0) (replicate 2 0)" and "heap_blocks (ker sv) = 3"
    by (simp_all add: sv_def)
  then show ?thesis using c steps d by blast
qed

text \<open>Stopping is final: once a stop has succeeded, in every later state there is no thread,
  the session is stopped or destroyed, and starting it fails and changes nothing.\<close>

theorem server_stop_is_final:
  assumes "effectd_session_stop (session sv0) (worker sv0) (ker sv0) = (0, s1, th1, k1)"
    and "(server_step api)\<^sup>*\<^sup>* \<lparr>session = s1, worker = th1, ker = k1\<rparr> sv"
  shows "worker sv = NoThread \<and>
    (\<forall>s. session sv = Some s \<longrightarrow> state s = SESSION_STATE_STOPPED \<and> \<not> threadRunning s) \<and>
    effectd_session_start (session sv) (worker sv) (ker sv) = (- 1, session sv, worker sv, ker sv)"
proof -
  have "stopped \<lparr>session = s1, worker = th1, ker = k1\<rparr>"
    using assms(1)
    by (auto simp: effectd_session_stop_def stopped_def Let_def dest: pthread_joinD
        split: option.splits if_splits prod.splits)
  then have "stopped sv" by (rule stopped_steps [OF assms(2)])
  then show ?thesis by (auto simp: stopped_def effectd_session_start_def split: option.splits)
qed

theorem server_stop_is_final_witness:
  "\<exists>s :: EffectFmqContext ServerSession. \<exists>s1 th1 k1.
    effectd_session_stop (Some s) Returned (fresh_kernel []) = (0, s1, th1, k1) \<and>
    effectd_session_start s1 th1 k1 = (- 1, s1, th1, k1)"
proof -
  define s :: "EffectFmqContext ServerSession" where "s = \<lparr>srv_sessionId = 7, srv_effectType = EFFECT_LIB_NOISE_REDUCTION,
      srv_config = \<lparr>sampleRate = 48000, channels = 1, format = 16, framesPerBuffer = 1\<rparr>,
      state = SESSION_STATE_STARTED, srv_inputFmq = None, srv_outputFmq = None,
      srv_eventFdIn = - 1, srv_eventFdOut = - 1, libHandle = None, libContext = None,
      threadRunning = True, srv_stats = zero_stats\<rparr>"
  let ?sv = "\<lparr>session = Some s, worker = Returned, ker = fresh_kernel []\<rparr>"
  obtain s1 th1 k1 where st: "effectd_session_stop (session ?sv) (worker ?sv) (ker ?sv) = (0, s1, th1, k1)"
    by (simp add: effectd_session_stop_def pthread_join_def s_def)
  show ?thesis
    using server_stop_is_final [OF st rtranclp.rtrancl_refl] st by auto
qed





text \<open>A session as this source sets it up never processes anything: its event descriptor is
  \<open>- 1\<close> from creation, no call sets it, and the thread, started or not, however long it runs, leaves
  the session with its statistics at zero.\<close>

theorem server_unattached_never_processes:
  assumes "effectd_session_create sid kind cfg k = (Some s0, k0)"
    and "effectd_session_open (Some s0) = (0, Some s1)"
    and "effectd_session_start (Some s1) NoThread k0 = (0, Some s2, th, k1)"
  shows "\<exists>th' k'. thread_run api cs s2 th k1 = Some (s2, th', k') \<and> srv_stats s2 = zero_stats"
proof -
  have "srv_eventFdIn s2 = - 1" and "srv_stats s2 = zero_stats"
    using assms
    by (auto simp: effectd_session_create_def effectd_session_open_def effectd_session_start_def Let_def
        split: prod.splits if_splits)
  then show ?thesis using thread_run_no_fd [of s2 api cs th k1] by auto
qed

theorem server_unattached_never_processes_witness:
  "\<exists>s0 :: EffectFmqContext ServerSession. \<exists>k0 s1 s2 th k1. effectd_session_create 7 EFFECT_LIB_NOISE_REDUCTION
      \<lparr>sampleRate = 48000, channels = 1, format = 16, framesPerBuffer = 1\<rparr> (fresh_kernel []) = (Some s0, k0) \<and>
    effectd_session_open (Some s0) = (0, Some s1) \<and>
    effectd_session_start (Some s1) NoThread k0 = (0, Some s2, th, k1) \<and>
    (\<exists>th' k'. thread_run fallback_api [\<lambda>i. \<lparr>tv_sec = 0, tv_nsec = 0\<rparr>, \<lambda>i. \<lparr>tv_sec = 1, tv_nsec = 0\<rparr>] s2 th k1 =
      Some (s2, th', k') \<and> srv_stats s2 = zero_stats)"
proof -
  obtain s0 :: "EffectFmqContext ServerSession" and k0 where c: "effectd_session_create 7 EFFECT_LIB_NOISE_REDUCTION
      \<lparr>sampleRate = 48000, channels = 1, format = 16, framesPerBuffer = 1\<rparr> (fresh_kernel []) = (Some s0, k0)"
    "state s0 = SESSION_STATE_IDLE" "faults k0 = []"
    by (simp add: effectd_session_create_def heap_alloc_def take_fault_def fresh_kernel_def)
  obtain s1 where o: "effectd_session_open (Some s0) = (0, Some s1)" "state s1 = SESSION_STATE_OPENED"
    using c(2) by (simp add: effectd_session_open_def)
  obtain s2 th k1 where st: "effectd_session_start (Some s1) NoThread k0 = (0, Some s2, th, k1)"
    using o(2) c(3) by (simp add: effectd_session_start_def pthread_create_def take_fault_def)
  show ?thesis
    using server_unattached_never_processes [OF c(1) o(1) st] c(1) o(1) st by blast
qed

end
