(* ===== verification/ShmSession.thy ===== *)
theory ShmSession
  imports Session
begin

text \<open>
  The shared memory build of \<open>effectd/src/effectd_session.c\<close>: the fields of the session that differ
  without \<open>USE_FMQ\<close>, and the loop of the processing thread over its two ring buffers. The data block
  of each ring is a memory object of its own. A session as \<open>effectd_session_create\<close> leaves it has
  both rings zeroed: capacity zero and a null block, the empty object.
\<close>

section \<open>The loop over ring buffers\<close>

record ShmServerSession =
  lg_config :: AudioConfig
  lg_inputRb :: effect_ringbuffer_t
  lg_outputRb :: effect_ringbuffer_t
  lg_inputData :: bytes
  lg_outputData :: bytes
  lg_eventFdIn :: int
  lg_eventFdOut :: int
  lg_libContext :: "nat option"
  lg_stats :: SessionStats

definition legacy_iteration ::
  "(nat \<Rightarrow> timespec) \<Rightarrow> ShmServerSession \<Rightarrow> bytes \<Rightarrow> bytes \<Rightarrow> kernel \<Rightarrow>
   (ShmServerSession \<times> bytes \<times> bytes \<times> kernel) option" where
  "legacy_iteration clock session inputBuffer outputBuffer k =
     (let bytesPerFrame = calculate_bytes_per_frame (lg_config session);
          bufferSize = buffer_size (lg_config session);
          (wait_result, k) = effect_eventfd_wait (lg_eventFdIn session) 100 k
      in if wait_result < 0 then Some (session, inputBuffer, outputBuffer, k)
         else
           let start_time = clock 0; available = effect_ringbuffer_get_read_available (lg_inputRb session) in
           if available < bufferSize then Some (session, inputBuffer, outputBuffer, k)
           else do {
             (got, inputBuffer, rb) \<leftarrow>
               effect_ringbuffer_read (lg_inputRb session) (lg_inputData session) inputBuffer bufferSize;
             let session = session\<lparr>lg_inputRb := rb\<rparr>;
             if got < bufferSize then
               Some (session\<lparr>lg_stats := stats_xrun (lg_stats session)\<rparr>, inputBuffer, outputBuffer, k)
             else do {
               outputBuffer \<leftarrow> mock_process_audio (lg_libContext session) inputBuffer outputBuffer
                 (framesPerBuffer (lg_config session)) bytesPerFrame;
               (written, rb, data) \<leftarrow>
                 effect_ringbuffer_write (lg_outputRb session) (lg_outputData session) outputBuffer bufferSize;
               let session = session\<lparr>lg_outputRb := rb, lg_outputData := data\<rparr>;
               if written < bufferSize then
                 Some (session\<lparr>lg_stats := stats_dropped (framesPerBuffer (lg_config session)) (lg_stats session)\<rparr>,
                   inputBuffer, outputBuffer, k)
               else
                 let (sig, k) = effect_eventfd_signal (lg_eventFdOut session) k;
                     latency = elapsed_us start_time (clock 1)
                 in Some (session\<lparr>lg_stats :=
                      stats_processed (framesPerBuffer (lg_config session)) latency (lg_stats session)\<rparr>,
                      inputBuffer, outputBuffer, k) } })"

section \<open>The two builds compared\<close>

text \<open>The session of this build whose rings are those behind two fallback queues.\<close>

definition legacy_of :: "'q ServerSession \<Rightarrow> EffectFmqContext \<Rightarrow> EffectFmqContext \<Rightarrow> ShmServerSession" where
  "legacy_of s a b = \<lparr>lg_config = srv_config s, lg_inputRb = ringbuffer a, lg_outputRb = ringbuffer b,
     lg_inputData = buffer a, lg_outputData = buffer b, lg_eventFdIn = srv_eventFdIn s,
     lg_eventFdOut = srv_eventFdOut s, lg_libContext = libContext s, lg_stats = srv_stats s\<rparr>"

definition legacy_result ::
  "EffectFmqContext ServerSession \<times> bytes \<times> bytes \<times> kernel \<Rightarrow> ShmServerSession \<times> bytes \<times> bytes \<times> kernel" where
  "legacy_result r = (case r of (s, ib, ob, k) \<Rightarrow> (legacy_of s (the (srv_inputFmq s)) (the (srv_outputFmq s)), ib, ob, k))"

lemma ucast_u32_less [simp]: "(ucast (a :: u32) :: u64) < ucast (b :: u32) \<longleftrightarrow> a < b"
  by (simp add: word_less_nat_alt)

lemma ucast_u32_0 [simp]: "(ucast (a :: u32) :: u64) = 0 \<longleftrightarrow> a = 0"
  by (metis u32_to_u64_to_u32 ucast_0)

lemma fallback_read_ring:
  "api_read fallback_api (Some a) (Some dst) (ucast n) =
    map_option (\<lambda>(m, d, rb). (ucast m, Some d, Some (a\<lparr>ringbuffer := rb\<rparr>)))
      (effect_ringbuffer_read (ringbuffer a) (buffer a) dst n)"
  by (cases "n = 0") (auto simp: fallback_api_def effect_fmq_read_def effect_ringbuffer_read_def [of _ _ _ 0]
    map_option_bind intro!: map_option_cong split: option.splits simp: map_option_case)

lemma fallback_write_ring:
  "api_write fallback_api (Some a) (Some src) (ucast n) =
    map_option (\<lambda>(m, rb, d). (ucast m, Some (a\<lparr>ringbuffer := rb, buffer := d\<rparr>)))
      (effect_ringbuffer_write (ringbuffer a) (buffer a) src n)"
  by (cases "n = 0") (auto simp: fallback_api_def effect_fmq_write_def effect_ringbuffer_write_def [of _ _ _ 0]
    split: option.splits simp: map_option_case)

lemma fallback_available_ring:
  "api_available_to_read fallback_api (Some a) = ucast (effect_ringbuffer_get_read_available (ringbuffer a))"
  by (simp add: fallback_api_def effect_fmq_available_to_read_def)

lemmas ring_views = fallback_read_ring fallback_write_ring fallback_available_ring legacy_result_def legacy_of_def

lemmas iterations = legacy_iteration_def processing_iteration_def

text \<open>Once a whole buffer was read.\<close>

lemma legacy_after_read:
  assumes q: "srv_inputFmq s = Some a" "srv_outputFmq s = Some b"
    and w: "effect_eventfd_wait (srv_eventFdIn s) 100 k = (w, k1)" "\<not> w < 0"
    and av: "\<not> effect_ringbuffer_get_read_available (ringbuffer a) < buffer_size (srv_config s)"
    and r: "effect_ringbuffer_read (ringbuffer a) (buffer a) ib (buffer_size (srv_config s)) = Some (m, d, rb)"
      "\<not> m < buffer_size (srv_config s)"
  shows "legacy_iteration clock (legacy_of s a b) ib ob k =
    map_option legacy_result (processing_iteration fallback_api clock s ib ob k)"
proof -
  obtain sg k2 where sg: "effect_eventfd_signal (srv_eventFdOut s) k1 = (sg, k2)" by fastforce
  let ?n = "buffer_size (srv_config s)"
  note ctx = q w sg av r
  show ?thesis
  proof (cases "mock_process_audio (libContext s) d ob (framesPerBuffer (srv_config s)) (calculate_bytes_per_frame (srv_config s))")
    case None
    then show ?thesis using ctx by (simp add: iterations ring_views)
  next
    case O: (Some o')
    show ?thesis
    proof (cases "effect_ringbuffer_write (ringbuffer b) (buffer b) o' ?n")
      case None
      then show ?thesis using ctx O by (simp add: iterations ring_views)
    next
      case (Some wr)
      then obtain m' rb' d' where "effect_ringbuffer_write (ringbuffer b) (buffer b) o' ?n = Some (m', rb', d')"
        by (cases wr) auto
      then show ?thesis using ctx O by (cases "m' < ?n") (simp_all add: iterations ring_views)
    qed
  qed
qed

text \<open>C22. The two builds run the same loop: an iteration of the shared memory build over two rings is, step for
  step and error for error, the iteration of the message queue build over the fallback queues with
  these rings.\<close>
theorem legacy_iteration_equivalent:
  assumes "srv_inputFmq s = Some a" and "srv_outputFmq s = Some b"
  shows "legacy_iteration clock (legacy_of s a b) ib ob k =
    map_option legacy_result (processing_iteration fallback_api clock s ib ob k)"
proof -
  obtain w k1 where w: "effect_eventfd_wait (srv_eventFdIn s) 100 k = (w, k1)" by fastforce
  let ?n = "buffer_size (srv_config s)"
  show ?thesis
  proof (cases "w < 0 \<or> effect_ringbuffer_get_read_available (ringbuffer a) < ?n")
    case True
    then show ?thesis using assms w by (auto simp: iterations ring_views Let_def)
  next
    case go: False
    show ?thesis
    proof (cases "effect_ringbuffer_read (ringbuffer a) (buffer a) ib ?n")
      case None
      then show ?thesis using assms w go by (simp add: iterations ring_views)
    next
      case (Some r)
      then obtain m d rb where "effect_ringbuffer_read (ringbuffer a) (buffer a) ib ?n = Some (m, d, rb)" by (cases r) auto
      then show ?thesis
        using assms w go legacy_after_read [OF assms w] by (cases "m < ?n") (simp_all add: iterations ring_views)
    qed
  qed
qed

definition queue_session :: "EffectFmqContext ServerSession" where
  "queue_session = \<lparr>srv_sessionId = 7, srv_effectType = EFFECT_LIB_NOISE_REDUCTION,
     srv_config = \<lparr>sampleRate = 48000, channels = 1, format = 16, framesPerBuffer = 1\<rparr>,
     state = SESSION_STATE_STARTED, srv_inputFmq = Some small_queue, srv_outputFmq = Some small_queue,
     srv_eventFdIn = 0, srv_eventFdOut = 1, libHandle = None, libContext = None, threadRunning = True, srv_stats = zero_stats\<rparr>"

text \<open>Nothing arrives: the wait times out and both builds go round with nothing changed.\<close>

theorem legacy_iteration_equivalent_witness:
  "legacy_iteration (\<lambda>i. \<lparr>tv_sec = 0, tv_nsec = 0\<rparr>) (legacy_of queue_session small_queue small_queue) [0, 0] [0, 0] (fresh_kernel []) =
    Some (legacy_of queue_session small_queue small_queue, [0, 0], [0, 0], fresh_kernel [])"
proof -
  have q: "srv_inputFmq queue_session = Some small_queue" "srv_outputFmq queue_session = Some small_queue"
    by (simp_all add: queue_session_def)
  have "processing_iteration fallback_api (\<lambda>i. \<lparr>tv_sec = 0, tv_nsec = 0\<rparr>) queue_session [0, 0] [0, 0] (fresh_kernel []) =
      Some (queue_session, [0, 0], [0, 0], fresh_kernel [])"
    by (rule iteration_idle [where w = "- 1"]) (simp_all add: closed_events fresh_closed)
  then show ?thesis
    using legacy_iteration_equivalent [OF q, of "\<lambda>i. \<lparr>tv_sec = 0, tv_nsec = 0\<rparr>" "[0, 0]" "[0, 0]" "fresh_kernel []"] by (simp add: legacy_result_def q)
qed

end
