(* ===== verification/Lifecycle.thy ===== *)
theory Lifecycle
  imports SessionLife
begin

text \<open>
  The states of a service session (\<open>SessionState\<close> of \<open>effectd/include/effectd_session.h\<close>) as an abstract
  automaton, and the refinement: every step of \<open>server_step\<close>, whoever makes it, is a transition of
  the automaton or leaves its state. The states are ordered by the values of the C enumeration, and
  no step goes back.
\<close>

section \<open>The order of the states\<close>

fun state_value :: "SessionState \<Rightarrow> nat" where
  "state_value SESSION_STATE_IDLE = 0"
| "state_value SESSION_STATE_OPENED = 1"
| "state_value SESSION_STATE_STARTED = 2"
| "state_value SESSION_STATE_STOPPED = 3"
| "state_value SESSION_STATE_ERROR = 4"

lemma state_value_inject [simp]: "state_value s = state_value t \<longleftrightarrow> s = t"
  by (cases s; cases t) simp_all

instantiation SessionState :: linorder
begin

definition less_eq_SessionState :: "SessionState \<Rightarrow> SessionState \<Rightarrow> bool" where
  "s \<le> t \<longleftrightarrow> state_value s \<le> state_value t"

definition less_SessionState :: "SessionState \<Rightarrow> SessionState \<Rightarrow> bool" where
  "s < t \<longleftrightarrow> state_value s < state_value t"

instance
  by standard (auto simp: less_eq_SessionState_def less_SessionState_def)

end

section \<open>The automaton\<close>

text \<open>\<open>None\<close> is a session that was destroyed.\<close>

inductive life_step :: "SessionState option \<Rightarrow> SessionState option \<Rightarrow> bool" where
  opens: "life_step (Some SESSION_STATE_IDLE) (Some SESSION_STATE_OPENED)"
| starts: "life_step (Some SESSION_STATE_OPENED) (Some SESSION_STATE_STARTED)"
| stops: "life_step (Some SESSION_STATE_STARTED) (Some SESSION_STATE_STOPPED)"
| destroys: "life_step (Some st) None"

inductive_cases life_stepE: "life_step l l'"
inductive_simps life_step_None [simp]: "life_step None l"
inductive_simps life_step_Some: "life_step (Some s) l"

code_pred life_step .

definition life :: "'q server \<Rightarrow> SessionState option" where
  "life sv = map_option state (session sv)"

lemma turn_state:
  "thread_turn api clock s th k = Some (s', th', k') \<Longrightarrow> state s' = state s"
  by (auto simp: thread_turn_def iteration_frame split: thread.splits if_splits Option.bind_splits prod.splits)

lemma step_refines: "server_step api sv sv' \<Longrightarrow> life sv' = life sv \<or> life_step (life sv) (life sv')"
proof (erule server_stepE)
  fix r s' assume "sv' = sv\<lparr>session := s'\<rparr>" "effectd_session_open (session sv) = (r, s')"
  then show ?thesis
    by (auto simp: effectd_session_open_def life_def life_step_Some split: option.splits if_splits)
next
  fix r s' th' k' assume "sv' = \<lparr>session = s', worker = th', ker = k'\<rparr>"
    "effectd_session_start (session sv) (worker sv) (ker sv) = (r, s', th', k')"
  then show ?thesis
    by (auto simp: effectd_session_start_def life_def life_step_Some Let_def split: option.splits if_splits prod.splits)
next
  fix r s' th' k' assume "sv' = \<lparr>session = s', worker = th', ker = k'\<rparr>"
    "effectd_session_stop (session sv) (worker sv) (ker sv) = (r, s', th', k')"
  then show ?thesis
    by (auto simp: effectd_session_stop_def life_def life_step_Some Let_def split: option.splits if_splits prod.splits)
next
  fix s' th' k' assume "sv' = \<lparr>session = s', worker = th', ker = k'\<rparr>"
    "effectd_session_destroy (session sv) (worker sv) (ker sv) = (s', th', k')"
  then show ?thesis
    by (auto simp: effectd_session_destroy_def life_def life_step_Some Let_def split: option.splits if_splits prod.splits)
next
  fix s clock s' th' k' assume "sv' = \<lparr>session = Some s', worker = th', ker = k'\<rparr>" "session sv = Some s"
    "thread_turn api clock s (worker sv) (ker sv) = Some (s', th', k')"
  then show ?thesis using turn_state [of api clock s "worker sv" "ker sv" s' th' k'] by (simp add: life_def)
next
  fix s k' a b i j
  assume "sv' = sv\<lparr>session := Some (s\<lparr>srv_inputFmq := a, srv_outputFmq := b, srv_eventFdIn := i, srv_eventFdOut := j\<rparr>), ker := k'\<rparr>"
    "session sv = Some s"
  then show ?thesis by (simp add: life_def)
qed

lemma life_step_advances: "life_step (Some s) (Some t) \<Longrightarrow> s < t"
  by (auto simp: life_step_Some less_SessionState_def)

lemma life_steps_advance: "life_step\<^sup>*\<^sup>* l l' \<Longrightarrow> (\<forall>s t. l = Some s \<longrightarrow> l' = Some t \<longrightarrow> s \<le> t) \<and> (l = None \<longrightarrow> l' = None)"
proof (induction rule: rtranclp_induct)
  case (step m l')
  then show ?case using life_step_advances
    by (cases m; cases l') (auto, meson less_imp_le order_trans)
qed simp

section \<open>Properties\<close>

text \<open>C20. The service refines the automaton of session states: whatever calls, thread turns and client actions
  follow each other, the state of the session moves along transitions idle, opened, started,
  stopped, and may be destroyed from any; so it never goes back, a destroyed session never
  returns, and the error state is not entered from another.\<close>

theorem server_refines_life_cycle:
  assumes "(server_step api)\<^sup>*\<^sup>* sv sv'"
  shows "life_step\<^sup>*\<^sup>* (life sv) (life sv') \<and>
    (\<forall>s s'. session sv = Some s \<longrightarrow> session sv' = Some s' \<longrightarrow> state s \<le> state s' \<and>
      (state s' = SESSION_STATE_ERROR \<longrightarrow> state s = SESSION_STATE_ERROR)) \<and>
    (session sv = None \<longrightarrow> session sv' = None)"
proof -
  have steps: "life_step\<^sup>*\<^sup>* (life sv) (life sv')"
    using assms
  proof (induction rule: rtranclp_induct)
    case (step y z)
    then show ?case using step_refines by (metis rtranclp.rtrancl_into_rtrancl)
  qed simp
  have "l = Some SESSION_STATE_ERROR \<or> l' \<noteq> Some SESSION_STATE_ERROR" if "life_step\<^sup>*\<^sup>* l l'" for l l'
    using that by (induction rule: rtranclp_induct) (auto elim: life_stepE)
  then show ?thesis using steps life_steps_advance [OF steps] by (fastforce simp: life_def)
qed

text \<open>A session that was created idle and then opened.\<close>

theorem server_refines_life_cycle_witness:
  "\<exists>s0 :: EffectFmqContext ServerSession. \<exists>k0 s1. effectd_session_create 7 EFFECT_LIB_NOISE_REDUCTION
      \<lparr>sampleRate = 48000, channels = 1, format = 16, framesPerBuffer = 1\<rparr> (fresh_kernel []) = (Some s0, k0) \<and>
    effectd_session_open (Some s0) = (0, Some s1) \<and> life_step\<^sup>*\<^sup>* (Some (state s0)) (Some (state s1)) \<and> state s0 \<le> state s1"
proof -
  obtain s0 :: "EffectFmqContext ServerSession" and k0 where c: "effectd_session_create 7 EFFECT_LIB_NOISE_REDUCTION
      \<lparr>sampleRate = 48000, channels = 1, format = 16, framesPerBuffer = 1\<rparr> (fresh_kernel []) = (Some s0, k0)"
    "state s0 = SESSION_STATE_IDLE"
    by (simp add: effectd_session_create_def heap_alloc_def take_fault_def fresh_kernel_def)
  obtain s1 where o: "effectd_session_open (Some s0) = (0, Some s1)" using c(2) by (simp add: effectd_session_open_def)
  let ?sv = "\<lparr>session = Some s0, worker = NoThread, ker = k0\<rparr>"
  have "server_step fallback_api ?sv (?sv\<lparr>session := Some s1\<rparr>)" by (rule open_call) (simp add: o)
  then have "(server_step fallback_api)\<^sup>*\<^sup>* ?sv (?sv\<lparr>session := Some s1\<rparr>)" by blast
  from server_refines_life_cycle [OF this] show ?thesis using c(1) o by (auto simp: life_def)
qed

text \<open>The calls follow the automaton exactly: opening, starting and stopping a session succeed if and only if
  the automaton has the transition from the session's state (and, for a start, the thread can be
  created), they then make it, and otherwise return \<open>- 1\<close> and leave the session's state as it is.\<close>

theorem session_calls_follow_automaton:
  "(fst (effectd_session_open (Some s)) = (if life_step (Some (state s)) (Some SESSION_STATE_OPENED) then 0 else - 1)) \<and>
   map_option state (snd (effectd_session_open (Some s))) =
     Some (if life_step (Some (state s)) (Some SESSION_STATE_OPENED) then SESSION_STATE_OPENED else state s) \<and>
   (case effectd_session_start (Some s) th k of (r, s', th', k') \<Rightarrow>
     let ok = life_step (Some (state s)) (Some SESSION_STATE_STARTED) \<and> \<not> fst (take_fault k) in
     r = (if ok then 0 else - 1) \<and> map_option state s' = Some (if ok then SESSION_STATE_STARTED else state s)) \<and>
   (case effectd_session_stop (Some s) th k of (r, s', th', k') \<Rightarrow>
     let ok = life_step (Some (state s)) (Some SESSION_STATE_STOPPED) in
     r = (if ok then 0 else - 1) \<and> map_option state s' = Some (if ok then SESSION_STATE_STOPPED else state s))"
  by (auto simp: effectd_session_open_def effectd_session_start_def effectd_session_stop_def pthread_create_def
      life_step_Some Let_def split: prod.split)

end
