(* ===== verification/System.thy ===== *)
theory System
  imports ClientLife Session
begin

text \<open>
  Client and service together, over the same two queues and events: \<open>EffectClient_Process\<close> with the
  real processing iteration of the service as its peer. What the pair does is specified as a
  delay line: two byte streams and two flags. Whatever the service's timing, each call of the code
  gives exactly the result of the delay line, and what comes back is the next part of one stream.
\<close>

section \<open>The delay line\<close>

text \<open>The bytes on their way to the service and back, and the two events: \<open>dl_pending\<close> wakes the service,
  \<open>dl_woken\<close> the client.\<close>

record delay_line =
  dl_in :: bytes
  dl_out :: bytes
  dl_pending :: bool
  dl_woken :: bool

text \<open>When the service makes its iteration: during the client's wait, after the call has timed out, or
  not at all.\<close>

datatype service = InTime | TooLate | Asleep

text \<open>The service moves one block; then one call offering the block \<open>x\<close>.\<close>

definition dl_serve :: "nat \<Rightarrow> delay_line \<Rightarrow> delay_line" where
  "dl_serve n d = \<lparr>dl_in = drop n (dl_in d), dl_out = dl_out d @ take n (dl_in d), dl_pending = False, dl_woken = True\<rparr>"

definition dl_submit :: "bytes \<Rightarrow> delay_line \<Rightarrow> delay_line" where
  "dl_submit x d = d\<lparr>dl_in := dl_in d @ x, dl_pending := True\<rparr>"

definition dl_collect :: "nat \<Rightarrow> bytes \<Rightarrow> delay_line \<Rightarrow> EffectResult \<times> bytes \<times> delay_line" where
  "dl_collect n x d =
     (if dl_woken d then (EFFECT_OK, take n (dl_out d), d\<lparr>dl_out := drop n (dl_out d), dl_woken := False\<rparr>)
      else (EFFECT_ERROR_TIMEOUT, x, d))"

definition dl_call :: "nat \<Rightarrow> service \<Rightarrow> bytes \<Rightarrow> delay_line \<Rightarrow> EffectResult \<times> bytes \<times> delay_line" where
  "dl_call n sv x d =
     (let d = dl_submit x d;
          d = (if sv = InTime then dl_serve n d else d);
          (r, y, d) = dl_collect n x d
      in (r, y, if sv = TooLate then dl_serve n d else d))"

fun dl_calls :: "nat \<Rightarrow> (service \<times> bytes) list \<Rightarrow> delay_line \<Rightarrow> (EffectResult \<times> bytes) list \<times> delay_line" where
  "dl_calls n [] d = ([], d)"
| "dl_calls n ((sv, x) # cs) d =
     (let (r, y, d) = dl_call n sv x d; (rs, d) = dl_calls n cs d in ((r, y) # rs, d))"

text \<open>A client that is woken finds a block.\<close>

definition dl_ok :: "nat \<Rightarrow> delay_line \<Rightarrow> bool" where
  "dl_ok n d \<longleftrightarrow> (dl_woken d \<longrightarrow> n \<le> length (dl_out d))"

definition dl_load :: "delay_line \<Rightarrow> nat" where
  "dl_load d = length (dl_out d) + length (dl_in d)"

definition passed :: "EffectResult \<times> bytes \<Rightarrow> bytes" where
  "passed ry = (if fst ry = EFFECT_OK then snd ry else [])"

definition timeouts :: "(EffectResult \<times> bytes) list \<Rightarrow> nat" where
  "timeouts rs = length (filter (\<lambda>ry. fst ry = EFFECT_ERROR_TIMEOUT) rs)"

definition slips :: "service list \<Rightarrow> nat" where
  "slips svs = length (filter (\<lambda>sv. sv \<noteq> InTime) svs)"

text \<open>Room for one more block in each direction, and for one more at each of \<open>j\<close> calls not served in time.\<close>

definition dl_fits :: "nat \<Rightarrow> nat \<Rightarrow> nat \<Rightarrow> delay_line \<Rightarrow> bool" where
  "dl_fits n cap j d \<longleftrightarrow> length (dl_in d) + n * (j + 1) \<le> cap \<and> length (dl_out d) + n * (j + 1) \<le> cap"

text \<open>One call: what comes back is the next block of the stream or, on a time-out, the block offered,
  and then the stream has grown by a block.\<close>

lemma dl_call_flow:
  assumes "dl_call n sv x d = (r, y, d')" and "length x = n" and "dl_ok n d"
  shows "passed (r, y) @ dl_out d' @ dl_in d' = dl_out d @ dl_in d @ x"
    and "r = EFFECT_OK \<or> r = EFFECT_ERROR_TIMEOUT \<and> y = x \<and> sv \<noteq> InTime"
    and "dl_load d' = dl_load d + (if r = EFFECT_ERROR_TIMEOUT then n else 0)" and "length y = n" and "dl_ok n d'"
proof -
  let ?d = "dl_submit x d"
  let ?d1 = "if sv = InTime then dl_serve n ?d else ?d"
  obtain d2 where c: "dl_collect n x ?d1 = (r, y, d2)" and d': "d' = (if sv = TooLate then dl_serve n d2 else d2)"
    using assms(1) by (auto simp: dl_call_def Let_def split: prod.splits)
  have serve: "dl_out (dl_serve n e) @ dl_in (dl_serve n e) = dl_out e @ dl_in e" for e by (simp add: dl_serve_def)
  have load: "dl_load e = length (dl_out e @ dl_in e)" for e by (simp add: dl_load_def)
  have d1: "dl_out ?d1 @ dl_in ?d1 = dl_out d @ dl_in d @ x" by (simp add: serve) (simp add: dl_submit_def)
  have w1: "dl_woken ?d1 \<Longrightarrow> n \<le> length (dl_out ?d1)"
    using assms(2,3) by (cases "sv = InTime") (auto simp: dl_serve_def dl_submit_def dl_ok_def)
  have d2: "dl_out d' @ dl_in d' = dl_out d2 @ dl_in d2" unfolding d' by (simp add: serve)
  show flow: "passed (r, y) @ dl_out d' @ dl_in d' = dl_out d @ dl_in d @ x"
    unfolding d2 d1 [symmetric] using c by (auto simp: dl_collect_def passed_def split: if_splits)
  show r: "r = EFFECT_OK \<or> r = EFFECT_ERROR_TIMEOUT \<and> y = x \<and> sv \<noteq> InTime"
    using c by (auto simp: dl_collect_def dl_serve_def split: if_splits)
  show y: "length y = n" using c w1 assms(2) by (auto simp: dl_collect_def split: if_splits)
  have "length (passed (r, y)) + dl_load d' = dl_load d + n"
    using arg_cong [OF flow, of length] assms(2) by (simp add: load)
  then show "dl_load d' = dl_load d + (if r = EFFECT_ERROR_TIMEOUT then n else 0)" using r y by (auto simp: passed_def)
  have in2: "dl_in d2 = dl_in ?d1" and "\<not> dl_woken d2" using c by (auto simp: dl_collect_def split: if_splits)
  then show "dl_ok n d'" using assms(2) by (auto simp: dl_ok_def d' dl_serve_def dl_submit_def)
qed

lemma dl_call_fits:
  assumes "dl_call n sv x d = (r, y, d')" and "length x = n" and "dl_ok n d"
    and "dl_fits n cap (j + (if sv = InTime then 0 else 1)) d"
  shows "dl_fits n cap j d'"
proof -
  have "length (dl_in d') \<le> length (dl_in d) + (if sv = InTime then 0 else n)"
    and "length (dl_out d') \<le> length (dl_out d) + (if sv = InTime then 0 else n)"
    using assms(1-3)
    by (auto simp: dl_call_def dl_submit_def dl_serve_def dl_collect_def dl_ok_def Let_def split: if_splits)
  then show ?thesis using assms(4) by (auto simp: dl_fits_def split: if_splits)
qed

text \<open>Any number of calls.\<close>

lemma dl_calls_flow:
  assumes "dl_calls n cs d = (rs, d')" and "list_all (\<lambda>c. length (snd c) = n) cs" and "dl_ok n d"
  shows "concat (map passed rs) @ dl_out d' @ dl_in d' = dl_out d @ dl_in d @ concat (map snd cs) \<and>
    dl_load d' = dl_load d + n * timeouts rs \<and> timeouts rs \<le> slips (map fst cs) \<and> dl_ok n d' \<and>
    list_all2 (\<lambda>c ry. fst ry = EFFECT_OK \<or> fst ry = EFFECT_ERROR_TIMEOUT \<and> snd ry = snd c \<and> fst c \<noteq> InTime) cs rs"
  using assms
proof (induction cs arbitrary: d rs d')
  case Nil
  then show ?case by (simp add: timeouts_def slips_def)
next
  case (Cons c cs)
  obtain sv x where c: "c = (sv, x)" by fastforce
  obtain r y d1 where 1: "dl_call n sv x d = (r, y, d1)" by (metis prod_cases3)
  obtain ts d2 where 2: "dl_calls n cs d1 = (ts, d2)" by fastforce
  have e: "rs = (r, y) # ts" "d' = d2" "length x = n" using Cons.prems c 1 2 by auto
  note flow = dl_call_flow [OF 1 e(3) Cons.prems(3)]
  have "list_all (\<lambda>c. length (snd c) = n) cs" using Cons.prems(2) by simp
  note rest = Cons.IH [OF 2 this flow(5)]
  have "concat (map passed rs) @ dl_out d' @ dl_in d' = passed (r, y) @ (dl_out d1 @ dl_in d1 @ concat (map snd cs))"
    using rest e by simp
  also have "\<dots> = (passed (r, y) @ dl_out d1 @ dl_in d1) @ concat (map snd cs)" by simp
  also have "\<dots> = dl_out d @ dl_in d @ concat (map snd (c # cs))" unfolding flow(1) by (simp add: c)
  finally show ?case
    using rest e flow(2,3) by (auto simp: c timeouts_def slips_def)
qed

section \<open>The service as the peer of a call\<close>

text \<open>During the wait of a call (gap \<open>1\<close>) the service's thread, at the head of its loop, makes one
  iteration on the shared queues. \<open>srv\<close> is its session and \<open>clock\<close> what it reads of the time.\<close>

definition service_peer :: "'q fmq_api \<Rightarrow> (nat \<Rightarrow> timespec) \<Rightarrow> 'q ServerSession \<Rightarrow> 'q peer" where
  "service_peer api clock srv i abk =
     (case abk of (a, b, k) \<Rightarrow>
        if i \<noteq> 1 then (a, b, k)
        else
          let n = unat (buffer_size (srv_config srv)) in
          (case processing_iteration api clock (srv\<lparr>srv_inputFmq := Some a, srv_outputFmq := Some b\<rparr>)
              (replicate n 0) (replicate n 0) k of
             Some (s', ib, ob, k') \<Rightarrow>
               (case (srv_inputFmq s', srv_outputFmq s') of
                  (Some a', Some b') \<Rightarrow> (a', b', k')
                | _ \<Rightarrow> (a, b, k))
           | None \<Rightarrow> (a, b, k)))"

record system_call =
  sc_service :: service
  sc_service_clock :: "nat \<Rightarrow> timespec"
  sc_clock :: "nat \<Rightarrow> timespec"
  sc_memory :: bytes

definition served_call ::
  "'q fmq_api \<Rightarrow> 'q ServerSession \<Rightarrow> nat \<Rightarrow> nat \<Rightarrow> system_call \<Rightarrow> 'q EffectHandle \<Rightarrow> kernel \<Rightarrow>
   (EffectResult \<times> bytes \<times> 'q EffectHandle \<times> kernel) option" where
  "served_call api srv inp out c h k =
     (let iteration = service_peer api (sc_service_clock c) srv in do {
        (r, h, um, k) \<leftarrow> EffectClient_Process api (if sc_service c = InTime then iteration else idle_peer) (sc_clock c) h
          (Some inp) (Some out) (framesPerBuffer (srv_config srv)) (sc_memory c) k;
        let (h, k) = (case h of
            Some s \<Rightarrow> if sc_service c = TooLate then (case run_peer iteration 1 (s, k) of (s, k) \<Rightarrow> (Some s, k)) else (h, k)
          | None \<Rightarrow> (h, k));
        Some (r, um, h, k) })"

fun system_calls ::
  "'q fmq_api \<Rightarrow> 'q ServerSession \<Rightarrow> nat \<Rightarrow> nat \<Rightarrow> system_call list \<Rightarrow> 'q EffectHandle \<Rightarrow> kernel \<Rightarrow>
   ((EffectResult \<times> bytes) list \<times> 'q EffectHandle \<times> kernel) option" where
  "system_calls api srv inp out [] h k = Some ([], h, k)"
| "system_calls api srv inp out (c # cs) h k = do {
     (r, um, h, k) \<leftarrow> served_call api srv inp out c h k;
     (rs, h, k) \<leftarrow> system_calls api srv inp out cs h k;
     Some ((r, um) # rs, h, k) }"

text \<open>The calls as the delay line sees them.\<close>

abbreviation schedule :: "nat \<Rightarrow> nat \<Rightarrow> system_call list \<Rightarrow> (service \<times> bytes) list" where
  "schedule n inp cs \<equiv> map (\<lambda>c. (sc_service c, take n (drop inp (sc_memory c)))) cs"

text \<open>Two event descriptors and their counters; no fault is left to inject.\<close>

definition events :: "nat \<Rightarrow> nat \<Rightarrow> u64 \<Rightarrow> u64 \<Rightarrow> kernel \<Rightarrow> bool" where
  "events fi fo e c k \<longleftrightarrow> fi \<noteq> fo \<and> fds k fi = Some (EventFd e) \<and> fds k fo = Some (EventFd c) \<and> faults k = []"

lemma events_swap: "events fi fo e c k = events fo fi c e k"
  by (auto simp: events_def)

lemma events_signal:
  assumes "events fi fo e c k"
  obtains r k' e' where "effect_eventfd_signal (int fi) k = (r, k')" and "events fi fo e' c k'" and "e' \<noteq> 0"
proof (cases "unat e < 2 ^ 64 - 2")
  case True
  have "effect_eventfd_signal (int fi) k = (0, k\<lparr>fds := (fds k)(fi \<mapsto> EventFd (e + 1))\<rparr>)"
    using signal_event [of k "int fi" e] assms True by (simp add: events_def)
  moreover have "unat (e + 1) = unat e + 1" using True by (simp add: unat_word_ariths)
  then have "e + 1 \<noteq> 0" by (metis add_is_0 unat_0 zero_neq_one)
  ultimately show thesis using assms by (intro that [of 0 _ "e + 1"]) (auto simp: events_def)
next
  case False
  have "effect_eventfd_signal (int fi) k = (- 1, k)"
    using signal_event [of k "int fi" e] assms False by (simp add: events_def)
  moreover have "e \<noteq> 0" using False by auto
  ultimately show thesis using assms that by blast
qed

lemma events_wait:
  assumes "events fi fo e c k"
  shows "e = 0 \<Longrightarrow> effect_eventfd_wait (int fi) t k = (- 1, k)"
    and "e \<noteq> 0 \<Longrightarrow> \<exists>k'. effect_eventfd_wait (int fi) t k = (0, k') \<and> events fi fo 0 c k'"
  using wait_event [of k "int fi" e t] assms by (auto simp: events_def)

text \<open>Client and service agree on format and events, and the queues, of capacity \<open>cap\<close> or more, are in the
  state of the delay line.\<close>

definition sys_ok ::
  "('q \<Rightarrow> bool) \<Rightarrow> ('q \<Rightarrow> bytes) \<Rightarrow> ('q \<Rightarrow> nat) \<Rightarrow> nat \<Rightarrow> 'q ServerSession \<Rightarrow> delay_line \<Rightarrow> 'q EffectSession \<Rightarrow> kernel \<Rightarrow> bool" where
  "sys_ok good contents limit cap srv d s k \<longleftrightarrow>
     (\<exists>a b e c fi fo. inputFmq s = Some a \<and> good a \<and> contents a = dl_in d \<and> cap \<le> limit a \<and>
        outputFmq s = Some b \<and> good b \<and> contents b = dl_out d \<and> cap \<le> limit b \<and>
        isStarted s \<and> config s = srv_config srv \<and>
        eventFdIn s = int fi \<and> srv_eventFdIn srv = int fi \<and> eventFdOut s = int fo \<and> srv_eventFdOut srv = int fo \<and>
        events fi fo e c k \<and> (dl_pending d \<longleftrightarrow> e \<noteq> 0) \<and> (dl_woken d \<longleftrightarrow> c \<noteq> 0))"

lemma sys_okE:
  assumes "sys_ok good contents limit cap srv d s k"
  obtains a b e c fi fo where "inputFmq s = Some a" and "good a" and "contents a = dl_in d" and "cap \<le> limit a"
    and "outputFmq s = Some b" and "good b" and "contents b = dl_out d" and "cap \<le> limit b"
    and "isStarted s" and "config s = srv_config srv"
    and "eventFdIn s = int fi" and "srv_eventFdIn srv = int fi" and "eventFdOut s = int fo" and "srv_eventFdOut srv = int fo"
    and "events fi fo e c k" and "dl_pending d \<longleftrightarrow> e \<noteq> 0" and "dl_woken d \<longleftrightarrow> c \<noteq> 0"
  using assms unfolding sys_ok_def by blast

context fmq_backend
begin

lemma service_serves:
  assumes a: "inv a" "n \<le> length (contents a)" and b: "inv b" "length (contents b) + n \<le> limit b"
    and n: "n = unat (buffer_size (srv_config srv))"
    and fd: "srv_eventFdIn srv = int fi" "srv_eventFdOut srv = int fo" and k: "events fi fo e c k" "e \<noteq> 0"
  shows "\<exists>a' b' k' c'. service_peer api clock srv 1 (a, b, k) = (a', b', k') \<and> events fi fo 0 c' k' \<and> c' \<noteq> 0 \<and>
    inv a' \<and> limit a' = limit a \<and> contents a' = drop n (contents a) \<and>
    inv b' \<and> limit b' = limit b \<and> contents b' = contents b @ take n (contents a)"
proof -
  let ?srv = "srv\<lparr>srv_inputFmq := Some a, srv_outputFmq := Some b\<rparr>"
  obtain k1 where w: "effect_eventfd_wait (srv_eventFdIn ?srv) 100 k = (0, k1)" "events fi fo 0 c k1"
    using events_wait(2) [OF k] fd(1) by fastforce
  obtain r k2 c' where g: "effect_eventfd_signal (int fo) k1 = (r, k2)" "events fo fi c' 0 k2" "c' \<noteq> 0"
    using w(2) unfolding events_swap [of fi] by (rule events_signal)
  have q: "srv_inputFmq ?srv = Some a" "srv_outputFmq ?srv = Some b" "n = unat (buffer_size (srv_config ?srv))"
    "length (replicate n 0) = n"
    using n by simp_all
  show ?thesis
  proof (rule iteration_moves [OF w(1) _ q(1) a(1) q(2) b(1) q(3) a(2) q(4,4) refl, of clock])
    show "\<not> (0 :: int) < 0" by simp
  next
    fix a' b' and m :: nat
    assume "limit b < length (contents b) + n"
    then show ?thesis using b(2) by simp
  next
    fix a' b'
    assume r: "processing_iteration api clock ?srv (replicate n 0) (replicate n 0) k =
        Some (moved ?srv a' b' (stats_processed (framesPerBuffer (srv_config ?srv)) (elapsed_us (clock 0) (clock 1)) (srv_stats ?srv)),
          take n (contents a), take n (contents a), snd (effect_eventfd_signal (srv_eventFdOut ?srv) k1))"
      "inv a'" "limit a' = limit a" "contents a' = drop n (contents a)"
      "inv b'" "limit b' = limit b" "contents b' = contents b @ take n (contents a)"
    then have "service_peer api clock srv 1 (a, b, k) = (a', b', k2)"
      using fd(2) g(1) by (simp add: service_peer_def Let_def n [symmetric])
    then show ?thesis using r(2-) g(2,3) events_swap [of fi] by blast
  qed
qed

text \<open>The parts of a call: the block is accepted and the service signalled, the service makes an iteration,
  the client collects.\<close>

lemma sys_submit:
  assumes sys: "sys_ok inv contents limit cap srv d s k" and room: "length (dl_in d) + n \<le> cap"
    and n: "n = unat (frames * calculate_bytes_per_frame (config s))" and um: "ranges_ok um inp out n"
  obtains a1 sg k1 where "api_write api (inputFmq s) (Some (drop inp um)) (ucast (frames * calculate_bytes_per_frame (config s))) =
      Some (ucast (frames * calculate_bytes_per_frame (config s)), Some a1)"
    and "effect_eventfd_signal (eventFdIn s) k = (sg, k1)"
    and "sys_ok inv contents limit cap srv (dl_submit (take n (drop inp um)) d) (s\<lparr>inputFmq := Some a1\<rparr>) k1"
proof -
  let ?total = "ucast (frames * calculate_bytes_per_frame (config s)) :: u64"
  have total: "unat ?total = n" using n by simp
  from sys obtain a b e w fi fo where a: "inputFmq s = Some a" "inv a" "contents a = dl_in d" "cap \<le> limit a"
    and b: "outputFmq s = Some b" "inv b" "contents b = dl_out d" "cap \<le> limit b" "isStarted s" "config s = srv_config srv"
    and F: "eventFdIn s = int fi" "srv_eventFdIn srv = int fi" "eventFdOut s = int fo" "srv_eventFdOut srv = int fo"
    and E: "events fi fo e w k" "dl_pending d \<longleftrightarrow> e \<noteq> 0" "dl_woken d \<longleftrightarrow> w \<noteq> 0"
    by (rule sys_okE)
  have src: "unat ?total \<le> length (drop inp um)" unfolding total using um by (auto simp: ranges_ok_def)
  obtain m a1 where w: "api_write api (Some a) (Some (drop inp um)) ?total = Some (m, Some a1)"
      "inv a1" "limit a1 = limit a" "contents a1 = contents a @ take (unat m) (drop inp um)"
      "length (contents a) + unat ?total \<le> limit a \<Longrightarrow> m = ?total"
    using api_write_SomeE [OF a(2) src] by blast
  have "length (contents a) + unat ?total \<le> limit a" unfolding total a(3) using room a(4) by linarith
  then have m: "m = ?total" by (rule w(5))
  obtain sg k1 e1 where g: "effect_eventfd_signal (eventFdIn s) k = (sg, k1)" "events fi fo e1 w k1" "e1 \<noteq> 0"
    using events_signal [OF E(1)] F(1) by metis
  have c: "contents a1 = dl_in d @ take n (drop inp um)" using w(4) unfolding m total a(3) .
  have "sys_ok inv contents limit cap srv (dl_submit (take n (drop inp um)) d) (s\<lparr>inputFmq := Some a1\<rparr>) k1"
    using w(2,3) c g(2,3) a(1,4) b F E(3) by (auto simp: sys_ok_def dl_submit_def)
  then show thesis using that [of a1 sg k1] w(1) m g(1) a(1) by simp
qed

lemma sys_serve:
  assumes sys: "sys_ok inv contents limit cap srv d s k" and d: "dl_pending d" "n \<le> length (dl_in d)"
    and room: "length (dl_out d) + n \<le> cap" and n: "n = unat (buffer_size (srv_config srv))"
  obtains a' b' k' where "run_peer (service_peer api clock srv) 1 (s, k) = (s\<lparr>inputFmq := Some a', outputFmq := Some b'\<rparr>, k')"
    and "sys_ok inv contents limit cap srv (dl_serve n d) (s\<lparr>inputFmq := Some a', outputFmq := Some b'\<rparr>) k'"
proof -
  from sys obtain a b e c fi fo where S: "inputFmq s = Some a" "inv a" "contents a = dl_in d" "cap \<le> limit a"
      "outputFmq s = Some b" "inv b" "contents b = dl_out d" "cap \<le> limit b" "isStarted s" "config s = srv_config srv"
    and F: "eventFdIn s = int fi" "srv_eventFdIn srv = int fi" "eventFdOut s = int fo" "srv_eventFdOut srv = int fo"
    and E: "events fi fo e c k" "dl_pending d \<longleftrightarrow> e \<noteq> 0"
    by (rule sys_okE)
  have "n \<le> length (contents a)" and "length (contents b) + n \<le> limit b" and "e \<noteq> 0" using d S E room by simp_all
  then obtain a' b' k' c' where V: "service_peer api clock srv 1 (a, b, k) = (a', b', k')" "events fi fo 0 c' k'" "c' \<noteq> 0"
      "inv a'" "limit a' = limit a" "contents a' = drop n (contents a)"
      "inv b'" "limit b' = limit b" "contents b' = contents b @ take n (contents a)"
    using service_serves [OF S(2) _ S(6) _ n F(2,4) E(1)] by blast
  have R: "run_peer (service_peer api clock srv) 1 (s, k) = (s\<lparr>inputFmq := Some a', outputFmq := Some b'\<rparr>, k')"
    using V(1) S(1,5) by (simp add: run_peer_def)
  show thesis
    by (rule that [OF R]) (use V(2-) S F in \<open>auto simp: sys_ok_def dl_serve_def\<close>)
qed

lemma sys_collect:
  assumes s: "frames \<noteq> 0" "isStarted s" and p: "\<And>i s k. i \<noteq> 1 \<Longrightarrow> run_peer env i (s, k) = (s, k)"
    and w: "api_write api (inputFmq s) (Some (drop inp um)) (ucast (frames * calculate_bytes_per_frame (config s))) =
      Some (ucast (frames * calculate_bytes_per_frame (config s)), Some a1)"
    and g: "effect_eventfd_signal (eventFdIn s) k = (sg, k1)"
    and p1: "run_peer env 1 (s\<lparr>inputFmq := Some a1\<rparr>, k1) = (s\<lparr>inputFmq := Some a2, outputFmq := Some b2\<rparr>, k2)"
    and sys: "sys_ok inv contents limit cap srv d (s\<lparr>inputFmq := Some a2, outputFmq := Some b2\<rparr>) k2" and d: "dl_ok n d"
    and n: "n = unat (frames * calculate_bytes_per_frame (config s))" and um: "ranges_ok um inp out n"
    and c: "dl_collect n (take n (drop inp um)) d = (r, y, d')"
  shows "\<exists>s' k'. EffectClient_Process api env clock (Some s) (Some inp) (Some out) frames um k =
      Some (r, Some s', blit um out y, k') \<and> sys_ok inv contents limit cap srv d' s' k'"
proof -
  let ?total = "ucast (frames * calculate_bytes_per_frame (config s)) :: u64"
  have total: "unat ?total = n" using n by simp
  let ?s2 = "s\<lparr>inputFmq := Some a2, outputFmq := Some b2\<rparr>"
  from sys obtain e w fi fo where F: "eventFdOut s = int fo" "events fi fo e w k2" "dl_woken d \<longleftrightarrow> w \<noteq> 0"
    and b: "inv b2" "contents b2 = dl_out d" "cap \<le> limit b2"
    and rest: "inv a2" "contents a2 = dl_in d" "cap \<le> limit a2" "config s = srv_config srv" "eventFdIn s = int fi"
      "srv_eventFdIn srv = int fi" "srv_eventFdOut srv = int fo" "dl_pending d \<longleftrightarrow> e \<noteq> 0"
    by (rule sys_okE) (clarsimp)
  note wait = events_wait [OF F(2) [unfolded events_swap [of fi]], of TIMEOUT_MS, folded F(1)]
  show ?thesis
  proof (cases "dl_woken d")
    case False
    then have wt: "effect_eventfd_wait (eventFdOut s) TIMEOUT_MS k2 = (- 1, k2)" using F(3) wait(1) by simp
    have res: "r = EFFECT_ERROR_TIMEOUT" "y = take n (drop inp um)" "d' = d" using c False by (simp_all add: dl_collect_def)
    have "EffectClient_Process api env clock (Some s) (Some inp) (Some out) frames um k =
        Some (r, Some (?s2\<lparr>stats := stats_timeout (stats s)\<rparr>), blit um out y, k2)"
      using s p w g p1 wt memcpy_within_ok [OF um] n res by (simp add: EffectClient_Process_def)
    then show ?thesis using sys res(3) by (auto simp: sys_ok_def)
  next
    case True
    then obtain k3 where wt: "effect_eventfd_wait (eventFdOut s) TIMEOUT_MS k2 = (0, k3)" "events fo fi 0 e k3"
      using F(3) wait(2) by blast
    have res: "r = EFFECT_OK" "y = take n (dl_out d)" "d' = d\<lparr>dl_out := drop n (dl_out d), dl_woken := False\<rparr>"
      using c True by (simp_all add: dl_collect_def)
    have dst: "unat ?total \<le> length (drop out um)" unfolding total using um by (auto simp: ranges_ok_def)
    obtain m b3 where rd: "api_read api (Some b2) (Some (drop out um)) ?total =
        Some (m, Some (blit (drop out um) 0 (take (unat m) (contents b2))), Some b3)" "inv b3" "limit b3 = limit b2"
        "contents b3 = drop (unat m) (contents b2)" "unat ?total \<le> length (contents b2) \<Longrightarrow> m = ?total"
      using api_read_SomeE [OF b(1) dst] by blast
    have m: "m = ?total" by (rule rd(5)) (use d True b(2) total in \<open>simp add: dl_ok_def\<close>)
    have y: "blit (drop out um) 0 (take (unat m) (contents b2)) = blit (drop out um) 0 y" "contents b3 = dl_out d'"
      using rd(4) by (simp_all only: m total b(2) res) simp_all
    have rd': "api_read api (Some b2) (Some (drop out um)) ?total = Some (?total, Some (blit (drop out um) 0 y), Some b3)"
      using rd(1) unfolding y(1) unfolding m .
    have "take out um @ blit (drop out um) 0 y = blit um out y"
      using um by (simp add: blit_drop ranges_ok_def)
    then have "EffectClient_Process api env clock (Some s) (Some inp) (Some out) frames um k =
        Some (r, Some (s\<lparr>inputFmq := Some a2, outputFmq := Some b3,
          stats := stats_processed frames (elapsed_us (clock 0) (clock 1)) (stats s)\<rparr>), blit um out y, k3)"
      using s p w g p1 wt(1) rd' res(1) by (simp add: EffectClient_Process_def)
    moreover have "events fi fo e 0 k3" using wt(2) events_swap by blast
    ultimately show ?thesis using s(2) F(1) rest rd(2,3) y(2) res(3) b(3) by (auto simp: sys_ok_def)
  qed
qed

end

lemma run_service_gap: "i \<noteq> 1 \<Longrightarrow> run_peer (service_peer api clock srv) i (s, k) = (s, k)"
  by (auto simp: run_peer_def service_peer_def split: option.split)

text \<open>Each call of the code is a call of the delay line.\<close>

context fmq_backend
begin

lemma served_call_refines:
  assumes sys: "sys_ok inv contents limit cap srv d s k" and fr: "framesPerBuffer (srv_config srv) \<noteq> 0"
    and n: "n = unat (buffer_size (srv_config srv))" and um: "ranges_ok (sc_memory c) inp out n"
    and d: "dl_ok n d" "dl_fits n cap 0 d"
    and call: "dl_call n (sc_service c) (take n (drop inp (sc_memory c))) d = (r, y, d')"
  shows "\<exists>s' k'. served_call api srv inp out c (Some s) k = Some (r, blit (sc_memory c) out y, Some s', k') \<and>
    sys_ok inv contents limit cap srv d' s' k'"
proof -
  let ?fr = "framesPerBuffer (srv_config srv)" and ?x = "take n (drop inp (sc_memory c))"
  let ?iter = "service_peer api (sc_service_clock c) srv"
  let ?d1 = "if sc_service c = InTime then dl_serve n (dl_submit ?x d) else dl_submit ?x d"
  have s: "isStarted s" "config s = srv_config srv" using sys by (auto simp: sys_ok_def)
  have n': "n = unat (?fr * calculate_bytes_per_frame (config s))" by (simp add: n s(2) buffer_size_def)
  have x: "length ?x = n" using um by (auto simp: ranges_ok_def)
  have room: "length (dl_in d) + n \<le> cap" "length (dl_out d) + n \<le> cap" using d(2) by (simp_all add: dl_fits_def)
  obtain d2 where coll: "dl_collect n ?x ?d1 = (r, y, d2)" and d': "d' = (if sc_service c = TooLate then dl_serve n d2 else d2)"
    using call by (auto simp: dl_call_def Let_def split: prod.splits)
  obtain a1 sg k1 where sub: "api_write api (inputFmq s) (Some (drop inp (sc_memory c))) (ucast (?fr * calculate_bytes_per_frame (config s))) =
      Some (ucast (?fr * calculate_bytes_per_frame (config s)), Some a1)"
      "effect_eventfd_signal (eventFdIn s) k = (sg, k1)"
      "sys_ok inv contents limit cap srv (dl_submit ?x d) (s\<lparr>inputFmq := Some a1\<rparr>) k1"
    by (rule sys_submit [OF sys room(1) n' um])
  show ?thesis
  proof (cases "sc_service c = InTime")
    case True
    obtain a2 b2 k2 where R: "run_peer ?iter 1 (s\<lparr>inputFmq := Some a1\<rparr>, k1) = (s\<lparr>inputFmq := Some a2, outputFmq := Some b2\<rparr>, k2)"
        "sys_ok inv contents limit cap srv (dl_serve n (dl_submit ?x d)) (s\<lparr>inputFmq := Some a2, outputFmq := Some b2\<rparr>) k2"
      by (rule sys_serve [OF sub(3) _ _ _ n, of "sc_service_clock c"]) (use room(2) x in \<open>simp_all add: dl_submit_def\<close>)
    have coll': "dl_collect n ?x (dl_serve n (dl_submit ?x d)) = (r, y, d2)" using coll True by simp
    have ok: "dl_ok n (dl_serve n (dl_submit ?x d))" using x by (simp add: dl_ok_def dl_serve_def dl_submit_def)
    obtain s' k' where "EffectClient_Process api ?iter (sc_clock c) (Some s) (Some inp) (Some out) ?fr (sc_memory c) k =
        Some (r, Some s', blit (sc_memory c) out y, k')" "sys_ok inv contents limit cap srv d2 s' k'"
      using sys_collect [OF fr s(1) run_service_gap sub(1,2) R ok n' um coll', of "sc_clock c"] by blast
    then show ?thesis using True d' by (simp add: served_call_def)
  next
    case late: False
    obtain b2 where "outputFmq s = Some b2" using sys by (rule sys_okE)
    then have b2: "s\<lparr>inputFmq := Some a1, outputFmq := Some b2\<rparr> = s\<lparr>inputFmq := Some a1\<rparr>" by simp
    have R: "run_peer idle_peer 1 (s\<lparr>inputFmq := Some a1\<rparr>, k1) = (s\<lparr>inputFmq := Some a1, outputFmq := Some b2\<rparr>, k1)"
      unfolding b2 by (rule run_idle)
    have sub3: "sys_ok inv contents limit cap srv (dl_submit ?x d) (s\<lparr>inputFmq := Some a1, outputFmq := Some b2\<rparr>) k1"
      unfolding b2 by (rule sub(3))
    have coll': "dl_collect n ?x (dl_submit ?x d) = (r, y, d2)" using coll late by simp
    have ok: "dl_ok n (dl_submit ?x d)" using d(1) by (simp add: dl_ok_def dl_submit_def)
    obtain s1 k2 where P: "EffectClient_Process api idle_peer (sc_clock c) (Some s) (Some inp) (Some out) ?fr (sc_memory c) k =
        Some (r, Some s1, blit (sc_memory c) out y, k2)" "sys_ok inv contents limit cap srv d2 s1 k2"
      using sys_collect [OF fr s(1) run_idle sub(1,2) R sub3 ok n' um coll', of "sc_clock c"] by blast
    show ?thesis
    proof (cases "sc_service c = TooLate")
      case True
      have "dl_pending d2" "n \<le> length (dl_in d2)" "length (dl_out d2) + n \<le> cap"
        using coll late room(2) x by (auto simp: dl_collect_def dl_submit_def split: if_splits)
      then obtain a' b' k' where "run_peer ?iter 1 (s1, k2) = (s1\<lparr>inputFmq := Some a', outputFmq := Some b'\<rparr>, k')"
          "sys_ok inv contents limit cap srv (dl_serve n d2) (s1\<lparr>inputFmq := Some a', outputFmq := Some b'\<rparr>) k'"
        by (rule sys_serve [OF P(2) _ _ _ n])
      then show ?thesis using P(1) True d' by (simp add: served_call_def)
    qed (use P late d' in \<open>simp add: served_call_def\<close>)
  qed
qed

text \<open>Any number of calls.\<close>

lemma system_run:
  assumes "sys_ok inv contents limit cap srv d s k" and fr: "framesPerBuffer (srv_config srv) \<noteq> 0"
    and n: "n = unat (buffer_size (srv_config srv))" and "list_all (\<lambda>c. ranges_ok (sc_memory c) inp out n) cs"
    and "dl_ok n d" and "dl_fits n cap (slips (map sc_service cs)) d"
    and "dl_calls n (schedule n inp cs) d = (rs, d')"
  shows "\<exists>s' k'. system_calls api srv inp out cs (Some s) k =
      Some (map2 (\<lambda>c (r, y). (r, blit (sc_memory c) out y)) cs rs, Some s', k') \<and>
    sys_ok inv contents limit cap srv d' s' k'"
  using assms(1,4-)
proof (induction cs arbitrary: d s k rs)
  case Nil
  then show ?case by simp
next
  case (Cons c cs)
  let ?x = "take n (drop inp (sc_memory c))"
  have um: "ranges_ok (sc_memory c) inp out n" and ums: "list_all (\<lambda>c. ranges_ok (sc_memory c) inp out n) cs"
    using Cons.prems(2) by simp_all
  have x: "length ?x = n" using um by (auto simp: ranges_ok_def)
  obtain r y d1 where 1: "dl_call n (sc_service c) ?x d = (r, y, d1)" by (metis prod_cases3)
  obtain ts where 2: "dl_calls n (schedule n inp cs) d1 = (ts, d')" "rs = (r, y) # ts"
    using Cons.prems(5) 1 by (auto split: prod.splits)
  note flow = dl_call_flow [OF 1 x Cons.prems(3)]
  have fits: "dl_fits n cap 0 d" "dl_fits n cap (slips (map sc_service cs) + (if sc_service c = InTime then 0 else 1)) d"
    using Cons.prems(4) by (auto simp: dl_fits_def slips_def split: if_splits)
  obtain s1 k1 where c1: "served_call api srv inp out c (Some s) k = Some (r, blit (sc_memory c) out y, Some s1, k1)"
      "sys_ok inv contents limit cap srv d1 s1 k1"
    using served_call_refines [OF Cons.prems(1) fr n um Cons.prems(3) fits(1) 1] by blast
  obtain s2 k2 where "system_calls api srv inp out cs (Some s1) k1 =
      Some (map2 (\<lambda>c (r, y). (r, blit (sc_memory c) out y)) cs ts, Some s2, k2)" "sys_ok inv contents limit cap srv d' s2 k2"
    using Cons.IH [OF c1(2) ums flow(5) dl_call_fits [OF 1 x Cons.prems(3) fits(2)] 2(1)] by blast
  then show ?case using c1(1) 2(2) by simp
qed

end

section \<open>The stream\<close>

text \<open>What is offered, and what comes back in calls that succeed.\<close>

definition offered :: "nat \<Rightarrow> nat \<Rightarrow> system_call list \<Rightarrow> bytes" where
  "offered n inp cs = concat (map (\<lambda>c. take n (drop inp (sc_memory c))) cs)"

definition returned :: "nat \<Rightarrow> nat \<Rightarrow> (EffectResult \<times> bytes) list \<Rightarrow> bytes" where
  "returned n out rs = concat (map (\<lambda>(r, um). passed (r, take n (drop out um))) rs)"

text \<open>How a call may end.\<close>

definition call_outcome :: "nat \<Rightarrow> nat \<Rightarrow> nat \<Rightarrow> system_call \<Rightarrow> EffectResult \<times> bytes \<Rightarrow> bool" where
  "call_outcome n inp out c ry \<longleftrightarrow> length (snd ry) = length (sc_memory c) \<and>
     (fst ry = EFFECT_OK \<or> fst ry = EFFECT_ERROR_TIMEOUT \<and> sc_service c \<noteq> InTime \<and>
      snd ry = blit (sc_memory c) out (take n (drop inp (sc_memory c))))"

lemma length_returned:
  assumes "list_all2 (call_outcome n inp out) cs rs" and "list_all (\<lambda>c. ranges_ok (sc_memory c) inp out n) cs"
  shows "length (returned n out rs) = n * (length cs - timeouts rs) \<and> timeouts rs \<le> length cs"
  using assms
proof (induction rule: list_all2_induct)
  case Nil
  then show ?case by (simp add: returned_def timeouts_def)
next
  case (Cons c cs ry rs)
  then have "length (returned n out rs) = n * (length cs - timeouts rs)" "timeouts rs \<le> length cs"
    and "fst ry = EFFECT_OK \<and> out + n \<le> length (snd ry) \<or> fst ry = EFFECT_ERROR_TIMEOUT"
    by (auto simp: call_outcome_def ranges_ok_def)
  then show ?case
    by (cases ry) (auto simp: returned_def timeouts_def passed_def Suc_diff_le)
qed

lemma returned_blits:
  assumes "list_all2 (\<lambda>c ry. length (snd ry) = n \<and> out + n \<le> length (sc_memory c)) cs rs"
  shows "returned n out (map2 (\<lambda>c (r, y). (r, blit (sc_memory c) out y)) cs rs) = concat (map passed rs)"
  using assms
proof (induction rule: list_all2_induct)
  case (Cons c cs ry rs)
  then have "take n (drop out (blit (sc_memory c) out (snd ry))) = snd ry"
    using load_blit [of out "snd ry" "sc_memory c"] by simp
  then show ?case using Cons by (simp add: returned_def split: prod.split) (cases ry, simp)
qed (simp add: returned_def)

lemma returned_append: "returned n out (rs @ ts) = returned n out rs @ returned n out ts"
  by (simp add: returned_def)

lemma all_ok_timeouts: "list_all (\<lambda>ry. fst ry = EFFECT_OK) rs \<Longrightarrow> timeouts rs = 0"
  by (induction rs) (auto simp: timeouts_def)

text \<open>The stream of a schedule.\<close>

context fmq_backend
begin

lemma system_flow:
  assumes "sys_ok inv contents limit cap srv d s k" and "framesPerBuffer (srv_config srv) \<noteq> 0"
    and "n = unat (buffer_size (srv_config srv))" and um: "list_all (\<lambda>c. ranges_ok (sc_memory c) inp out n) cs"
    and "dl_ok n d" and "dl_fits n cap (slips (map sc_service cs)) d"
  shows "\<exists>rs s' k' d'. system_calls api srv inp out cs (Some s) k = Some (rs, Some s', k') \<and>
    sys_ok inv contents limit cap srv d' s' k' \<and> dl_ok n d' \<and>
    returned n out rs @ dl_out d' @ dl_in d' = dl_out d @ dl_in d @ offered n inp cs \<and>
    dl_load d' = dl_load d + n * timeouts rs \<and>
    list_all2 (call_outcome n inp out) cs rs"
proof -
  obtain ys d' where 1: "dl_calls n (schedule n inp cs) d = (ys, d')" by fastforce
  have len: "list_all (\<lambda>c. length (snd c) = n) (schedule n inp cs)"
    using um by (induction cs) (auto simp: ranges_ok_def)
  note flow = dl_calls_flow [OF 1 len assms(5)]
  let ?P = "\<lambda>c ry. length (snd ry) = n \<and> out + n \<le> length (sc_memory c) \<and> (fst ry = EFFECT_OK \<or>
      fst ry = EFFECT_ERROR_TIMEOUT \<and> sc_service c \<noteq> InTime \<and> snd ry = take n (drop inp (sc_memory c)))"
  have each: "list_all2 ?P cs ys"
    using um 1 len assms(5)
  proof (induction cs arbitrary: d ys)
    case (Cons c cs)
    obtain r y d1 where c: "dl_call n (sc_service c) (take n (drop inp (sc_memory c))) d = (r, y, d1)" by (metis prod_cases3)
    obtain ts where ts: "dl_calls n (schedule n inp cs) d1 = (ts, d')" "ys = (r, y) # ts"
      using Cons.prems(2) c by (auto split: prod.splits)
    have x: "length (take n (drop inp (sc_memory c))) = n" using Cons.prems(3) by simp
    note f = dl_call_flow [OF c x Cons.prems(4)]
    show ?case using Cons.IH [OF _ ts(1) _ f(5)] Cons.prems(1,3) f(2,4) ts(2) by (auto simp: ranges_ok_def)
  qed simp
  let ?rs = "map2 (\<lambda>c (r, y). (r, blit (sc_memory c) out y)) cs ys"
  have "list_all2 (\<lambda>c ry. length (snd ry) = n \<and> out + n \<le> length (sc_memory c)) cs ys"
    using each by (rule list_all2_mono) blast
  then have ret: "returned n out ?rs = concat (map passed ys)" by (rule returned_blits)
  have same: "timeouts ?rs = timeouts ys" "length ys = length cs"
    using each by (induction rule: list_all2_induct) (auto simp: timeouts_def)
  have "list_all2 (call_outcome n inp out) cs ?rs"
    using each by (induction rule: list_all2_induct) (auto simp: call_outcome_def)
  then show ?thesis
    using system_run [OF assms 1] flow ret same(1) by (auto simp: offered_def o_def)
qed

end

section \<open>A concrete pair\<close>

definition small_service :: "EffectFmqContext ServerSession" where
  "small_service = \<lparr>srv_sessionId = 7, srv_effectType = EFFECT_LIB_NOISE_REDUCTION, srv_config = small_config,
      state = SESSION_STATE_STARTED, srv_inputFmq = Some small_queue, srv_outputFmq = Some small_queue,
      srv_eventFdIn = 0, srv_eventFdOut = 1, libHandle = None, libContext = None,
      threadRunning = True, srv_stats = zero_stats\<rparr>"

definition pair_kernel :: kernel where
  "pair_kernel = (fresh_kernel [])\<lparr>fds := [0 \<mapsto> EventFd 0, 1 \<mapsto> EventFd 0]\<rparr>"

definition empty_line :: delay_line where
  "empty_line = \<lparr>dl_in = [], dl_out = [], dl_pending = False, dl_woken = False\<rparr>"

lemma small_buffer: "unat (buffer_size (srv_config small_service)) = 2" "framesPerBuffer (srv_config small_service) = 1"
  by (simp_all add: small_service_def buffer_size_def small_bytes) (simp_all add: small_config_def)

lemma small_pair: "sys_ok fmq_inv fmq_contents fmq_limit 4 small_service empty_line small_session pair_kernel"
  unfolding sys_ok_def
  by (intro exI [of _ small_queue] exI [of _ small_queue] exI [of _ 0] exI [of _ 0] exI [of _ 0] exI [of _ 1])
    (simp add: small_session_def small_service_def small_queue_ok pair_kernel_def fresh_kernel_def events_def empty_line_def)

lemma empty_line_ok: "dl_ok n empty_line" "dl_load empty_line = 0"
  by (simp_all add: empty_line_def dl_ok_def dl_load_def)

abbreviation no_time :: "nat \<Rightarrow> timespec" where
  "no_time \<equiv> \<lambda>i. \<lparr>tv_sec = 0, tv_nsec = 0\<rparr>"

abbreviation one_call :: "service \<Rightarrow> bytes \<Rightarrow> system_call" where
  "one_call sv um \<equiv> \<lparr>sc_service = sv, sc_service_clock = no_time, sc_clock = no_time, sc_memory = um\<rparr>"

section \<open>Properties\<close>

text \<open>C7. Client and service form a delay line, whatever the timing of the service. Over any calls, each
  served in time, too late or not at all, what comes back in the calls that succeed, followed by what is
  still queued, is byte for byte what was queued followed by what is offered: nothing is lost,
  duplicated or reordered. A call times out only if it was not served in time, and then passes its
  input through; each time-out leaves one block more in the queues, and nothing ever takes it out.\<close>

theorem system_is_a_delay_line:
  assumes "fmq_backend good contents limit api blks" and "sys_ok good contents limit cap srv d s k"
    and "framesPerBuffer (srv_config srv) \<noteq> 0" and "n = unat (buffer_size (srv_config srv))"
    and "list_all (\<lambda>c. ranges_ok (sc_memory c) inp out n) cs"
    and "dl_ok n d" and "dl_fits n cap (slips (map sc_service cs)) d"
  shows "\<exists>rs s' k' d'. system_calls api srv inp out cs (Some s) k = Some (rs, Some s', k') \<and>
    sys_ok good contents limit cap srv d' s' k' \<and> dl_ok n d' \<and>
    returned n out rs @ dl_out d' @ dl_in d' = dl_out d @ dl_in d @ offered n inp cs \<and>
    dl_load d' = dl_load d + n * timeouts rs \<and>
    list_all2 (call_outcome n inp out) cs rs"
  by (rule fmq_backend.system_flow [OF assms])

text \<open>Two blocks of one frame, the first served too late.\<close>

theorem system_is_a_delay_line_witness:
  "\<exists>rs s' k' d'. system_calls fallback_api small_service 0 2 [one_call TooLate [1, 2, 0, 0], one_call InTime [3, 4, 0, 0]]
      (Some small_session) pair_kernel = Some (rs, Some s', k') \<and>
    returned 2 2 rs @ dl_out d' @ dl_in d' = [1, 2, 3, 4] \<and> dl_load d' = 2 * timeouts rs"
proof -
  let ?cs = "[one_call TooLate [1, 2, 0, 0], one_call InTime [3, 4, 0, 0]]"
  have "list_all (\<lambda>c. ranges_ok (sc_memory c) 0 2 2) ?cs" by (simp add: ranges_ok_def)
  moreover have "framesPerBuffer (srv_config small_service) \<noteq> 0" by (simp add: small_buffer)
  moreover have "offered 2 0 ?cs = [1, 2, 3, 4]" by (simp add: offered_def)
  moreover have "dl_fits 2 4 (slips (map sc_service ?cs)) empty_line" by (simp add: empty_line_def dl_fits_def slips_def)
  ultimately show ?thesis
    using system_is_a_delay_line [OF fallback.fmq_backend_axioms small_pair _ small_buffer(1) [symmetric] _ empty_line_ok(1),
        of 0 2 ?cs] empty_line_ok
    by (fastforce simp: empty_line_def)
qed

text \<open>C1. The concrete pair refines the delay line: from related states, every schedule of calls of the
  code returns exactly the results and output blocks of the specification, writes nothing else, and
  ends in related states.\<close>

theorem system_refines_delay_line:
  assumes "fmq_backend good contents limit api blks" and "sys_ok good contents limit cap srv d s k"
    and "framesPerBuffer (srv_config srv) \<noteq> 0" and "n = unat (buffer_size (srv_config srv))"
    and "list_all (\<lambda>c. ranges_ok (sc_memory c) inp out n) cs"
    and "dl_ok n d" and "dl_fits n cap (slips (map sc_service cs)) d"
    and "dl_calls n (schedule n inp cs) d = (rs, d')"
  shows "\<exists>s' k'. system_calls api srv inp out cs (Some s) k =
      Some (map2 (\<lambda>c (r, y). (r, blit (sc_memory c) out y)) cs rs, Some s', k') \<and>
    sys_ok good contents limit cap srv d' s' k'"
  by (rule fmq_backend.system_run [OF assms])

text \<open>A call nobody serves, then one that is served: the second returns the block of the first.\<close>

theorem system_refines_delay_line_witness:
  "\<exists>s' k'. system_calls fallback_api small_service 0 2 [one_call Asleep [1, 2, 0, 0], one_call InTime [3, 4, 0, 0]]
      (Some small_session) pair_kernel =
    Some ([(EFFECT_ERROR_TIMEOUT, [1, 2, 1, 2]), (EFFECT_OK, [3, 4, 1, 2])], Some s', k')"
proof -
  let ?cs = "[one_call Asleep [1, 2, 0, 0], one_call InTime [3, 4, 0, 0]]"
  have c: "list_all (\<lambda>c. ranges_ok (sc_memory c) 0 2 2) ?cs" "framesPerBuffer (srv_config small_service) \<noteq> 0"
    "dl_fits 2 4 (slips (map sc_service ?cs)) empty_line"
    by (simp_all add: ranges_ok_def small_buffer empty_line_def dl_fits_def slips_def)
  have spec: "dl_calls 2 (schedule 2 0 ?cs) empty_line = ([(EFFECT_ERROR_TIMEOUT, [1, 2]), (EFFECT_OK, [1, 2])],
      \<lparr>dl_in = [3, 4], dl_out = [], dl_pending = False, dl_woken = False\<rparr>)"
    by (simp add: dl_call_def dl_submit_def dl_serve_def dl_collect_def empty_line_def)
  show ?thesis
    using system_refines_delay_line [OF fallback.fmq_backend_axioms small_pair c(2) small_buffer(1) [symmetric] c(1)
        empty_line_ok(1) c(3) spec]
    by (auto simp: blit_def)
qed

text \<open>C32. A missed deadline delays the audio for good. From empty queues, after any calls of which some
  timed out, calls that are all served in time do succeed, but each returns the block offered as
  many calls before as there were time-outs: the stream stays that many blocks late.\<close>

theorem system_late_block_lags_forever:
  assumes "fmq_backend good contents limit api blks" and "sys_ok good contents limit cap srv d s k"
    and "framesPerBuffer (srv_config srv) \<noteq> 0" and "n = unat (buffer_size (srv_config srv))"
    and "list_all (\<lambda>c. ranges_ok (sc_memory c) inp out n) (cs1 @ cs2)" and "list_all (\<lambda>c. sc_service c = InTime) cs2"
    and "dl_ok n d" and "dl_load d = 0" and "n * (slips (map sc_service cs1) + 1) \<le> cap"
  shows "\<exists>rs1 rs2 h' k'. system_calls api srv inp out (cs1 @ cs2) (Some s) k = Some (rs1 @ rs2, h', k') \<and>
    length rs1 = length cs1 \<and> list_all (\<lambda>r. fst r = EFFECT_OK) rs2 \<and> timeouts rs1 \<le> length cs1 \<and>
    returned n out rs2 = take (n * length cs2) (drop (n * (length cs1 - timeouts rs1)) (offered n inp (cs1 @ cs2)))"
proof -
  have "slips (map sc_service (cs1 @ cs2)) = slips (map sc_service cs1)"
    using assms(6) by (induction cs2) (auto simp: slips_def)
  then have "dl_fits n cap (slips (map sc_service (cs1 @ cs2))) d" using assms(8,9) by (simp add: dl_fits_def dl_load_def)
  note flow = fmq_backend.system_flow [OF assms(1-5,7) this]
  have empty: "dl_out d = []" "dl_in d = []" using assms(8) by (simp_all add: dl_load_def)
  obtain rs s' k' and d' :: delay_line where run: "system_calls api srv inp out (cs1 @ cs2) (Some s) k = Some (rs, Some s', k')"
    "returned n out rs @ dl_out d' @ dl_in d' = offered n inp (cs1 @ cs2)" "list_all2 (call_outcome n inp out) (cs1 @ cs2) rs"
    using flow unfolding empty append_Nil by blast
  obtain rs1 rs2 where rs: "rs = rs1 @ rs2" "list_all2 (call_outcome n inp out) cs1 rs1" "list_all2 (call_outcome n inp out) cs2 rs2"
    using run(3) by (auto simp: list_all2_append1)
  have ok: "list_all (\<lambda>r. fst r = EFFECT_OK) rs2"
    using rs(3) assms(6) by (induction rule: list_all2_induct) (auto simp: call_outcome_def)
  have "list_all (\<lambda>c. ranges_ok (sc_memory c) inp out n) cs1" "list_all (\<lambda>c. ranges_ok (sc_memory c) inp out n) cs2"
    using assms(5) by simp_all
  note len = length_returned [OF rs(2) this(1)] length_returned [OF rs(3) this(2)]
  have "returned n out rs1 @ returned n out rs2 @ dl_out d' @ dl_in d' = offered n inp (cs1 @ cs2)"
    using run(2) by (simp add: rs(1) returned_append)
  then have "returned n out rs2 @ dl_out d' @ dl_in d' = drop (n * (length cs1 - timeouts rs1)) (offered n inp (cs1 @ cs2))"
    using len(1) by (metis append_eq_conv_conj)
  then have "returned n out rs2 = take (n * length cs2) (drop (n * (length cs1 - timeouts rs1)) (offered n inp (cs1 @ cs2)))"
    using len(2) all_ok_timeouts [OF ok] by (metis append_eq_conv_conj diff_zero)
  then show ?thesis using run(1) rs(1) ok len(1) list_all2_lengthD [OF rs(2)] by metis
qed

text \<open>One missed call, then one in time.\<close>

theorem system_late_block_lags_forever_witness:
  "\<exists>rs1 rs2 h' k'. system_calls fallback_api small_service 0 2 ([one_call Asleep [1, 2, 0, 0]] @ [one_call InTime [3, 4, 0, 0]])
      (Some small_session) pair_kernel = Some (rs1 @ rs2, h', k') \<and>
    length rs1 = 1 \<and> list_all (\<lambda>r. fst r = EFFECT_OK) rs2 \<and>
    returned 2 2 rs2 = take 2 (drop (2 * (1 - timeouts rs1)) [1, 2, 3, 4])"
proof -
  let ?c1 = "[one_call Asleep [1, 2, 0, 0]]" and ?c2 = "[one_call InTime [3, 4, 0, 0]]"
  have c: "list_all (\<lambda>c. ranges_ok (sc_memory c) 0 2 2) (?c1 @ ?c2)" "framesPerBuffer (srv_config small_service) \<noteq> 0"
    "list_all (\<lambda>c. sc_service c = InTime) ?c2" "2 * (slips (map sc_service ?c1) + 1) \<le> 4"
    by (simp_all add: ranges_ok_def small_buffer slips_def)
  have o: "offered 2 0 (?c1 @ ?c2) = [1, 2, 3, 4]" by (simp add: offered_def)
  have l: "length ?c1 = 1" "2 * length ?c2 = 2" by simp_all
  show ?thesis
    using system_late_block_lags_forever [OF fallback.fmq_backend_axioms small_pair c(2) small_buffer(1) [symmetric] c(1,3)
        empty_line_ok c(4)]
    unfolding o l by blast
qed

end
