(* ===== verification/Overrun.thy ===== *)
theory Overrun
  imports System
begin

text \<open>
  A full queue in the fallback build. \<open>EffectClient_Process\<close> gives up on a block that does not fit, but the
  ring buffer has by then taken the part that did; the rest of the block is passed through and never
  sent. The service reads whole blocks, so from then on each of its blocks straddles two of the
  client's. A queue of \<open>2 ^ 20\<close> bytes holds no whole number of blocks of \<open>480\<close> stereo frames of 16
  bits, so there the part has \<open>256\<close> bytes.
\<close>

section \<open>The part that is taken\<close>

lemma fallback_write_count:
  assumes inv: "fmq_inv a" and n: "unat n \<le> length src" "unat n < 2 ^ 32"
  obtains m a' where "api_write fallback_api (Some a) (Some src) n = Some (m, Some a')"
    and "unat m = min (unat n) (fmq_limit a - length (fmq_contents a))"
    and "fmq_inv a'" and "fmq_limit a' = fmq_limit a" and "fmq_contents a' = fmq_contents a @ take (unat m) src"
proof -
  obtain m a' where w: "api_write fallback_api (Some a) (Some src) n = Some (m, Some a')" "fmq_inv a'"
      "fmq_limit a' = fmq_limit a" "fmq_contents a' = fmq_contents a @ take (unat m) src"
    by (rule fallback.api_write_SomeE [OF inv n(1)])
  have "unat m = min (unat n) (fmq_limit a - length (fmq_contents a))"
  proof (cases "n = 0")
    case True
    then show ?thesis using w(1) by (simp add: fallback_api_def effect_fmq_write_def)
  next
    case False
    let ?rb = "ringbuffer a" and ?n = "ucast n :: u32"
    have un: "unat ?n = unat n" using n(2) by simp
    have wf: "rb_wf ?rb (buffer a)" and al: "rb_aligned ?rb" using inv by (auto simp: fmq_inv_def ring_inv_def)
    obtain rb' mem' where "effect_ringbuffer_write ?rb (buffer a) src ?n = Some (of_nat (rb_accepts ?rb ?n), rb', mem')"
      using write_correct [OF wf _ disjI1 [OF al], of ?n src] n(1) un by auto
    then have "m = ucast (of_nat (rb_accepts ?rb ?n) :: u32)"
      using w(1) False by (simp add: fallback_api_def effect_fmq_write_def)
    then have "unat m = rb_accepts ?rb ?n" by (simp only: unat_u32_to_u64 accepts_u32)
    then show ?thesis by (simp add: un fmq_abs_defs ring_limit_def ring_contents_def)
  qed
  then show thesis using that w by blast
qed

lemma overrun_call:
  assumes a: "inputFmq s = Some a" "fmq_inv a" and s: "isStarted s" "frames \<noteq> 0"
    and n: "n = unat (frames * calculate_bytes_per_frame (config s))" and um: "ranges_ok um inp out n"
    and full: "fmq_limit a < length (fmq_contents a) + n"
  shows "\<exists>a'. EffectClient_Process fallback_api env clock (Some s) (Some inp) (Some out) frames um k =
      Some (EFFECT_ERROR_TIMEOUT, Some (s\<lparr>inputFmq := Some a', stats := stats_xrun (stats s)\<rparr>),
        blit um out (take n (drop inp um)), k) \<and>
    fmq_inv a' \<and> fmq_limit a' = fmq_limit a \<and>
    fmq_contents a' = fmq_contents a @ take (fmq_limit a - length (fmq_contents a)) (drop inp um)"
proof -
  let ?total = "ucast (frames * calculate_bytes_per_frame (config s)) :: u64"
  have total: "unat ?total = n" using n by simp
  have src: "unat ?total \<le> length (drop inp um)" unfolding total using um by (auto simp: ranges_ok_def)
  have small: "unat ?total < 2 ^ 32" by simp
  obtain m a' where w: "api_write fallback_api (Some a) (Some (drop inp um)) ?total = Some (m, Some a')"
      "unat m = min (unat ?total) (fmq_limit a - length (fmq_contents a))" "fmq_inv a'" "fmq_limit a' = fmq_limit a"
      "fmq_contents a' = fmq_contents a @ take (unat m) (drop inp um)"
    by (rule fallback_write_count [OF a(2) src small])
  have m: "unat m = fmq_limit a - length (fmq_contents a)" "m < ?total"
    using w(2) full fallback.contents_bound [OF a(2)] unfolding word_less_nat_alt total by auto
  have "EffectClient_Process fallback_api env clock (Some s) (Some inp) (Some out) frames um k =
      Some (EFFECT_ERROR_TIMEOUT, Some (s\<lparr>inputFmq := Some a', stats := stats_xrun (stats s)\<rparr>),
        blit um out (take n (drop inp um)), k)"
    using s a w(1) m(2) memcpy_within_ok [OF um] n by (simp add: EffectClient_Process_def)
  then show ?thesis using w(3-5) m(1) by (intro exI [of _ a']) simp
qed

section \<open>Blocks that straddle\<close>

lemma straddle:
  assumes "\<forall>y \<in> set ys. length y = n" and "length z = m" and "m \<le> n" and "Suc i < length ys"
  shows "take n (drop (n * Suc i) (z @ concat ys)) = drop (n - m) (ys ! i) @ take (n - m) (ys ! Suc i)"
  using assms
proof (induction i arbitrary: z ys)
  case 0
  obtain y0 ws where "ys = y0 # ws" using 0 by (cases ys) auto
  moreover obtain y1 zs where "ws = y1 # zs" using 0 calculation by (cases ws) auto
  ultimately have ys: "ys = y0 # y1 # zs" by simp
  have "drop n (z @ concat ys) = drop (n - m) y0 @ y1 @ concat zs" using 0 by (simp add: ys)
  then show ?case using 0 by (simp add: ys)
next
  case (Suc i)
  then obtain y0 zs where ys: "ys = y0 # zs" by (cases ys) auto
  have "n * Suc (Suc i) = n * Suc i + n" by simp
  then have "drop (n * Suc (Suc i)) (z @ concat ys) = drop (n * Suc i) (drop n (z @ concat ys))"
    by (simp only: drop_drop)
  also have "drop n (z @ concat ys) = drop (n - m) y0 @ concat zs" using Suc.prems by (simp add: ys)
  finally have e: "drop (n * Suc (Suc i)) (z @ concat ys) = drop (n * Suc i) (drop (n - m) y0 @ concat zs)" .
  have p: "\<forall>y \<in> set zs. length y = n" "length (drop (n - m) y0) = m" "Suc i < length zs" using Suc.prems by (auto simp: ys)
  show ?case unfolding e Suc.IH [OF p(1,2) Suc.prems(3) p(3)] by (simp add: ys)
qed

lemma take_drop_prefix: "i + n \<le> length xs \<Longrightarrow> take n (drop i (xs @ ys)) = take n (drop i xs)"
  by simp

lemma drop_block_prefix: "length p = n * j \<Longrightarrow> drop (n * (j + i)) (p @ w) = drop (n * i) w"
  by (simp add: algebra_simps)

lemma block_inside: "j < (k :: nat) \<Longrightarrow> length xs = n * k \<Longrightarrow> n * j + n \<le> length xs"
  by (metis Suc_leI mult_Suc_right mult_le_mono2 add.commute)

lemma nth_block:
  assumes "list_all (\<lambda>ry. fst ry = EFFECT_OK \<and> out + n \<le> length (snd ry)) rs" and "j < length rs"
  shows "take n (drop (n * j) (returned n out rs)) = take n (drop out (snd (rs ! j)))"
  using assms
proof (induction rs arbitrary: j)
  case (Cons ry rs)
  have "returned n out (ry # rs) = take n (drop out (snd ry)) @ returned n out rs"
    using Cons.prems(1) by (cases ry) (simp add: returned_def passed_def)
  then show ?case using Cons by (cases j) auto
qed simp

section \<open>After an overrun\<close>

text \<open>The queues after a call that overran and the iteration of the service that makes room again.\<close>

lemma overrun_then_serve:
  assumes sys: "sys_ok fmq_inv fmq_contents fmq_limit cap srv d s k"
    and a: "inputFmq s = Some a" "fmq_limit a = cap" "cap < length (dl_in d) + n"
    and fr: "framesPerBuffer (srv_config srv) \<noteq> 0" and n: "n = unat (buffer_size (srv_config srv))"
    and d: "dl_pending d" "n \<le> length (dl_in d)" "length (dl_out d) + n \<le> cap" and um: "ranges_ok um inp out n"
  shows "\<exists>s1 s2 k2. EffectClient_Process fallback_api env clock (Some s) (Some inp) (Some out) (framesPerBuffer (srv_config srv)) um k =
      Some (EFFECT_ERROR_TIMEOUT, Some s1, blit um out (take n (drop inp um)), k) \<and>
    run_peer (service_peer fallback_api sclock srv) 1 (s1, k) = (s2, k2) \<and>
    sys_ok fmq_inv fmq_contents fmq_limit cap srv
      (dl_serve n (d\<lparr>dl_in := dl_in d @ take (cap - length (dl_in d)) (drop inp um)\<rparr>)) s2 k2"
proof -
  have s: "isStarted s" "config s = srv_config srv" "fmq_inv a" "fmq_contents a = dl_in d"
    using sys a(1) by (auto elim!: sys_okE)
  have n': "n = unat (framesPerBuffer (srv_config srv) * calculate_bytes_per_frame (config s))"
    by (simp add: n s(2) buffer_size_def)
  let ?d = "d\<lparr>dl_in := dl_in d @ take (cap - length (dl_in d)) (drop inp um)\<rparr>"
  have full: "fmq_limit a < length (fmq_contents a) + n" using a(2,3) s(4) by simp
  obtain a' where P: "EffectClient_Process fallback_api env clock (Some s) (Some inp) (Some out) (framesPerBuffer (srv_config srv)) um k =
      Some (EFFECT_ERROR_TIMEOUT, Some (s\<lparr>inputFmq := Some a', stats := stats_xrun (stats s)\<rparr>), blit um out (take n (drop inp um)), k)"
      "fmq_inv a'" "fmq_limit a' = cap" "fmq_contents a' = dl_in d @ take (cap - length (dl_in d)) (drop inp um)"
    using overrun_call [OF a(1) s(3,1) fr n' um full, of env clock k] unfolding a(2) s(4) by blast
  let ?s1 = "s\<lparr>inputFmq := Some a', stats := stats_xrun (stats s)\<rparr>"
  have "sys_ok fmq_inv fmq_contents fmq_limit cap srv ?d ?s1 k" using sys P(2-4) by (auto simp: sys_ok_def)
  then obtain a2 b2 k2 where "run_peer (service_peer fallback_api sclock srv) 1 (?s1, k) =
      (?s1\<lparr>inputFmq := Some a2, outputFmq := Some b2\<rparr>, k2)"
      "sys_ok fmq_inv fmq_contents fmq_limit cap srv (dl_serve n ?d) (?s1\<lparr>inputFmq := Some a2, outputFmq := Some b2\<rparr>) k2"
    by (rule fallback.sys_serve [OF _ _ _ _ n, where clock = sclock]) (use d in simp_all)
  then show ?thesis using P(1) by blast
qed

section \<open>A concrete queue\<close>

text \<open>Sixteen bytes of room, \<open>xs\<close> queued; three channels, so that a block of one frame has six bytes.\<close>

definition tight_queue :: "bytes \<Rightarrow> EffectFmqContext" where
  "tight_queue xs = \<lparr>ringbuffer = \<lparr>write_index = of_nat (length xs), read_index = 0, rb_capacity = 16, rb_data = 0\<rparr>,
     buffer = xs @ replicate (16 - length xs) 0, ctx_capacity = 16, ctx_type = EFFECT_FMQ_SYNCHRONIZED, elementSize = 1\<rparr>"

lemma tight_queue_ok:
  assumes "length xs \<le> 16"
  shows "fmq_inv (tight_queue xs)" and "fmq_contents (tight_queue xs) = xs" and "fmq_limit (tight_queue xs) = 16"
proof -
  let ?rb = "ringbuffer (tight_queue xs)"
  have used: "rb_used ?rb = length xs" using assms by (simp add: tight_queue_def rb_used_def)
  have al: "rb_aligned ?rb" by (simp add: rb_aligned_def tight_queue_def)
  show "fmq_inv (tight_queue xs)"
    unfolding fmq_inv_def ring_inv_def using used al assms by (simp add: rb_wf_def) (simp add: tight_queue_def)
  show "fmq_limit (tight_queue xs) = 16" by (simp add: fmq_limit_def ring_limit_def tight_queue_def)
  have "ring_view (xs @ replicate (16 - length xs) 0) 0 16 0 (length xs) = xs"
  proof (rule nth_equalityI)
    fix i
    assume "i < length (ring_view (xs @ replicate (16 - length xs) 0) 0 16 0 (length xs))"
    then have i: "i < length xs" by simp
    then show "ring_view (xs @ replicate (16 - length xs) 0) 0 16 0 (length xs) ! i = xs ! i"
      using assms by (simp add: nth_append)
  qed simp
  then show "fmq_contents (tight_queue xs) = xs"
    by (simp add: fmq_contents_def ring_contents_def rb_contents_def used) (simp add: tight_queue_def)
qed

definition tight_config :: EffectConfig where
  "tight_config = \<lparr>sampleRate = 48000, channels = 3, format = 16, framesPerBuffer = 1\<rparr>"

definition tight_session :: "EffectFmqContext EffectSession" where
  "tight_session = small_session\<lparr>config := tight_config, inputFmq := Some (tight_queue (replicate 12 9)),
     outputFmq := Some (tight_queue [])\<rparr>"

definition tight_service :: "EffectFmqContext ServerSession" where
  "tight_service = small_service\<lparr>srv_config := tight_config\<rparr>"

definition tight_kernel :: kernel where
  "tight_kernel = (fresh_kernel [])\<lparr>fds := [0 \<mapsto> EventFd 2, 1 \<mapsto> EventFd 0]\<rparr>"

definition tight_line :: delay_line where
  "tight_line = \<lparr>dl_in = replicate 12 9, dl_out = [], dl_pending = True, dl_woken = False\<rparr>"

lemma tight_buffer: "unat (buffer_size (srv_config tight_service)) = 6" "framesPerBuffer (srv_config tight_service) = 1"
  by (simp_all add: tight_service_def tight_config_def buffer_size_def calculate_bytes_per_frame_def)

lemma tight_pair: "sys_ok fmq_inv fmq_contents fmq_limit 16 tight_service tight_line tight_session tight_kernel"
  unfolding sys_ok_def
  by (intro exI [of _ "tight_queue (replicate 12 9)"] exI [of _ "tight_queue []"] exI [of _ 2] exI [of _ 0] exI [of _ 0] exI [of _ 1])
    (simp add: tight_session_def tight_service_def small_session_def small_service_def tight_queue_ok tight_kernel_def
      fresh_kernel_def events_def tight_line_def)

section \<open>Properties\<close>

text \<open>C21. In the fallback build an overrun misaligns the stream for good. When the input queue has no room for
  a block, the call times out and passes the block through, but its first \<open>m\<close> bytes stay queued; after
  the service has made room, calls served in time succeed, and once the older blocks are out, every block
  they return is the end of one submitted block followed by the beginning of the next.\<close>

theorem client_overrun_misaligns_stream:
  assumes "sys_ok fmq_inv fmq_contents fmq_limit cap srv d s k"
    and "inputFmq s = Some a" and "fmq_limit a = cap" and "cap < length (dl_in d) + n" and "m = cap - length (dl_in d)"
    and "framesPerBuffer (srv_config srv) \<noteq> 0" and "n = unat (buffer_size (srv_config srv))"
    and "dl_pending d" and "n \<le> length (dl_in d)" and "length (dl_out d) + 2 * n \<le> cap" and "dl_load d = n * j"
    and "ranges_ok um inp out n" and "list_all (\<lambda>c. ranges_ok (sc_memory c) inp out n) cs"
    and "list_all (\<lambda>c. sc_service c = InTime) cs"
  shows "\<exists>s1 s2 k2 rs h3 k3.
    EffectClient_Process fallback_api env clock (Some s) (Some inp) (Some out) (framesPerBuffer (srv_config srv)) um k =
      Some (EFFECT_ERROR_TIMEOUT, Some s1, blit um out (take n (drop inp um)), k) \<and>
    run_peer (service_peer fallback_api sclock srv) 1 (s1, k) = (s2, k2) \<and>
    system_calls fallback_api srv inp out cs (Some s2) k2 = Some (rs, h3, k3) \<and> list_all (\<lambda>r. fst r = EFFECT_OK) rs \<and>
    (\<forall>i. j + Suc i < length cs \<longrightarrow> take n (drop out (snd (rs ! (j + Suc i)))) =
      drop (n - m) (take n (drop inp (sc_memory (cs ! i)))) @ take (n - m) (take n (drop inp (sc_memory (cs ! Suc i)))))"
proof -
  let ?d1 = "d\<lparr>dl_in := dl_in d @ take m (drop inp um)\<rparr>"
  have len: "length (dl_in d) \<le> cap" using assms(1) by (rule sys_okE) (use fallback.contents_bound assms(2,3) in force)
  have m: "m \<le> n" "length (take m (drop inp um)) = m" using assms(4,5,12) len by (auto simp: ranges_ok_def)
  obtain s1 s2 k2 where 1: "EffectClient_Process fallback_api env clock (Some s) (Some inp) (Some out)
      (framesPerBuffer (srv_config srv)) um k = Some (EFFECT_ERROR_TIMEOUT, Some s1, blit um out (take n (drop inp um)), k)"
      "run_peer (service_peer fallback_api sclock srv) 1 (s1, k) = (s2, k2)"
      "sys_ok fmq_inv fmq_contents fmq_limit cap srv (dl_serve n ?d1) s2 k2"
    using overrun_then_serve [OF assms(1-4,6-9) _ assms(12), of env clock sclock] assms(5,10) by auto
  have "slips (map sc_service cs) = 0" using assms(14) by (induction cs) (auto simp: slips_def)
  then have fits: "dl_fits n cap (slips (map sc_service cs)) (dl_serve n ?d1)" "dl_ok n (dl_serve n ?d1)"
    using assms(5,9,10) m len by (auto simp: dl_fits_def dl_serve_def dl_ok_def)
  obtain rs s3 k3 and d3 :: delay_line where 2: "system_calls fallback_api srv inp out cs (Some s2) k2 = Some (rs, Some s3, k3)"
      "returned n out rs @ dl_out d3 @ dl_in d3 = dl_out (dl_serve n ?d1) @ dl_in (dl_serve n ?d1) @ offered n inp cs"
      "list_all2 (call_outcome n inp out) cs rs"
    using fallback.system_flow [OF 1(3) assms(6,7,13) fits(2,1)] by blast
  let ?ys = "map (\<lambda>c. take n (drop inp (sc_memory c))) cs" and ?z = "take m (drop inp um)"
  have stream: "returned n out rs @ dl_out d3 @ dl_in d3 = (dl_out d @ dl_in d) @ ?z @ concat ?ys"
    using 2(2) assms(9) by (simp add: dl_serve_def offered_def)
  have ok: "list_all (\<lambda>ry. fst ry = EFFECT_OK) rs" "list_all (\<lambda>ry. fst ry = EFFECT_OK \<and> out + n \<le> length (snd ry)) rs"
    using 2(3) assms(13,14) by (induction rule: list_all2_induct) (auto simp: call_outcome_def ranges_ok_def)
  have size: "length (returned n out rs) = n * length cs" "length rs = length cs"
    using length_returned [OF 2(3) assms(13)] all_ok_timeouts [OF ok(1)] list_all2_lengthD [OF 2(3)] by simp_all
  have blocks: "\<forall>y \<in> set ?ys. length y = n" using assms(13) by (auto simp: ranges_ok_def list_all_iff)
  have "take n (drop out (snd (rs ! (j + Suc i)))) = drop (n - m) (?ys ! i) @ take (n - m) (?ys ! Suc i)"
    if i: "j + Suc i < length cs" for i
  proof -
    have "take n (drop out (snd (rs ! (j + Suc i)))) = take n (drop (n * (j + Suc i)) (returned n out rs))"
      by (rule nth_block [OF ok(2), symmetric]) (use size(2) i in simp)
    also have "\<dots> = take n (drop (n * (j + Suc i)) ((dl_out d @ dl_in d) @ ?z @ concat ?ys))"
      unfolding stream [symmetric] by (rule take_drop_prefix [symmetric]) (rule block_inside [OF i size(1)])
    also have "\<dots> = take n (drop (n * Suc i) (?z @ concat ?ys))"
      using drop_block_prefix [of "dl_out d @ dl_in d" n j "Suc i" "?z @ concat ?ys"] assms(11) by (simp add: dl_load_def)
    also have "\<dots> = drop (n - m) (?ys ! i) @ take (n - m) (?ys ! Suc i)"
      by (rule straddle [OF blocks m(2,1)]) (use i in simp)
    finally show ?thesis .
  qed
  then have "\<forall>i. j + Suc i < length cs \<longrightarrow> take n (drop out (snd (rs ! (j + Suc i)))) =
      drop (n - m) (take n (drop inp (sc_memory (cs ! i)))) @ take (n - m) (take n (drop inp (sc_memory (cs ! Suc i))))"
    by simp
  then show ?thesis using 1(1,2) 2(1) ok(1) by blast
qed

text \<open>Two blocks are queued and four of the six bytes of the next fit. The block returned by the fourth call
  starts with the last four bytes of the first call's block.\<close>

theorem client_overrun_misaligns_stream_witness:
  "\<exists>s1 s2 k2 rs h3 k3.
    EffectClient_Process fallback_api idle_peer no_time (Some tight_session) (Some 0) (Some 6) 1 (replicate 12 8) tight_kernel =
      Some (EFFECT_ERROR_TIMEOUT, Some s1, blit (replicate 12 8) 6 (take 6 (drop 0 (replicate 12 8))), tight_kernel) \<and>
    run_peer (service_peer fallback_api no_time tight_service) 1 (s1, tight_kernel) = (s2, k2) \<and>
    system_calls fallback_api tight_service 0 6 (map (\<lambda>i. one_call InTime [i, i, i, i, i, i + 10, 0, 0, 0, 0, 0, 0]) [1, 2, 3, 4])
      (Some s2) k2 = Some (rs, h3, k3) \<and>
    take 6 (drop 6 (snd (rs ! 3))) = [1, 1, 1, 11, 2, 2]"
proof -
  let ?cs = "map (\<lambda>i. one_call InTime [i, i, i, i, i, i + 10, 0, 0, 0, 0, 0, 0]) [1, 2, 3, 4]"
  have a: "inputFmq tight_session = Some (tight_queue (replicate 12 9))" by (simp add: tight_session_def)
  have l: "fmq_limit (tight_queue (replicate 12 9)) = 16" by (simp add: tight_queue_ok)
  have c: "16 < length (dl_in tight_line) + 6" "4 = 16 - length (dl_in tight_line)"
      "framesPerBuffer (srv_config tight_service) \<noteq> 0" "dl_pending tight_line" "6 \<le> length (dl_in tight_line)"
      "length (dl_out tight_line) + 2 * 6 \<le> 16" "dl_load tight_line = 6 * 2" "ranges_ok (replicate 12 8) 0 6 6"
      "list_all (\<lambda>c. ranges_ok (sc_memory c) 0 6 6) ?cs" "list_all (\<lambda>c. sc_service c = InTime) ?cs"
    by (simp_all add: tight_line_def tight_buffer dl_load_def ranges_ok_def)
  have e: "take 6 (drop 6 (snd (rs ! 3))) = [1, 1, 1, 11, 2, 2]"
    if "\<forall>i. 2 + Suc i < length ?cs \<longrightarrow> take 6 (drop 6 (snd (rs ! (2 + Suc i)))) =
      drop (6 - 4) (take 6 (drop 0 (sc_memory (?cs ! i)))) @ take (6 - 4) (take 6 (drop 0 (sc_memory (?cs ! Suc i))))"
    for rs :: "(EffectResult \<times> bytes) list"
    using that [THEN spec, of 0] by (simp add: numeral_3_eq_3)
  show ?thesis
    using client_overrun_misaligns_stream [OF tight_pair a l c(1,2,3) tight_buffer(1) [symmetric] c(4-10), of idle_peer no_time no_time]
    unfolding tight_buffer(2) using e by blast
qed

end
