(* ===== verification/Pieces.thy ===== *)
theory Pieces
  imports Client Session
begin

text \<open>
  \<open>EffectClient_Process\<close> and an iteration of the service's loop, cut at every access to a queue or an
  event. Run without interruption the pieces are the functions of \<open>Client\<close> and \<open>Session\<close>; theory
  \<open>Interleaved\<close> interleaves them. A write to or a read from a queue is one piece, which is what \<open>Spsc\<close>
  justifies for the ring buffer.
\<close>

section \<open>The client's pieces\<close>

text \<open>Where a call stands: before its write, its signal, its wait, its read; or returned.\<close>

record client_call =
  cc_inp :: nat
  cc_out :: nat
  cc_frames :: u32
  cc_memory :: bytes
  cc_start :: timespec

datatype client_phase = CWrite client_call | CSignal client_call | CWait client_call | CRead client_call
  | CDone EffectResult bytes

definition client_turn ::
  "'q fmq_api \<Rightarrow> timespec \<Rightarrow> 'q EffectSession \<Rightarrow> client_phase \<Rightarrow> kernel \<Rightarrow>
   ('q EffectSession \<times> client_phase \<times> kernel) option" where
  "client_turn api now session ph k =
     (case ph of
        CWrite c \<Rightarrow> do {
          let totalBytes = cc_frames c * calculate_bytes_per_frame (config session);
          (written, inq) \<leftarrow> api_write api (inputFmq session) (Some (drop (cc_inp c) (cc_memory c))) (ucast totalBytes);
          let session = session\<lparr>inputFmq := inq\<rparr>;
          if written < ucast totalBytes then do {
            let session = session\<lparr>stats := stats_xrun (stats session)\<rparr>;
            um \<leftarrow> memcpy_within (cc_memory c) (cc_out c) (cc_inp c) (unat totalBytes);
            Some (session, CDone EFFECT_ERROR_TIMEOUT um, k) }
          else Some (session, CSignal c, k) }
      | CSignal c \<Rightarrow> (case effect_eventfd_signal (eventFdIn session) k of (r, k) \<Rightarrow> Some (session, CWait c, k))
      | CWait c \<Rightarrow> do {
          let totalBytes = cc_frames c * calculate_bytes_per_frame (config session);
          let (wait_result, k) = effect_eventfd_wait (eventFdOut session) TIMEOUT_MS k;
          if wait_result < 0 then do {
            let session = session\<lparr>stats := stats_timeout (stats session)\<rparr>;
            um \<leftarrow> memcpy_within (cc_memory c) (cc_out c) (cc_inp c) (unat totalBytes);
            Some (session, CDone EFFECT_ERROR_TIMEOUT um, k) }
          else Some (session, CRead c, k) }
      | CRead c \<Rightarrow> do {
          let totalBytes = cc_frames c * calculate_bytes_per_frame (config session);
          let um = cc_memory c;
          (got, dst, outq) \<leftarrow> api_read api (outputFmq session) (Some (drop (cc_out c) um)) (ucast totalBytes);
          let session = session\<lparr>outputFmq := outq\<rparr>;
          let um = (case dst of None \<Rightarrow> um | Some d \<Rightarrow> take (cc_out c) um @ d);
          if got < ucast totalBytes then do {
            um \<leftarrow> memcpy_within um (cc_out c) (cc_inp c) (unat totalBytes);
            let session = session\<lparr>stats := stats_dropped (cc_frames c) (stats session)\<rparr>;
            Some (session, CDone EFFECT_ERROR_TIMEOUT um, k) }
          else
            let latency = elapsed_us (cc_start c) now;
                session = session\<lparr>stats := stats_processed (cc_frames c) latency (stats session)\<rparr>
            in Some (session, CDone EFFECT_OK um, k) }
      | CDone r um \<Rightarrow> Some (session, ph, k))"

text \<open>The pieces of one call with a peer in the gaps.\<close>

fun client_turns ::
  "'q fmq_api \<Rightarrow> 'q peer \<Rightarrow> (nat \<Rightarrow> timespec) \<Rightarrow> nat list \<Rightarrow> 'q EffectSession \<Rightarrow> client_phase \<Rightarrow> kernel \<Rightarrow>
   ('q EffectSession \<times> client_phase \<times> kernel) option" where
  "client_turns api env clock [] s ph k = client_turn api (clock 1) s ph k"
| "client_turns api env clock (i # is) s ph k = do {
     (s, ph, k) \<leftarrow> client_turn api (clock 1) s ph k;
     case ph of
       CDone r um \<Rightarrow> Some (s, ph, k)
     | _ \<Rightarrow> (case run_peer env i (s, k) of (s, k) \<Rightarrow> client_turns api env clock is s ph k) }"

lemma run_peer_config: "run_peer env i (s, k) = (s', k') \<Longrightarrow> config s' = config s"
  by (auto simp: run_peer_def split: option.splits prod.splits)

lemma client_turns_process:
  assumes s: "isStarted s" "frames \<noteq> 0"
    and c: "c = \<lparr>cc_inp = inp, cc_out = out, cc_frames = frames, cc_memory = um, cc_start = clock 0\<rparr>"
  shows "EffectClient_Process api env clock (Some s) (Some inp) (Some out) frames um k = do {
     (s, ph, k) \<leftarrow> client_turns api env clock [0, 1, 2] s (CWrite c) k;
     (case ph of CDone r um \<Rightarrow> Some (r, Some s, um, k) | _ \<Rightarrow> None) }"
proof (cases "api_write api (inputFmq s) (Some (drop inp um)) (ucast (frames * calculate_bytes_per_frame (config s)))")
  case None
  then show ?thesis using s by (simp add: EffectClient_Process_def client_turn_def c)
next
  case (Some wq)
  then obtain w q where w: "api_write api (inputFmq s) (Some (drop inp um)) (ucast (frames * calculate_bytes_per_frame (config s))) = Some (w, q)"
    by (cases wq) simp
  let ?s1 = "s\<lparr>inputFmq := q\<rparr>"
  obtain s2 k2 where p0: "run_peer env 0 (?s1, k) = (s2, k2)" by fastforce
  obtain sg k3 where g: "effect_eventfd_signal (eventFdIn s2) k2 = (sg, k3)" by fastforce
  obtain s4 k4 where p1: "run_peer env 1 (s2, k3) = (s4, k4)" by fastforce
  obtain wr k5 where wt: "effect_eventfd_wait (eventFdOut s4) TIMEOUT_MS k4 = (wr, k5)" by fastforce
  obtain s6 k6 where p2: "run_peer env 2 (s4, k5) = (s6, k6)" by fastforce
  have same: "config s2 = config s" "config s4 = config s" "config s6 = config s"
    using run_peer_config [OF p0] run_peer_config [OF p1] run_peer_config [OF p2] by simp_all
  show ?thesis
  proof (cases "w < ucast (frames * calculate_bytes_per_frame (config s))")
    case True
    then show ?thesis using s w by (simp add: EffectClient_Process_def client_turn_def c split: Option.bind_split)
  next
    case wrote: False
    show ?thesis
    proof (cases "wr < 0")
      case True
      then show ?thesis using s w wrote p0 g p1 wt same
        by (simp add: EffectClient_Process_def client_turn_def c split: Option.bind_split)
    next
      case woke: False
      note facts = s w wrote p0 g p1 wt woke p2 same
      show ?thesis
      proof (cases "api_read api (outputFmq s6) (Some (drop out um)) (ucast (frames * calculate_bytes_per_frame (config s)))")
        case None
        then show ?thesis using facts by (simp add: EffectClient_Process_def client_turn_def c)
      next
        case (Some gdb)
        then obtain got d b where "api_read api (outputFmq s6) (Some (drop out um))
            (ucast (frames * calculate_bytes_per_frame (config s))) = Some (got, d, b)"
          by (cases gdb) simp
        then show ?thesis using facts
          by (cases "got < ucast (frames * calculate_bytes_per_frame (config s))"; cases d)
            (simp_all add: EffectClient_Process_def client_turn_def c split: Option.bind_split)
      qed
    qed
  qed
qed

section \<open>The service's pieces\<close>

datatype service_phase = AtWait | AtCheck timespec | AtRead timespec | AtWrite timespec | AtSignal timespec

definition service_turn ::
  "'q fmq_api \<Rightarrow> timespec \<Rightarrow> 'q ServerSession \<Rightarrow> service_phase \<Rightarrow> bytes \<Rightarrow> bytes \<Rightarrow> kernel \<Rightarrow>
   ('q ServerSession \<times> service_phase \<times> bytes \<times> bytes \<times> kernel) option" where
  "service_turn api now session ph inputBuffer outputBuffer k =
     (let bytesPerFrame = calculate_bytes_per_frame (srv_config session);
          bufferSize = buffer_size (srv_config session)
      in case ph of
        AtWait \<Rightarrow>
          let (wait_result, k) = effect_eventfd_wait (srv_eventFdIn session) 100 k
          in Some (session, if wait_result < 0 then AtWait else AtCheck now, inputBuffer, outputBuffer, k)
      | AtCheck start_time \<Rightarrow>
          let available = api_available_to_read api (srv_inputFmq session)
          in Some (session, if available < ucast bufferSize then AtWait else AtRead start_time, inputBuffer, outputBuffer, k)
      | AtRead start_time \<Rightarrow> do {
          (got, dst, inq) \<leftarrow> api_read api (srv_inputFmq session) (Some inputBuffer) (ucast bufferSize);
          let session = session\<lparr>srv_inputFmq := inq\<rparr>;
          let inputBuffer = (case dst of None \<Rightarrow> inputBuffer | Some d \<Rightarrow> d);
          if got < ucast bufferSize then
            Some (session\<lparr>srv_stats := stats_xrun (srv_stats session)\<rparr>, AtWait, inputBuffer, outputBuffer, k)
          else do {
            outputBuffer \<leftarrow> mock_process_audio (libContext session) inputBuffer outputBuffer
              (framesPerBuffer (srv_config session)) bytesPerFrame;
            Some (session, AtWrite start_time, inputBuffer, outputBuffer, k) } }
      | AtWrite start_time \<Rightarrow> do {
          (written, outq) \<leftarrow> api_write api (srv_outputFmq session) (Some outputBuffer) (ucast bufferSize);
          let session = session\<lparr>srv_outputFmq := outq\<rparr>;
          if written < ucast bufferSize then
            Some (session\<lparr>srv_stats := stats_dropped (framesPerBuffer (srv_config session)) (srv_stats session)\<rparr>,
              AtWait, inputBuffer, outputBuffer, k)
          else Some (session, AtSignal start_time, inputBuffer, outputBuffer, k) }
      | AtSignal start_time \<Rightarrow>
          let (sig, k) = effect_eventfd_signal (srv_eventFdOut session) k;
              latency = elapsed_us start_time now
          in Some (session\<lparr>srv_stats :=
               stats_processed (framesPerBuffer (srv_config session)) latency (srv_stats session)\<rparr>,
               AtWait, inputBuffer, outputBuffer, k))"

text \<open>Pieces in a row until the head of the loop, at most \<open>m\<close>; the first reading of the clock follows
  the wait, the second the signal.\<close>

fun service_turns ::
  "'q fmq_api \<Rightarrow> (nat \<Rightarrow> timespec) \<Rightarrow> nat \<Rightarrow> 'q ServerSession \<Rightarrow> service_phase \<Rightarrow> bytes \<Rightarrow> bytes \<Rightarrow> kernel \<Rightarrow>
   ('q ServerSession \<times> service_phase \<times> bytes \<times> bytes \<times> kernel) option" where
  "service_turns api clock 0 s ph ib ob k = Some (s, ph, ib, ob, k)"
| "service_turns api clock (Suc m) s ph ib ob k = do {
     (s, ph, ib, ob, k) \<leftarrow> service_turn api (case ph of AtWait \<Rightarrow> clock 0 | _ \<Rightarrow> clock 1) s ph ib ob k;
     if ph = AtWait then Some (s, ph, ib, ob, k) else service_turns api clock m s ph ib ob k }"

section \<open>Properties\<close>

text \<open>The service's pieces in a row are one iteration of its loop: from the head of the loop they come back to
  it within five, with the session, buffers and kernel of the iteration.\<close>

theorem service_pieces_are_iteration:
  "service_turns api clock 5 s AtWait ib ob k = do {
     (s, ib, ob, k) \<leftarrow> processing_iteration api clock s ib ob k;
     Some (s, AtWait, ib, ob, k) }"
proof -
  let ?n = "ucast (buffer_size (srv_config s)) :: u64"
  obtain w k1 where w: "effect_eventfd_wait (srv_eventFdIn s) 100 k = (w, k1)" by fastforce
  obtain sg k2 where g: "effect_eventfd_signal (srv_eventFdOut s) k1 = (sg, k2)" by fastforce
  note defs = processing_iteration_def service_turn_def eval_nat_numeral
  show ?thesis
  proof (cases "w < 0 \<or> api_available_to_read api (srv_inputFmq s) < ?n")
    case True
    then show ?thesis using w by (auto simp: defs Let_def)
  next
    case ready: False
    show ?thesis
    proof (cases "api_read api (srv_inputFmq s) (Some ib) ?n")
      case None
      then show ?thesis using w ready by (simp add: defs)
    next
      case (Some gdb)
      then obtain got d q where r: "api_read api (srv_inputFmq s) (Some ib) ?n = Some (got, d, q)" by (cases gdb) simp
      let ?ib = "case d of None \<Rightarrow> ib | Some d \<Rightarrow> d"
      let ?ob = "mock_process_audio (libContext s) ?ib ob (framesPerBuffer (srv_config s)) (calculate_bytes_per_frame (srv_config s))"
      show ?thesis
      proof (cases "got < ?n \<or> ?ob = None")
        case True
        then show ?thesis using w ready r by (cases "got < ?n") (auto simp: defs Let_def)
      next
        case False
        then obtain ob' where ob: "\<not> got < ?n" "?ob = Some ob'" by auto
        then show ?thesis
          using w g ready r by (cases "api_write api (srv_outputFmq s) (Some ob') ?n") (auto simp: defs Let_def)
      qed
    qed
  qed
qed

end
