(* ===== verification/Interleaved.thy ===== *)
theory Interleaved
  imports Pieces System "HOL-Library.Sublist"
begin

text \<open>
  Client and service as two threads over the shared queues and events, their pieces interleaved in any
  order. The invariant conserves the byte streams and keeps the client from being locked out; and
  any interleaved call is a call of \<open>EffectClient_Process\<close> with some peer, so what is proved there for every
  peer holds here.
\<close>

section \<open>The two threads\<close>

text \<open>The shared queues are those of the client's session; the service's session is given them for each of
  its steps. \<open>sent\<close>, \<open>got\<close> and \<open>lost\<close> record what the input queue accepted from the client, what the client read,
  and how many bytes the service found no room for.\<close>

record 'q pair =
  cl :: "'q EffectSession"
  cph :: client_phase
  sv :: "'q ServerSession"
  sph :: service_phase
  ibuf :: bytes
  obuf :: bytes
  pk :: kernel
  sent :: bytes
  got :: bytes
  lost :: nat

definition loaded :: "'q pair \<Rightarrow> 'q ServerSession" where
  "loaded p = (sv p)\<lparr>srv_inputFmq := inputFmq (cl p), srv_outputFmq := outputFmq (cl p)\<rparr>"

definition sent_now :: "'q fmq_api \<Rightarrow> 'q EffectSession \<Rightarrow> client_phase \<Rightarrow> bytes" where
  "sent_now api s ph =
     (case ph of
        CWrite c \<Rightarrow>
          (case api_write api (inputFmq s) (Some (drop (cc_inp c) (cc_memory c)))
              (ucast (cc_frames c * calculate_bytes_per_frame (config s))) of
             Some (w, q) \<Rightarrow> take (unat w) (drop (cc_inp c) (cc_memory c)) | None \<Rightarrow> [])
      | _ \<Rightarrow> [])"

definition got_now :: "'q fmq_api \<Rightarrow> 'q EffectSession \<Rightarrow> client_phase \<Rightarrow> bytes" where
  "got_now api s ph =
     (case ph of
        CRead c \<Rightarrow>
          (case api_read api (outputFmq s) (Some (drop (cc_out c) (cc_memory c)))
              (ucast (cc_frames c * calculate_bytes_per_frame (config s))) of
             Some (r, Some d, q) \<Rightarrow> take (unat r) d | _ \<Rightarrow> [])
      | _ \<Rightarrow> [])"

definition lost_now :: "'q fmq_api \<Rightarrow> 'q ServerSession \<Rightarrow> service_phase \<Rightarrow> bytes \<Rightarrow> nat" where
  "lost_now api s ph ob =
     (case ph of
        AtWrite t \<Rightarrow>
          (case api_write api (srv_outputFmq s) (Some ob) (ucast (buffer_size (srv_config s))) of
             Some (w, q) \<Rightarrow> unat (buffer_size (srv_config s)) - unat w | None \<Rightarrow> 0)
      | _ \<Rightarrow> 0)"

inductive pair_step :: "'q fmq_api \<Rightarrow> (client_call \<Rightarrow> bool) \<Rightarrow> 'q pair \<Rightarrow> 'q pair \<Rightarrow> bool" for api calls where
  call: "cph p = CDone r um \<Longrightarrow> calls c \<Longrightarrow> pair_step api calls p (p\<lparr>cph := CWrite c\<rparr>)"
| client: "client_turn api now (cl p) (cph p) (pk p) = Some (s', ph', k') \<Longrightarrow>
    pair_step api calls p (p\<lparr>cl := s', cph := ph', pk := k', sent := sent p @ sent_now api (cl p) (cph p),
      got := got p @ got_now api (cl p) (cph p)\<rparr>)"
| service: "service_turn api now (loaded p) (sph p) (ibuf p) (obuf p) (pk p) = Some (s', ph', ib', ob', k') \<Longrightarrow>
    pair_step api calls p (p\<lparr>cl := (cl p)\<lparr>inputFmq := srv_inputFmq s', outputFmq := srv_outputFmq s'\<rparr>, sv := s',
      sph := ph', ibuf := ib', obuf := ob', pk := k', lost := lost p + lost_now api (loaded p) (sph p) (obuf p)\<rparr>)"

section \<open>The invariant\<close>

text \<open>A block the service has taken and not yet written.\<close>

definition held :: "service_phase \<Rightarrow> bytes \<Rightarrow> bytes" where
  "held ph ob = (case ph of AtWrite t \<Rightarrow> ob | _ \<Rightarrow> [])"

text \<open>The service will look at its event before it looks at its input queue.\<close>

definition resting :: "service_phase \<Rightarrow> bool" where
  "resting ph = (case ph of AtCheck t \<Rightarrow> False | AtRead t \<Rightarrow> False | _ \<Rightarrow> True)"

fun phase_call :: "client_phase \<Rightarrow> client_call option" where
  "phase_call (CDone r um) = None"
| "phase_call (CWrite c) = Some c"
| "phase_call (CSignal c) = Some c"
| "phase_call (CWait c) = Some c"
| "phase_call (CRead c) = Some c"

definition signalling :: "client_phase \<Rightarrow> bool" where
  "signalling ph = (case ph of CSignal c \<Rightarrow> True | _ \<Rightarrow> False)"

definition call_ok :: "EffectConfig \<Rightarrow> nat \<Rightarrow> client_call \<Rightarrow> bool" where
  "call_ok conf n c \<longleftrightarrow> cc_frames c \<noteq> 0 \<and> cc_frames c = framesPerBuffer conf \<and> ranges_ok (cc_memory c) (cc_inp c) (cc_out c) n"

text \<open>What the client read, what is queued for it, what the service holds and what is queued for the service are
  together a subsequence of what was sent, all of it but \<open>l\<close> bytes.\<close>

definition conserved :: "bytes \<Rightarrow> bytes \<Rightarrow> bytes \<Rightarrow> bytes \<Rightarrow> nat \<Rightarrow> bytes \<Rightarrow> bool" where
  "conserved g ys h xs l s \<longleftrightarrow> subseq (g @ ys @ h @ xs) s \<and> length (g @ ys @ h @ xs) + l = length s"

lemma conserved_send:
  assumes "conserved g ys h xs l s" shows "conserved g ys h (xs @ z) l (s @ z)"
proof -
  have "subseq ((g @ ys @ h @ xs) @ z) (s @ z)"
    using assms by (intro list_emb_append_mono) (simp_all add: conserved_def)
  then show ?thesis using assms by (simp add: conserved_def)
qed

lemma conserved_take: "conserved g ys [] xs l s \<Longrightarrow> n \<le> length xs \<Longrightarrow> conserved g ys (take n xs) (drop n xs) l s"
  by (simp add: conserved_def)

lemma conserved_put:
  assumes "conserved g ys h xs l s" and "m \<le> length h"
  shows "conserved g (ys @ take m h) [] xs (l + (length h - m)) s"
proof -
  have "subseq (take m h) h" by (metis append_take_drop_id list_emb_prefix subseq_order.order_refl)
  then have "subseq (g @ ys @ take m h @ xs) (g @ ys @ h @ xs)"
    by (intro list_emb_append_mono) simp_all
  then have "subseq (g @ ys @ take m h @ xs) s" using assms(1) subseq_order.order_trans unfolding conserved_def by blast
  then show ?thesis using assms by (simp add: conserved_def)
qed

lemma conserved_get:
  assumes "conserved g ys h xs l s" shows "conserved (g @ take m ys) (drop m ys) h xs l s"
proof -
  have e: "(g @ take m ys) @ drop m ys @ h @ xs = g @ ys @ h @ xs" by (simp flip: append_assoc) simp
  show ?thesis using assms unfolding conserved_def e .
qed

definition wired :: "EffectConfig \<Rightarrow> nat \<Rightarrow> nat \<Rightarrow> nat \<Rightarrow> 'q pair \<Rightarrow> bool" where
  "wired conf fi fo n p \<longleftrightarrow> isStarted (cl p) \<and> eventFdIn (cl p) = int fi \<and> srv_eventFdIn (sv p) = int fi \<and>
     eventFdOut (cl p) = int fo \<and> srv_eventFdOut (sv p) = int fo \<and> config (cl p) = conf \<and> srv_config (sv p) = conf \<and>
     unat (buffer_size conf) = n \<and> length (ibuf p) = n \<and> length (obuf p) = n \<and>
     pred_option (call_ok conf n) (phase_call (cph p))"

text \<open>\<open>xs\<close> is queued for the service, \<open>lim\<close> the capacity of that queue, \<open>e\<close> the counter of the service's event. When
  the service sleeps and nothing will wake it, there is room for a block.\<close>

definition roomy :: "nat \<Rightarrow> nat \<Rightarrow> bytes \<Rightarrow> u64 \<Rightarrow> client_phase \<Rightarrow> service_phase \<Rightarrow> bool" where
  "roomy n lim xs e cp sp \<longleftrightarrow> 2 * n \<le> lim \<and> ((\<exists>t. sp = AtRead t) \<longrightarrow> n \<le> length xs) \<and>
     (resting sp \<and> \<not> signalling cp \<and> e = 0 \<longrightarrow> length xs + n \<le> lim)"

definition pair_ok ::
  "('q \<Rightarrow> bool) \<Rightarrow> ('q \<Rightarrow> bytes) \<Rightarrow> ('q \<Rightarrow> nat) \<Rightarrow> EffectConfig \<Rightarrow> nat \<Rightarrow> nat \<Rightarrow> nat \<Rightarrow> 'q pair \<Rightarrow> bool" where
  "pair_ok good contents limit conf fi fo n p \<longleftrightarrow> wired conf fi fo n p \<and>
     (\<exists>a b e c. inputFmq (cl p) = Some a \<and> good a \<and> outputFmq (cl p) = Some b \<and> good b \<and>
        events fi fo e c (pk p) \<and> roomy n (limit a) (contents a) e (cph p) (sph p) \<and>
        conserved (got p) (contents b) (held (sph p) (obuf p)) (contents a) (lost p) (sent p))"

lemma pair_okI:
  assumes "wired conf fi fo n p" and "inputFmq (cl p) = Some a" and "good a" and "outputFmq (cl p) = Some b" and "good b"
    and "events fi fo e c (pk p)" and "roomy n (limit a) (contents a) e (cph p) (sph p)"
    and "conserved (got p) (contents b) (held (sph p) (obuf p)) (contents a) (lost p) (sent p)"
  shows "pair_ok good contents limit conf fi fo n p"
  using assms unfolding pair_ok_def by blast

lemma pair_okE:
  assumes "pair_ok good contents limit conf fi fo n p"
  obtains a b e c where "wired conf fi fo n p" and "inputFmq (cl p) = Some a" and "good a"
    and "outputFmq (cl p) = Some b" and "good b" and "events fi fo e c (pk p)"
    and "roomy n (limit a) (contents a) e (cph p) (sph p)"
    and "conserved (got p) (contents b) (held (sph p) (obuf p)) (contents a) (lost p) (sent p)"
  using assms unfolding pair_ok_def by blast

abbreviation client_next :: "'q fmq_api \<Rightarrow> 'q pair \<Rightarrow> 'q EffectSession \<Rightarrow> client_phase \<Rightarrow> kernel \<Rightarrow> 'q pair" where
  "client_next api p s' ph' k' \<equiv> p\<lparr>cl := s', cph := ph', pk := k', sent := sent p @ sent_now api (cl p) (cph p),
      got := got p @ got_now api (cl p) (cph p)\<rparr>"

abbreviation service_next ::
  "'q fmq_api \<Rightarrow> 'q pair \<Rightarrow> 'q ServerSession \<Rightarrow> service_phase \<Rightarrow> bytes \<Rightarrow> bytes \<Rightarrow> kernel \<Rightarrow> 'q pair" where
  "service_next api p s' ph' ib' ob' k' \<equiv> p\<lparr>cl := (cl p)\<lparr>inputFmq := srv_inputFmq s', outputFmq := srv_outputFmq s'\<rparr>, sv := s',
      sph := ph', ibuf := ib', obuf := ob', pk := k', lost := lost p + lost_now api (loaded p) (sph p) (obuf p)\<rparr>"

context fmq_backend
begin

lemma client_write_ok:
  assumes p: "pair_ok inv contents limit conf fi fo n p" and c: "cph p = CWrite c"
  shows "\<exists>s' ph' k'. client_turn api now (cl p) (cph p) (pk p) = Some (s', ph', k') \<and>
    pair_ok inv contents limit conf fi fo n (client_next api p s' ph' k')"
proof -
  from p obtain a b e w where W: "wired conf fi fo n p" and Q: "inputFmq (cl p) = Some a" "inv a" "outputFmq (cl p) = Some b" "inv b"
    and E: "events fi fo e w (pk p)" and R: "roomy n (limit a) (contents a) e (cph p) (sph p)"
    and S: "conserved (got p) (contents b) (held (sph p) (obuf p)) (contents a) (lost p) (sent p)"
    by (rule pair_okE)
  have fr: "cc_frames c = framesPerBuffer conf" and um: "ranges_ok (cc_memory c) (cc_inp c) (cc_out c) n"
    using W by (auto simp: wired_def c call_ok_def)
  let ?total = "ucast (cc_frames c * calculate_bytes_per_frame (config (cl p))) :: u64" and ?src = "drop (cc_inp c) (cc_memory c)"
  have bytes: "unat (cc_frames c * calculate_bytes_per_frame (config (cl p))) = n" using W by (simp add: wired_def fr buffer_size_def)
  then have total: "unat ?total = n" by simp
  have src: "unat ?total \<le> length ?src" unfolding total using um by (auto simp: ranges_ok_def)
  obtain m a1 where w: "api_write api (Some a) (Some ?src) ?total = Some (m, Some a1)" "inv a1" "limit a1 = limit a"
      "contents a1 = contents a @ take (unat m) ?src" "length (contents a) + unat ?total \<le> limit a \<Longrightarrow> m = ?total" "m \<le> ?total"
    using api_write_SomeE [OF Q(2) src] by metis
  have now: "sent_now api (cl p) (cph p) = take (unat m) ?src" "got_now api (cl p) (cph p) = []"
    using w(1) by (simp_all add: sent_now_def got_now_def c Q(1))
  note S' = conserved_send [OF S, of "take (unat m) ?src", folded w(4) now(1)]
  have full: "m = ?total" if "resting (sph p)" "e = 0"
    using w(5) R that unfolding total by (simp add: roomy_def c signalling_def)
  have R': "roomy n (limit a1) (contents a1) e ph' (sph p)" if "signalling ph' \<or> m \<noteq> ?total" for ph'
    using R full that by (auto simp: roomy_def w(3,4))
  show ?thesis
  proof (cases "m < ?total")
    case True
    let ?s' = "(cl p)\<lparr>inputFmq := Some a1, stats := stats_xrun (stats (cl p))\<rparr>"
    let ?ph = "CDone EFFECT_ERROR_TIMEOUT (blit (cc_memory c) (cc_out c) (take n (drop (cc_inp c) (cc_memory c))))"
    have t: "client_turn api now (cl p) (cph p) (pk p) = Some (?s', ?ph, pk p)"
      using w(1) True memcpy_within_ok [OF um] bytes by (simp add: client_turn_def c Q(1))
    have R1: "roomy n (limit a1) (contents a1) e ?ph (sph p)" using R' [of ?ph] True by blast
    have "pair_ok inv contents limit conf fi fo n (client_next api p ?s' ?ph (pk p))"
      by (rule pair_okI [where a = a1 and b = b and e = e and c = w])
        (use W Q(3,4) E w(2) R1 S' now(2) in \<open>simp_all add: wired_def\<close>)
    then show ?thesis using t by blast
  next
    case False
    let ?s' = "(cl p)\<lparr>inputFmq := Some a1\<rparr>"
    have t: "client_turn api now (cl p) (cph p) (pk p) = Some (?s', CSignal c, pk p)"
      using w(1) False by (simp add: client_turn_def c Q(1))
    have "pair_ok inv contents limit conf fi fo n (client_next api p ?s' (CSignal c) (pk p))"
      by (rule pair_okI [where a = a1 and b = b and e = e and c = w])
        (use W Q(3,4) E w(2) R' [of "CSignal c"] S' now(2) in \<open>simp_all add: wired_def c signalling_def\<close>)
    then show ?thesis using t by blast
  qed
qed

lemma client_signal_ok:
  assumes p: "pair_ok inv contents limit conf fi fo n p" and c: "cph p = CSignal c"
  shows "\<exists>s' ph' k'. client_turn api now (cl p) (cph p) (pk p) = Some (s', ph', k') \<and>
    pair_ok inv contents limit conf fi fo n (client_next api p s' ph' k')"
proof -
  from p obtain a b e w where W: "wired conf fi fo n p" and Q: "inputFmq (cl p) = Some a" "inv a" "outputFmq (cl p) = Some b" "inv b"
    and E: "events fi fo e w (pk p)" and R: "roomy n (limit a) (contents a) e (cph p) (sph p)"
    and S: "conserved (got p) (contents b) (held (sph p) (obuf p)) (contents a) (lost p) (sent p)"
    by (rule pair_okE)
  have fi: "eventFdIn (cl p) = int fi" using W by (simp add: wired_def)
  obtain r k' e' where g: "effect_eventfd_signal (eventFdIn (cl p)) (pk p) = (r, k')" "events fi fo e' w k'" "e' \<noteq> 0"
    using events_signal [OF E] fi by metis
  have now: "sent_now api (cl p) (cph p) = []" "got_now api (cl p) (cph p) = []" by (simp_all add: sent_now_def got_now_def c)
  have "client_turn api now (cl p) (cph p) (pk p) = Some (cl p, CWait c, k')" using g(1) by (simp add: client_turn_def c)
  moreover have "roomy n (limit a) (contents a) e' (CWait c) (sph p)" using R g(3) by (simp add: roomy_def)
  then have "pair_ok inv contents limit conf fi fo n (client_next api p (cl p) (CWait c) k')"
    by (intro pair_okI [where a = a and b = b and e = e' and c = w])
      (use W Q g(2) S now in \<open>simp_all add: wired_def c\<close>)
  ultimately show ?thesis by blast
qed

lemma client_wait_ok:
  assumes p: "pair_ok inv contents limit conf fi fo n p" and c: "cph p = CWait c"
  shows "\<exists>s' ph' k'. client_turn api now (cl p) (cph p) (pk p) = Some (s', ph', k') \<and>
    pair_ok inv contents limit conf fi fo n (client_next api p s' ph' k')"
proof -
  from p obtain a b e w where W: "wired conf fi fo n p" and Q: "inputFmq (cl p) = Some a" "inv a" "outputFmq (cl p) = Some b" "inv b"
    and E: "events fi fo e w (pk p)" and R: "roomy n (limit a) (contents a) e (cph p) (sph p)"
    and S: "conserved (got p) (contents b) (held (sph p) (obuf p)) (contents a) (lost p) (sent p)"
    by (rule pair_okE)
  have fo: "eventFdOut (cl p) = int fo" and um: "ranges_ok (cc_memory c) (cc_inp c) (cc_out c) n"
    and fr: "cc_frames c = framesPerBuffer conf"
    using W by (auto simp: wired_def c call_ok_def)
  have bytes: "unat (cc_frames c * calculate_bytes_per_frame (config (cl p))) = n" using W by (simp add: wired_def fr buffer_size_def)
  have now: "sent_now api (cl p) (cph p) = []" "got_now api (cl p) (cph p) = []" by (simp_all add: sent_now_def got_now_def c)
  have R': "roomy n (limit a) (contents a) e ph (sph p)" for ph using R by (simp add: roomy_def c signalling_def)
  note wait = events_wait [OF E [unfolded events_swap [of fi]], of TIMEOUT_MS, folded fo]
  show ?thesis
  proof (cases "w = 0")
    case True
    let ?s' = "(cl p)\<lparr>stats := stats_timeout (stats (cl p))\<rparr>"
    let ?ph = "CDone EFFECT_ERROR_TIMEOUT (blit (cc_memory c) (cc_out c) (take n (drop (cc_inp c) (cc_memory c))))"
    have "client_turn api now (cl p) (cph p) (pk p) = Some (?s', ?ph, pk p)"
      using wait(1) [OF True] memcpy_within_ok [OF um] bytes by (simp add: client_turn_def c)
    moreover have "pair_ok inv contents limit conf fi fo n (client_next api p ?s' ?ph (pk p))"
      by (rule pair_okI [where a = a and b = b and e = e and c = w])
        (use W Q E R' [of ?ph] S now in \<open>simp_all add: wired_def\<close>)
    ultimately show ?thesis by blast
  next
    case False
    then obtain k' where k': "effect_eventfd_wait (eventFdOut (cl p)) TIMEOUT_MS (pk p) = (0, k')" "events fi fo e 0 k'"
      using wait(2) events_swap by blast
    have "client_turn api now (cl p) (cph p) (pk p) = Some (cl p, CRead c, k')" using k'(1) by (simp add: client_turn_def c)
    moreover have "pair_ok inv contents limit conf fi fo n (client_next api p (cl p) (CRead c) k')"
      by (rule pair_okI [where a = a and b = b and e = e and c = 0])
        (use W Q k'(2) R' [of "CRead c"] S now in \<open>simp_all add: wired_def c\<close>)
    ultimately show ?thesis by blast
  qed
qed

lemma client_read_ok:
  assumes p: "pair_ok inv contents limit conf fi fo n p" and c: "cph p = CRead c"
  shows "\<exists>s' ph' k'. client_turn api now (cl p) (cph p) (pk p) = Some (s', ph', k') \<and>
    pair_ok inv contents limit conf fi fo n (client_next api p s' ph' k')"
proof -
  from p obtain a b e w where W: "wired conf fi fo n p" and Q: "inputFmq (cl p) = Some a" "inv a" "outputFmq (cl p) = Some b" "inv b"
    and E: "events fi fo e w (pk p)" and R: "roomy n (limit a) (contents a) e (cph p) (sph p)"
    and S: "conserved (got p) (contents b) (held (sph p) (obuf p)) (contents a) (lost p) (sent p)"
    by (rule pair_okE)
  have um: "ranges_ok (cc_memory c) (cc_inp c) (cc_out c) n" and fr: "cc_frames c = framesPerBuffer conf"
    using W by (auto simp: wired_def c call_ok_def)
  let ?total = "ucast (cc_frames c * calculate_bytes_per_frame (config (cl p))) :: u64" and ?dst = "drop (cc_out c) (cc_memory c)"
  have bytes: "unat (cc_frames c * calculate_bytes_per_frame (config (cl p))) = n" using W by (simp add: wired_def fr buffer_size_def)
  then have total: "unat ?total = n" by simp
  have dst: "unat ?total \<le> length ?dst" unfolding total using um by (auto simp: ranges_ok_def)
  obtain m b1 where r: "api_read api (Some b) (Some ?dst) ?total = Some (m, Some (blit ?dst 0 (take (unat m) (contents b))), Some b1)"
      "inv b1" "m \<le> ?total" "unat m \<le> length (contents b)" "contents b1 = drop (unat m) (contents b)"
    using api_read_SomeE [OF Q(4) dst] by metis
  have mn: "unat m \<le> n" using r(3) total by (simp add: word_le_nat_alt)
  have now: "sent_now api (cl p) (cph p) = []" "got_now api (cl p) (cph p) = take (unat m) (contents b)"
    using r(1,4) by (simp_all add: sent_now_def got_now_def c Q(3) blit_0)
  note S' = conserved_get [OF S, of "unat m", folded r(5) now(2)]
  have R': "roomy n (limit a) (contents a) e ph (sph p)" for ph using R by (simp add: roomy_def c signalling_def)
  let ?um = "blit (cc_memory c) (cc_out c) (take (unat m) (contents b))"
  have um1: "take (cc_out c) (cc_memory c) @ blit ?dst 0 (take (unat m) (contents b)) = ?um"
    using um by (simp add: blit_drop ranges_ok_def)
  have rg: "ranges_ok ?um (cc_inp c) (cc_out c) n" using um mn r(4) by (simp add: ranges_ok_def)
  obtain s' ph' where t: "client_turn api now (cl p) (cph p) (pk p) = Some (s', ph', pk p)" "phase_call ph' = None"
      "inputFmq s' = Some a" "outputFmq s' = Some b1" "eventFdIn s' = eventFdIn (cl p)" "eventFdOut s' = eventFdOut (cl p)"
      "config s' = config (cl p)" "isStarted s' = isStarted (cl p)"
    using that r(1) memcpy_within_ok [OF rg] bytes um1 Q(1,3)
    by (cases "m < ?total") (auto simp: client_turn_def c Let_def)
  have "pair_ok inv contents limit conf fi fo n (client_next api p s' ph' (pk p))"
    by (rule pair_okI [where a = a and b = b1 and e = e and c = w])
      (use W Q E R' [of ph'] r(2) S' now t in \<open>simp_all add: wired_def\<close>)
  then show ?thesis using t(1) by blast
qed

lemma service_wait_ok:
  assumes p: "pair_ok inv contents limit conf fi fo n p" and t: "sph p = AtWait"
  shows "\<exists>s' ph' ib' ob' k'. service_turn api now (loaded p) (sph p) (ibuf p) (obuf p) (pk p) = Some (s', ph', ib', ob', k') \<and>
    pair_ok inv contents limit conf fi fo n (service_next api p s' ph' ib' ob' k')"
proof -
  from p obtain a b e w where W: "wired conf fi fo n p" and Q: "inputFmq (cl p) = Some a" "inv a" "outputFmq (cl p) = Some b" "inv b"
    and E: "events fi fo e w (pk p)" and R: "roomy n (limit a) (contents a) e (cph p) (sph p)"
    and S: "conserved (got p) (contents b) (held (sph p) (obuf p)) (contents a) (lost p) (sent p)"
    by (rule pair_okE)
  have L: "srv_inputFmq (loaded p) = Some a" "srv_outputFmq (loaded p) = Some b" "srv_config (loaded p) = conf"
      "srv_eventFdIn (loaded p) = int fi" "srv_eventFdOut (loaded p) = int fo"
    using Q W by (simp_all add: loaded_def wired_def)
  have now: "lost_now api (loaded p) (sph p) (obuf p) = 0" by (simp add: lost_now_def t)
  obtain r k' e' where w: "effect_eventfd_wait (srv_eventFdIn (loaded p)) 100 (pk p) = (r, k')" "events fi fo e' w k'"
    "r < 0 \<longrightarrow> e' = e"
    using events_wait [OF E, of 100] E L(4) by (cases "e = 0") fastforce+
  let ?ph = "if r < 0 then AtWait else AtCheck now"
  have "service_turn api now (loaded p) (sph p) (ibuf p) (obuf p) (pk p) = Some (loaded p, ?ph, ibuf p, obuf p, k')"
    using w(1) by (simp add: service_turn_def t)
  moreover have "roomy n (limit a) (contents a) e' (cph p) ?ph"
    using R w(3) by (simp add: roomy_def t resting_def)
  then have "pair_ok inv contents limit conf fi fo n (service_next api p (loaded p) ?ph (ibuf p) (obuf p) k')"
    by (intro pair_okI [where a = a and b = b and e = e' and c = w])
      (use W Q L w(2) S now t in \<open>simp_all add: wired_def held_def\<close>)
  ultimately show ?thesis by blast
qed

lemma service_check_ok:
  assumes p: "pair_ok inv contents limit conf fi fo n p" and t: "sph p = AtCheck t0"
  shows "\<exists>s' ph' ib' ob' k'. service_turn api now (loaded p) (sph p) (ibuf p) (obuf p) (pk p) = Some (s', ph', ib', ob', k') \<and>
    pair_ok inv contents limit conf fi fo n (service_next api p s' ph' ib' ob' k')"
proof -
  from p obtain a b e w where W: "wired conf fi fo n p" and Q: "inputFmq (cl p) = Some a" "inv a" "outputFmq (cl p) = Some b" "inv b"
    and E: "events fi fo e w (pk p)" and R: "roomy n (limit a) (contents a) e (cph p) (sph p)"
    and S: "conserved (got p) (contents b) (held (sph p) (obuf p)) (contents a) (lost p) (sent p)"
    by (rule pair_okE)
  have L: "srv_inputFmq (loaded p) = Some a" "srv_outputFmq (loaded p) = Some b" "srv_config (loaded p) = conf"
      "srv_eventFdIn (loaded p) = int fi" "srv_eventFdOut (loaded p) = int fo"
    using Q W by (simp_all add: loaded_def wired_def)
  have now: "lost_now api (loaded p) (sph p) (obuf p) = 0" by (simp add: lost_now_def t)
  have "unat (api_available_to_read api (Some a)) = length (contents a)" by (rule readable [OF Q(2)])
  moreover have n: "unat (buffer_size conf) = n" using W by (simp add: wired_def)
  ultimately have avail: "api_available_to_read api (Some a) < ucast (buffer_size conf) \<longleftrightarrow> length (contents a) < n"
    by (simp add: word_less_nat_alt)
  let ?ph = "if length (contents a) < n then AtWait else AtRead t0"
  have "service_turn api now (loaded p) (sph p) (ibuf p) (obuf p) (pk p) = Some (loaded p, ?ph, ibuf p, obuf p, pk p)"
    using avail L by (simp add: service_turn_def t)
  moreover have "roomy n (limit a) (contents a) e (cph p) ?ph" using R by (auto simp: roomy_def resting_def)
  then have "pair_ok inv contents limit conf fi fo n (service_next api p (loaded p) ?ph (ibuf p) (obuf p) (pk p))"
    by (intro pair_okI [where a = a and b = b and e = e and c = w])
      (use W Q L E S now t in \<open>simp_all add: wired_def held_def\<close>)
  ultimately show ?thesis by blast
qed

lemma service_read_ok:
  assumes p: "pair_ok inv contents limit conf fi fo n p" and t: "sph p = AtRead t0"
  shows "\<exists>s' ph' ib' ob' k'. service_turn api now (loaded p) (sph p) (ibuf p) (obuf p) (pk p) = Some (s', ph', ib', ob', k') \<and>
    pair_ok inv contents limit conf fi fo n (service_next api p s' ph' ib' ob' k')"
proof -
  from p obtain a b e w where W: "wired conf fi fo n p" and Q: "inputFmq (cl p) = Some a" "inv a" "outputFmq (cl p) = Some b" "inv b"
    and E: "events fi fo e w (pk p)" and R: "roomy n (limit a) (contents a) e (cph p) (sph p)"
    and S: "conserved (got p) (contents b) (held (sph p) (obuf p)) (contents a) (lost p) (sent p)"
    by (rule pair_okE)
  have L: "srv_inputFmq (loaded p) = Some a" "srv_outputFmq (loaded p) = Some b" "srv_config (loaded p) = conf"
      "srv_eventFdIn (loaded p) = int fi" "srv_eventFdOut (loaded p) = int fo"
    using Q W by (simp_all add: loaded_def wired_def)
  have now: "lost_now api (loaded p) (sph p) (obuf p) = 0" by (simp add: lost_now_def t)
  let ?sz = "ucast (buffer_size conf) :: u64" and ?x = "take n (contents a)"
  have sz: "unat ?sz = n" and buf: "length (ibuf p) = n" "length (obuf p) = n" using W by (simp_all add: wired_def)
  have ready: "n \<le> length (contents a)" using R by (simp add: roomy_def t)
  have dst: "unat ?sz \<le> length (ibuf p)" unfolding sz buf ..
  obtain g a' where r: "api_read api (Some a) (Some (ibuf p)) ?sz =
      Some (g, Some (blit (ibuf p) 0 (take (unat g) (contents a))), Some a')" "inv a'" "limit a' = limit a"
      "contents a' = drop (unat g) (contents a)" "unat ?sz \<le> length (contents a) \<Longrightarrow> g = ?sz"
    using api_read_SomeE [OF Q(2) dst] by metis
  have g: "g = ?sz" by (rule r(5)) (simp only: sz ready)
  have a': "contents a' = drop n (contents a)" using r(4) unfolding g sz .
  have x: "blit (ibuf p) 0 (take (unat g) (contents a)) = ?x" "length ?x = n"
    unfolding g sz using ready buf by (simp_all add: blit_0)
  have same: "framesPerBuffer conf * calculate_bytes_per_frame conf = buffer_size conf" by (simp add: buffer_size_def)
  have proc: "mock_process_audio (libContext (loaded p)) ?x (obuf p) (framesPerBuffer conf) (calculate_bytes_per_frame conf) = Some ?x"
    unfolding mock_process_audio_def same using sz buf x(2) by (simp add: mem_simps blit_0)
  have "service_turn api now (loaded p) (sph p) (ibuf p) (obuf p) (pk p) =
      Some ((loaded p)\<lparr>srv_inputFmq := Some a'\<rparr>, AtWrite t0, ?x, ?x, pk p)"
    using r(1) x(1) g proc L by (simp add: service_turn_def t Let_def)
  moreover have "roomy n (limit a') (contents a') e (cph p) (AtWrite t0)"
    using R r(3) ready contents_bound [OF Q(2)] by (simp add: roomy_def a')
  then have "pair_ok inv contents limit conf fi fo n (service_next api p ((loaded p)\<lparr>srv_inputFmq := Some a'\<rparr>) (AtWrite t0) ?x ?x (pk p))"
    using conserved_take [of "got p" "contents b" "contents a" "lost p" "sent p" n] S ready
    by (intro pair_okI [where a = a' and b = b and e = e and c = w])
      (use W Q L E r(2) x(2) now t a' in \<open>simp_all add: wired_def held_def\<close>)
  ultimately show ?thesis by blast
qed

lemma service_write_ok:
  assumes p: "pair_ok inv contents limit conf fi fo n p" and t: "sph p = AtWrite t0"
  shows "\<exists>s' ph' ib' ob' k'. service_turn api now (loaded p) (sph p) (ibuf p) (obuf p) (pk p) = Some (s', ph', ib', ob', k') \<and>
    pair_ok inv contents limit conf fi fo n (service_next api p s' ph' ib' ob' k')"
proof -
  from p obtain a b e w where W: "wired conf fi fo n p" and Q: "inputFmq (cl p) = Some a" "inv a" "outputFmq (cl p) = Some b" "inv b"
    and E: "events fi fo e w (pk p)" and R: "roomy n (limit a) (contents a) e (cph p) (sph p)"
    and S: "conserved (got p) (contents b) (held (sph p) (obuf p)) (contents a) (lost p) (sent p)"
    by (rule pair_okE)
  have L: "srv_inputFmq (loaded p) = Some a" "srv_outputFmq (loaded p) = Some b" "srv_config (loaded p) = conf"
      "srv_eventFdIn (loaded p) = int fi" "srv_eventFdOut (loaded p) = int fo"
    using Q W by (simp_all add: loaded_def wired_def)
  let ?sz = "ucast (buffer_size conf) :: u64"
  have sz: "unat ?sz = n" and buf: "length (obuf p) = n" using W by (simp_all add: wired_def)
  have src: "unat ?sz \<le> length (obuf p)" unfolding sz buf ..
  obtain m b' where wr: "api_write api (Some b) (Some (obuf p)) ?sz = Some (m, Some b')" "inv b'"
      "m \<le> ?sz" "contents b' = contents b @ take (unat m) (obuf p)"
    using api_write_SomeE [OF Q(4) src] by metis
  have mn: "unat m \<le> n" using wr(3) sz by (simp add: word_le_nat_alt)
  have now: "lost_now api (loaded p) (sph p) (obuf p) = n - unat m"
    using wr(1) L sz by (simp add: lost_now_def t)
  have S': "conserved (got p) (contents b') [] (contents a) (lost p + (n - unat m)) (sent p)"
    using conserved_put [OF S, of "unat m"] mn buf wr(4) by (simp add: held_def t)
  obtain s' ph' where st: "service_turn api now (loaded p) (sph p) (ibuf p) (obuf p) (pk p) = Some (s', ph', ibuf p, obuf p, pk p)"
      "ph' = AtWait \<or> ph' = AtSignal t0" "srv_inputFmq s' = Some a" "srv_outputFmq s' = Some b'"
      "srv_eventFdIn s' = int fi" "srv_eventFdOut s' = int fo" "srv_config s' = conf"
    using that wr(1) L by (cases "m < ?sz") (auto simp: service_turn_def t)
  have "roomy n (limit a) (contents a) e (cph p) ph'" using R st(2) by (auto simp: roomy_def t resting_def)
  then have "pair_ok inv contents limit conf fi fo n (service_next api p s' ph' (ibuf p) (obuf p) (pk p))"
    by (intro pair_okI [where a = a and b = b' and e = e and c = w])
      (use W Q E wr(2) S' now st in \<open>auto simp: wired_def held_def\<close>)
  then show ?thesis using st(1) by blast
qed

lemma service_signal_ok:
  assumes p: "pair_ok inv contents limit conf fi fo n p" and t: "sph p = AtSignal t0"
  shows "\<exists>s' ph' ib' ob' k'. service_turn api now (loaded p) (sph p) (ibuf p) (obuf p) (pk p) = Some (s', ph', ib', ob', k') \<and>
    pair_ok inv contents limit conf fi fo n (service_next api p s' ph' ib' ob' k')"
proof -
  from p obtain a b e w where W: "wired conf fi fo n p" and Q: "inputFmq (cl p) = Some a" "inv a" "outputFmq (cl p) = Some b" "inv b"
    and E: "events fi fo e w (pk p)" and R: "roomy n (limit a) (contents a) e (cph p) (sph p)"
    and S: "conserved (got p) (contents b) (held (sph p) (obuf p)) (contents a) (lost p) (sent p)"
    by (rule pair_okE)
  have L: "srv_inputFmq (loaded p) = Some a" "srv_outputFmq (loaded p) = Some b" "srv_config (loaded p) = conf"
      "srv_eventFdIn (loaded p) = int fi" "srv_eventFdOut (loaded p) = int fo"
    using Q W by (simp_all add: loaded_def wired_def)
  have now: "lost_now api (loaded p) (sph p) (obuf p) = 0" by (simp add: lost_now_def t)
  obtain r k' w' where g: "effect_eventfd_signal (srv_eventFdOut (loaded p)) (pk p) = (r, k')" "events fi fo e w' k'"
    using E L(5) unfolding events_swap [of fi] by (metis events_signal)
  obtain s' where st: "service_turn api now (loaded p) (sph p) (ibuf p) (obuf p) (pk p) = Some (s', AtWait, ibuf p, obuf p, k')"
      "srv_inputFmq s' = Some a" "srv_outputFmq s' = Some b"
      "srv_eventFdIn s' = int fi" "srv_eventFdOut s' = int fo" "srv_config s' = conf"
    using that g(1) L by (auto simp: service_turn_def t)
  have "roomy n (limit a) (contents a) e (cph p) AtWait" using R by (auto simp: roomy_def t resting_def)
  then have "pair_ok inv contents limit conf fi fo n (service_next api p s' AtWait (ibuf p) (obuf p) k')"
    by (intro pair_okI [where a = a and b = b and e = e and c = w'])
      (use W Q g(2) S now st t in \<open>auto simp: wired_def held_def\<close>)
  then show ?thesis using st(1) by blast
qed

text \<open>A write while the service sleeps and its event is clear.\<close>

lemma client_write_fits:
  assumes p: "pair_ok inv contents limit conf fi fo n p" and c: "cph p = CWrite c"
    and asleep: "resting (sph p)" "fds (pk p) fi = Some (EventFd 0)"
  shows "\<exists>s'. client_turn api now (cl p) (cph p) (pk p) = Some (s', CSignal c, pk p) \<and>
    eventFdIn s' = int fi \<and> (\<exists>w. events fi fo 0 w (pk p))"
proof -
  from p obtain a b e w where W: "wired conf fi fo n p" and Q: "inputFmq (cl p) = Some a" "inv a" "outputFmq (cl p) = Some b" "inv b"
    and E: "events fi fo e w (pk p)" and R: "roomy n (limit a) (contents a) e (cph p) (sph p)"
    by (rule pair_okE)
  have e: "e = 0" using E asleep(2) by (simp add: events_def)
  have fr: "cc_frames c = framesPerBuffer conf" and um: "ranges_ok (cc_memory c) (cc_inp c) (cc_out c) n"
    using W by (auto simp: wired_def c call_ok_def)
  have n: "n = unat (cc_frames c * calculate_bytes_per_frame (config (cl p)))" using W by (simp add: wired_def fr buffer_size_def)
  have room: "length (contents a) + n \<le> limit a" using R asleep(1) by (simp add: roomy_def c signalling_def e)
  let ?total = "ucast (cc_frames c * calculate_bytes_per_frame (config (cl p))) :: u64" and ?src = "drop (cc_inp c) (cc_memory c)"
  have total: "unat ?total = n" by (simp add: n)
  have src: "unat ?total \<le> length ?src" unfolding total using um by (auto simp: ranges_ok_def)
  obtain m a1 where w: "api_write api (Some a) (Some ?src) ?total = Some (m, Some a1)"
      "length (contents a) + unat ?total \<le> limit a \<Longrightarrow> m = ?total"
    using api_write_SomeE [OF Q(2) src] by metis
  have "m = ?total" by (rule w(2)) (use room in \<open>simp only: total\<close>)
  then have "client_turn api now (cl p) (cph p) (pk p) = Some ((cl p)\<lparr>inputFmq := Some a1\<rparr>, CSignal c, pk p)"
    using w(1) by (simp add: client_turn_def c Q(1))
  then show ?thesis using E W by (auto simp: e wired_def)
qed

text \<open>Every step of either thread is defined and keeps the invariant.\<close>

lemma client_turn_ok:
  assumes "pair_ok inv contents limit conf fi fo n p"
  shows "\<exists>s' ph' k'. client_turn api now (cl p) (cph p) (pk p) = Some (s', ph', k') \<and>
    pair_ok inv contents limit conf fi fo n (client_next api p s' ph' k')"
proof (cases "cph p")
  case (CDone r um)
  have "client_next api p (cl p) (cph p) (pk p) = p" by (simp add: sent_now_def got_now_def CDone)
  then show ?thesis using assms by (simp add: client_turn_def CDone)
qed (rule client_write_ok [OF assms] client_signal_ok [OF assms] client_wait_ok [OF assms] client_read_ok [OF assms]; assumption)+

lemma service_turn_ok:
  assumes "pair_ok inv contents limit conf fi fo n p"
  shows "\<exists>s' ph' ib' ob' k'. service_turn api now (loaded p) (sph p) (ibuf p) (obuf p) (pk p) = Some (s', ph', ib', ob', k') \<and>
    pair_ok inv contents limit conf fi fo n (service_next api p s' ph' ib' ob' k')"
  by (cases "sph p")
    (rule service_wait_ok [OF assms] service_check_ok [OF assms] service_read_ok [OF assms] service_write_ok [OF assms]
      service_signal_ok [OF assms]; assumption)+

lemma pair_step_ok:
  assumes "pair_step api (call_ok conf n) p p'" and "pair_ok inv contents limit conf fi fo n p"
  shows "pair_ok inv contents limit conf fi fo n p'"
  using assms(1)
proof cases
  case (call r um c)
  then show ?thesis using assms(2)
    by (auto simp: pair_ok_def wired_def roomy_def signalling_def)
next
  case (client now s' ph' k')
  then show ?thesis using client_turn_ok [OF assms(2), of now] by auto
next
  case (service now s' ph' ib' ob' k')
  then show ?thesis using service_turn_ok [OF assms(2), of now] by auto
qed

lemma pair_steps_ok:
  "(pair_step api (call_ok conf n))\<^sup>*\<^sup>* p p' \<Longrightarrow> pair_ok inv contents limit conf fi fo n p \<Longrightarrow>
    pair_ok inv contents limit conf fi fo n p'"
  by (induction rule: rtranclp_induct) (blast intro: pair_step_ok)+

end

section \<open>An interleaved call is a call with some peer\<close>

text \<open>\<open>s'\<close> is \<open>s\<close> after others have used the queues; a peer that leaves the queues and the kernel so.\<close>

definition carries :: "'q EffectSession \<Rightarrow> 'q EffectSession \<Rightarrow> bool" where
  "carries s s' \<longleftrightarrow> inputFmq s \<noteq> None \<and> outputFmq s \<noteq> None \<and> inputFmq s' \<noteq> None \<and> outputFmq s' \<noteq> None \<and>
     s\<lparr>inputFmq := inputFmq s', outputFmq := outputFmq s'\<rparr> = s'"

definition leaving :: "'q EffectSession \<Rightarrow> kernel \<Rightarrow> 'q \<times> 'q \<times> kernel \<Rightarrow> 'q \<times> 'q \<times> kernel" where
  "leaving s k abk = (the (inputFmq s), the (outputFmq s), k)"

lemma carries_trans: "carries s t \<Longrightarrow> carries t u \<Longrightarrow> carries s u"
  by (cases s; cases t; cases u) (auto simp: carries_def)

lemma carries_run: "carries s s' \<Longrightarrow> env i = leaving s' k' \<Longrightarrow> run_peer env i (s, k) = (s', k')"
  by (auto simp: carries_def run_peer_def leaving_def)

lemma client_turn_now: "(\<forall>c. ph \<noteq> CRead c) \<Longrightarrow> client_turn api t s ph k = client_turn api t' s ph k"
  by (cases ph) (simp_all add: client_turn_def)

text \<open>How far the call of \<open>p\<close> has come since some state \<open>q\<close> in which it began.\<close>

definition began :: "'q fmq_api \<Rightarrow> 'q pair \<Rightarrow> client_call \<Rightarrow> 'q EffectSession \<Rightarrow> bool" where
  "began api q c s1 \<longleftrightarrow> cph q = CWrite c \<and> (\<exists>t. client_turn api t (cl q) (CWrite c) (pk q) = Some (s1, CSignal c, pk q))"

definition signalled :: "'q fmq_api \<Rightarrow> client_call \<Rightarrow> 'q EffectSession \<Rightarrow> 'q EffectSession \<Rightarrow> bool" where
  "signalled api c s1 s2 \<longleftrightarrow> carries s1 s2 \<and> (\<exists>t k k'. client_turn api t s2 (CSignal c) k = Some (s2, CWait c, k'))"

definition waited :: "'q fmq_api \<Rightarrow> client_call \<Rightarrow> 'q EffectSession \<Rightarrow> 'q EffectSession \<Rightarrow> bool" where
  "waited api c s2 s3 \<longleftrightarrow> carries s2 s3 \<and> (\<exists>t k k'. client_turn api t s3 (CWait c) k = Some (s3, CRead c, k'))"

definition call_so_far :: "'q fmq_api \<Rightarrow> (client_call \<Rightarrow> bool) \<Rightarrow> 'q pair \<Rightarrow> 'q pair \<Rightarrow> bool" where
  "call_so_far api calls p0 p \<longleftrightarrow>
     (case cph p of
        CSignal c \<Rightarrow> \<exists>q s1. (pair_step api calls)\<^sup>*\<^sup>* p0 q \<and> began api q c s1 \<and> carries s1 (cl p)
      | CWait c \<Rightarrow> \<exists>q s1 s2. (pair_step api calls)\<^sup>*\<^sup>* p0 q \<and> began api q c s1 \<and> signalled api c s1 s2 \<and> carries s2 (cl p)
      | CRead c \<Rightarrow> \<exists>q s1 s2 s3. (pair_step api calls)\<^sup>*\<^sup>* p0 q \<and> began api q c s1 \<and> signalled api c s1 s2 \<and>
          waited api c s2 s3 \<and> carries s3 (cl p)
      | _ \<Rightarrow> True)"

lemma call_so_far_carries:
  assumes "call_so_far api calls p0 p" and "carries (cl p) (cl p')" and "cph p' = cph p"
  shows "call_so_far api calls p0 p'"
  using assms carries_trans by (cases "cph p") (auto simp: call_so_far_def, blast+)

lemma call_so_far_run:
  assumes fin: "client_turn api now (cl p) (cph p) (pk p) = Some (s', CDone r um, k')" and busy: "phase_call (cph p) = Some c"
    and sofar: "call_so_far api calls p0 p" and reach: "(pair_step api calls)\<^sup>*\<^sup>* p0 p"
  shows "\<exists>q env clock. (pair_step api calls)\<^sup>*\<^sup>* p0 q \<and> cph q = CWrite c \<and> clock 0 = cc_start c \<and>
    client_turns api env clock [0, 1, 2] (cl q) (CWrite c) (pk q) = Some (s', CDone r um, k')"
proof -
  let ?clock = "\<lambda>i :: nat. if i = 0 then cc_start c else now"
  show ?thesis
  proof (cases "cph p")
    case (CWrite c')
    then have "client_turns api idle_peer ?clock [0, 1, 2] (cl p) (CWrite c) (pk p) = Some (s', CDone r um, k')"
      using fin busy by simp
    then show ?thesis using reach CWrite busy
      by (intro exI [of _ p] exI [of _ idle_peer] exI [of _ ?clock]) simp
  next
    case (CSignal c')
    then show ?thesis using fin by (simp add: client_turn_def split: prod.splits)
  next
    case (CWait c')
    then have c: "c' = c" using busy by simp
    obtain q s1 s2 t1 t2 k2 k3 where q: "(pair_step api calls)\<^sup>*\<^sup>* p0 q" "cph q = CWrite c"
        "client_turn api t1 (cl q) (CWrite c) (pk q) = Some (s1, CSignal c, pk q)" "carries s1 s2"
        "client_turn api t2 s2 (CSignal c) k2 = Some (s2, CWait c, k3)" "carries s2 (cl p)"
      using sofar by (auto simp: call_so_far_def CWait c began_def signalled_def)
    let ?env = "\<lambda>i :: nat. if i = 0 then leaving s2 k2 else leaving (cl p) (pk p)"
    have "run_peer ?env 0 (s1, pk q) = (s2, k2)" and "run_peer ?env 1 (s2, k3) = (cl p, pk p)"
      by (rule carries_run [OF q(4)], simp) (rule carries_run [OF q(6)], simp)
    then have "client_turns api ?env ?clock [0, 1, 2] (cl q) (CWrite c) (pk q) = Some (s', CDone r um, k')"
      using q(3,5) fin client_turn_now [of "CWrite c" api now _ _ t1] client_turn_now [of "CSignal c" api now _ _ t2]
      by (simp add: CWait c)
    then show ?thesis using q(1,2) by (intro exI [of _ q] exI [of _ ?env] exI [of _ ?clock]) simp
  next
    case (CRead c')
    then have c: "c' = c" using busy by simp
    obtain q s1 s2 s3 t1 t2 t3 k2 k3 k4 k5 where q: "(pair_step api calls)\<^sup>*\<^sup>* p0 q" "cph q = CWrite c"
        "client_turn api t1 (cl q) (CWrite c) (pk q) = Some (s1, CSignal c, pk q)" "carries s1 s2"
        "client_turn api t2 s2 (CSignal c) k2 = Some (s2, CWait c, k3)" "carries s2 s3"
        "client_turn api t3 s3 (CWait c) k4 = Some (s3, CRead c, k5)" "carries s3 (cl p)"
      using sofar by (auto simp: call_so_far_def CRead c began_def signalled_def waited_def)
    let ?env = "\<lambda>i :: nat. if i = 0 then leaving s2 k2 else if i = 1 then leaving s3 k4 else leaving (cl p) (pk p)"
    have "run_peer ?env 0 (s1, pk q) = (s2, k2)" and "run_peer ?env 1 (s2, k3) = (s3, k4)"
      and "run_peer ?env 2 (s3, k5) = (cl p, pk p)"
      by (rule carries_run [OF q(4)], simp) (rule carries_run [OF q(6)], simp, rule carries_run [OF q(8)], simp)
    then have "client_turns api ?env ?clock [0, 1, 2] (cl q) (CWrite c) (pk q) = Some (s', CDone r um, k')"
      using q(3,5,7) fin client_turn_now [of "CWrite c" api now _ _ t1] client_turn_now [of "CSignal c" api now _ _ t2]
        client_turn_now [of "CWait c" api now _ _ t3]
      by (simp add: CRead c)
    then show ?thesis using q(1,2) by (intro exI [of _ q] exI [of _ ?env] exI [of _ ?clock]) simp
  qed (use busy in simp)
qed

lemma client_turn_next:
  assumes "client_turn api t s ph k = Some (s', ph', k')"
  shows "(\<exists>r um. ph' = CDone r um) \<or> (\<exists>c. ph = CWrite c \<and> ph' = CSignal c \<and> k' = k) \<or>
    (\<exists>c. ph = CSignal c \<and> ph' = CWait c \<and> s' = s) \<or> (\<exists>c. ph = CWait c \<and> ph' = CRead c \<and> s' = s)"
  using assms by (cases ph) (auto simp: client_turn_def Let_def split: Option.bind_splits if_splits prod.splits)

context fmq_backend
begin

lemma pair_ok_queues: "pair_ok inv contents limit conf fi fo n p \<Longrightarrow> inputFmq (cl p) \<noteq> None \<and> outputFmq (cl p) \<noteq> None"
  by (auto simp: pair_ok_def)

lemma call_so_far_step:
  assumes step: "pair_step api (call_ok conf n) p p'" and reach: "(pair_step api (call_ok conf n))\<^sup>*\<^sup>* p0 p"
    and ok: "pair_ok inv contents limit conf fi fo n p" and sofar: "call_so_far api (call_ok conf n) p0 p"
  shows "call_so_far api (call_ok conf n) p0 p'"
proof -
  note q = pair_ok_queues [OF ok] and q' = pair_ok_queues [OF pair_step_ok [OF step ok]]
  have refl: "carries (cl p) (cl p)" "carries (cl p') (cl p')" using q q' by (auto simp: carries_def)
  show ?thesis
    using step
  proof cases
    case (call r um c)
    then show ?thesis by (simp add: call_so_far_def)
  next
    case (service now s' ph' ib' ob' k')
    then have "carries (cl p) (cl p')" and "cph p' = cph p" using q q' by (auto simp: carries_def)
    then show ?thesis by (rule call_so_far_carries [OF sofar])
  next
    case (client now s' ph' k')
    from client_turn_next [OF client(2)] show ?thesis
    proof (elim disjE exE conjE)
      fix c assume "cph p = CWrite c" "ph' = CSignal c" "k' = pk p"
      then have "began api p c s'" and "carries s' (cl p')" using client refl by (auto simp: began_def)
      then show ?thesis using reach client(1) \<open>ph' = CSignal c\<close> by (auto simp: call_so_far_def)
    next
      fix c assume c: "cph p = CSignal c" "ph' = CWait c" "s' = cl p"
      obtain q s1 where "(pair_step api (call_ok conf n))\<^sup>*\<^sup>* p0 q" "began api q c s1" "carries s1 (cl p)"
        using sofar by (auto simp: call_so_far_def c(1))
      moreover then have "signalled api c s1 (cl p)" using client(2) c by (auto simp: signalled_def)
      ultimately show ?thesis using client(1) c refl(1) by (auto simp: call_so_far_def)
    next
      fix c assume c: "cph p = CWait c" "ph' = CRead c" "s' = cl p"
      obtain q s1 s2 where "(pair_step api (call_ok conf n))\<^sup>*\<^sup>* p0 q" "began api q c s1" "signalled api c s1 s2" "carries s2 (cl p)"
        using sofar by (auto simp: call_so_far_def c(1))
      moreover then have "waited api c s2 (cl p)" using client(2) c by (auto simp: waited_def)
      ultimately show ?thesis using client(1) c refl(1) by (auto simp: call_so_far_def)
    qed (use client(1) in \<open>simp add: call_so_far_def\<close>)
  qed
qed

lemma call_so_far_steps:
  assumes "(pair_step api (call_ok conf n))\<^sup>*\<^sup>* p0 p" and "pair_ok inv contents limit conf fi fo n p0" and "phase_call (cph p0) = None"
  shows "call_so_far api (call_ok conf n) p0 p"
  using assms(1)
proof (induction rule: rtranclp_induct)
  case base
  then show ?case using assms(3) by (cases "cph p0") (simp_all add: call_so_far_def)
next
  case (step q r)
  then show ?case using call_so_far_step [OF step(2,1) pair_steps_ok [OF step(1) assms(2)]] by blast
qed

lemma interleaved_process:
  assumes steps: "(pair_step api (call_ok conf n))\<^sup>*\<^sup>* p0 p" and ok: "pair_ok inv contents limit conf fi fo n p0"
    and idle: "phase_call (cph p0) = None" and c: "phase_call (cph p) = Some c"
    and fin: "client_turn api now (cl p) (cph p) (pk p) = Some (s', CDone r um, k')"
  shows "\<exists>q env clock. (pair_step api (call_ok conf n))\<^sup>*\<^sup>* p0 q \<and> cph q = CWrite c \<and>
    EffectClient_Process api env clock (Some (cl q)) (Some (cc_inp c)) (Some (cc_out c)) (cc_frames c) (cc_memory c) (pk q) =
      Some (r, Some s', um, k')"
proof -
  obtain q env clock where q: "(pair_step api (call_ok conf n))\<^sup>*\<^sup>* p0 q" "cph q = CWrite c" "clock 0 = cc_start c"
      "client_turns api env clock [0, 1, 2] (cl q) (CWrite c) (pk q) = Some (s', CDone r um, k')"
    using call_so_far_run [OF fin c call_so_far_steps [OF steps ok idle] steps] by blast
  have "pair_ok inv contents limit conf fi fo n q" by (rule pair_steps_ok [OF q(1) ok])
  then have s: "isStarted (cl q)" "cc_frames c \<noteq> 0" using q(2) by (auto simp: pair_ok_def wired_def call_ok_def)
  have e: "c = \<lparr>cc_inp = cc_inp c, cc_out = cc_out c, cc_frames = cc_frames c, cc_memory = cc_memory c, cc_start = clock 0\<rparr>"
    using q(3) by simp
  have "EffectClient_Process api env clock (Some (cl q)) (Some (cc_inp c)) (Some (cc_out c)) (cc_frames c) (cc_memory c) (pk q) =
      Some (r, Some s', um, k')"
    unfolding client_turns_process [where clock = clock, OF s e] q(4) by simp
  then show ?thesis using q(1,2) by blast
qed

end

section \<open>A concrete pair\<close>

definition idle_pair :: "EffectFmqContext pair" where
  "idle_pair = \<lparr>cl = small_session, cph = CDone EFFECT_OK [], sv = small_service, sph = AtWait, ibuf = [0, 0], obuf = [0, 0],
     pk = pair_kernel, sent = [], got = [], lost = 0\<rparr>"

definition small_call :: client_call where
  "small_call = \<lparr>cc_inp = 0, cc_out = 2, cc_frames = 1, cc_memory = [1, 2, 0, 0], cc_start = \<lparr>tv_sec = 0, tv_nsec = 0\<rparr>\<rparr>"

lemma idle_pair_ok: "pair_ok fmq_inv fmq_contents fmq_limit small_config 0 1 2 idle_pair"
proof -
  have "wired small_config 0 1 2 idle_pair"
    by (simp add: wired_def idle_pair_def small_session_def small_service_def buffer_size_def small_bytes) (simp add: small_config_def)
  then show ?thesis
    by (rule pair_okI [where a = small_queue and b = small_queue and e = 0 and c = 0])
      (simp_all add: idle_pair_def small_session_def small_queue_ok events_def pair_kernel_def fresh_kernel_def roomy_def
        conserved_def held_def)
qed

lemma small_call_ok: "call_ok small_config 2 small_call"
  by (simp add: call_ok_def small_call_def small_config_def ranges_ok_def)

text \<open>The first write of a call on the idle pair.\<close>

lemma first_write:
  obtains s' where "client_turn fallback_api now small_session (CWrite small_call) pair_kernel = Some (s', CSignal small_call, pair_kernel)"
    and "sent_now fallback_api small_session (CWrite small_call) = [1, 2]"
    and "eventFdIn s' = 0" and "eventFdOut s' = 1" and "config s' = small_config"
proof -
  obtain q where "api_write fallback_api (inputFmq small_session) (Some (drop 0 [1, 2, 0, 0])) (ucast (1 * 2 :: u32)) = Some (2, q)"
    using small_write by blast
  then show thesis
    by (intro that [of "small_session\<lparr>inputFmq := q\<rparr>"])
      (simp_all add: client_turn_def sent_now_def small_call_def small_session_ok small_bytes, simp_all add: small_session_def)
qed

definition written_pair :: "EffectFmqContext EffectSession \<Rightarrow> EffectFmqContext pair" where
  "written_pair s' = client_next fallback_api (idle_pair\<lparr>cph := CWrite small_call\<rparr>) s' (CSignal small_call) pair_kernel"

lemma idle_pair_steps:
  obtains s' where "(pair_step fallback_api (call_ok small_config 2))\<^sup>*\<^sup>* idle_pair (written_pair s')" and "sent (written_pair s') = [1, 2]"
    and "cl (written_pair s') = s'" and "eventFdIn s' = 0" and "eventFdOut s' = 1" and "config s' = small_config"
proof -
  let ?p = "idle_pair\<lparr>cph := CWrite small_call\<rparr>"
  obtain s' where w: "client_turn fallback_api \<lparr>tv_sec = 0, tv_nsec = 0\<rparr> small_session (CWrite small_call) pair_kernel = Some (s', CSignal small_call, pair_kernel)"
      "sent_now fallback_api small_session (CWrite small_call) = [1, 2]"
      "eventFdIn s' = 0" "eventFdOut s' = 1" "config s' = small_config"
    by (rule first_write)
  have 1: "pair_step fallback_api (call_ok small_config 2) idle_pair ?p"
    by (rule call [where calls = "call_ok small_config 2", OF _ small_call_ok]) (simp add: idle_pair_def)
  have "client_turn fallback_api \<lparr>tv_sec = 0, tv_nsec = 0\<rparr> (cl ?p) (cph ?p) (pk ?p) = Some (s', CSignal small_call, pair_kernel)"
    using w(1) by (simp add: idle_pair_def)
  from client [OF this, of "call_ok small_config 2"]
  have 2: "pair_step fallback_api (call_ok small_config 2) ?p (written_pair s')" by (simp add: written_pair_def)
  have "sent (written_pair s') = [1, 2]" using w(2) by (simp add: written_pair_def idle_pair_def)
  moreover have "(pair_step fallback_api (call_ok small_config 2))\<^sup>*\<^sup>* idle_pair (written_pair s')"
    using 1 2 by (meson converse_rtranclp_into_rtranclp rtranclp.rtrancl_refl)
  moreover have "cl (written_pair s') = s'" by (simp add: written_pair_def)
  ultimately show thesis using that w(3-5) by blast
qed

section \<open>Properties\<close>

text \<open>C2. Client and service as concurrent threads keep the audio intact: in every state that any interleaving of
  their queue and event accesses reaches, what the client has read, what is queued for it, what the
  service holds and what is queued for the service are, in this order, what the client sent, except
  for bytes the service found no room for; nothing is duplicated or reordered. And the next step of
  either thread is defined.\<close>

theorem interleaved_stream_intact:
  assumes "fmq_backend good contents limit api blks" and "pair_ok good contents limit conf fi fo n p0"
    and "(pair_step api (call_ok conf n))\<^sup>*\<^sup>* p0 p"
  shows "(\<exists>a b. inputFmq (cl p) = Some a \<and> outputFmq (cl p) = Some b \<and>
      subseq (got p @ contents b @ held (sph p) (obuf p) @ contents a) (sent p) \<and>
      length (got p @ contents b @ held (sph p) (obuf p) @ contents a) + lost p = length (sent p) \<and>
      (lost p = 0 \<longrightarrow> got p @ contents b @ held (sph p) (obuf p) @ contents a = sent p)) \<and>
    client_turn api now (cl p) (cph p) (pk p) \<noteq> None \<and>
    service_turn api now (loaded p) (sph p) (ibuf p) (obuf p) (pk p) \<noteq> None"
proof -
  have ok: "pair_ok good contents limit conf fi fo n p" by (rule fmq_backend.pair_steps_ok [OF assms(1,3,2)])
  obtain a b where q: "inputFmq (cl p) = Some a" "outputFmq (cl p) = Some b"
    and c: "conserved (got p) (contents b) (held (sph p) (obuf p)) (contents a) (lost p) (sent p)"
    using ok by (rule pair_okE)
  have "got p @ contents b @ held (sph p) (obuf p) @ contents a = sent p" if "lost p = 0"
    using c that unfolding conserved_def by (intro subseq_same_length) auto
  then show ?thesis
    using q c fmq_backend.client_turn_ok [OF assms(1) ok, of now] fmq_backend.service_turn_ok [OF assms(1) ok, of now]
    by (auto simp: conserved_def)
qed

text \<open>After the first write of a call: nothing read yet, its two bytes queued.\<close>

theorem interleaved_stream_intact_witness:
  "\<exists>p. (pair_step fallback_api (call_ok small_config 2))\<^sup>*\<^sup>* idle_pair p \<and> sent p = [1, 2] \<and>
    (\<exists>a b. subseq (got p @ fmq_contents b @ held (sph p) (obuf p) @ fmq_contents a) [1, 2] \<and>
      length (got p @ fmq_contents b @ held (sph p) (obuf p) @ fmq_contents a) + lost p = 2)"
proof -
  obtain s' where s: "(pair_step fallback_api (call_ok small_config 2))\<^sup>*\<^sup>* idle_pair (written_pair s')" "sent (written_pair s') = [1, 2]"
    by (rule idle_pair_steps) (rule that)
  have two: "length [1, 2 :: u8] = 2" by simp
  have "\<exists>a b. subseq (got (written_pair s') @ fmq_contents b @ held (sph (written_pair s')) (obuf (written_pair s')) @ fmq_contents a) [1, 2] \<and>
      length (got (written_pair s') @ fmq_contents b @ held (sph (written_pair s')) (obuf (written_pair s')) @ fmq_contents a) +
        lost (written_pair s') = 2"
    using interleaved_stream_intact [OF fallback.fmq_backend_axioms idle_pair_ok s(1), THEN conjunct1] unfolding s(2) two
    by blast
  then show ?thesis using s by blast
qed

text \<open>C8. The client is never locked out. Whatever the interleaving, in a state where the service looks at its
  event next and that event is clear, a call that is about to write finds room for its whole block,
  and so goes on to wake the service: there is no reachable state with a full queue and a
  service asleep for good.\<close>

theorem client_never_locked_out:
  assumes "fmq_backend good contents limit api blks" and "pair_ok good contents limit conf fi fo n p0"
    and "(pair_step api (call_ok conf n))\<^sup>*\<^sup>* p0 p"
    and "sph p = AtWait" and "fds (pk p) fi = Some (EventFd 0)" and "cph p = CWrite c"
  shows "\<exists>s' k' e. client_turn api now (cl p) (cph p) (pk p) = Some (s', CSignal c, pk p) \<and>
    client_turn api now s' (CSignal c) (pk p) = Some (s', CWait c, k') \<and> fds k' fi = Some (EventFd e) \<and> e \<noteq> 0"
proof -
  have ok: "pair_ok good contents limit conf fi fo n p" by (rule fmq_backend.pair_steps_ok [OF assms(1,3,2)])
  have "resting (sph p)" using assms(4) by (simp add: resting_def)
  then obtain s' w where t: "client_turn api now (cl p) (cph p) (pk p) = Some (s', CSignal c, pk p)" "eventFdIn s' = int fi"
      "events fi fo 0 w (pk p)"
    using fmq_backend.client_write_fits [OF assms(1) ok assms(6) _ assms(5), of now] by blast
  obtain r k' e where g: "effect_eventfd_signal (int fi) (pk p) = (r, k')" "events fi fo e w k'" "e \<noteq> 0"
    by (rule events_signal [OF t(3)])
  have "client_turn api now s' (CSignal c) (pk p) = Some (s', CWait c, k')"
    using t(2) g(1) by (simp add: client_turn_def)
  then show ?thesis using t(1) g(2,3) unfolding events_def by blast
qed

text \<open>The first call on the idle pair.\<close>

theorem client_never_locked_out_witness:
  "\<exists>s' k' e. client_turn fallback_api \<lparr>tv_sec = 0, tv_nsec = 0\<rparr> small_session (CWrite small_call) pair_kernel = Some (s', CSignal small_call, pair_kernel) \<and>
    client_turn fallback_api \<lparr>tv_sec = 0, tv_nsec = 0\<rparr> s' (CSignal small_call) pair_kernel = Some (s', CWait small_call, k') \<and>
    fds k' 0 = Some (EventFd e) \<and> e \<noteq> 0"
proof -
  let ?p = "idle_pair\<lparr>cph := CWrite small_call\<rparr>"
  have "pair_step fallback_api (call_ok small_config 2) idle_pair ?p"
    by (rule call [where calls = "call_ok small_config 2", OF _ small_call_ok]) (simp add: idle_pair_def)
  then have "(pair_step fallback_api (call_ok small_config 2))\<^sup>*\<^sup>* idle_pair ?p" by blast
  from client_never_locked_out [OF fallback.fmq_backend_axioms idle_pair_ok this, of small_call "\<lparr>tv_sec = 0, tv_nsec = 0\<rparr>"] show ?thesis
    by (simp add: idle_pair_def pair_kernel_def)
qed



end
