(* ===== verification/HalIntegration.thy ===== *)
theory HalIntegration
  imports ClientLife
begin

text \<open>
  \<open>examples/hal_integration.c\<close>: the audio HAL's use of the client library (message queue build).
  A context follows the life of one session and decides per call whether the effect runs or the
  input is passed through. What is printed is not modelled, except which statistics are shown.

  After a failed start or a cleanup the C pointer in \<open>effectHandle\<close> dangles; the model keeps the
  closed session there, and no function looks at it again because \<open>effectEnabled\<close> is false.
\<close>

section \<open>State and functions\<close>

record 'q AudioHalContext =
  effectHandle :: "'q EffectHandle"
  effectEnabled :: bool
  passthroughMode :: bool
  hal_timeoutCount :: u32

definition hal_config :: "u32 \<Rightarrow> u32 \<Rightarrow> u32 \<Rightarrow> EffectConfig" where
  "hal_config sample_rate chans frames_per_buffer =
     \<lparr>sampleRate = sample_rate, channels = chans, format = 16, framesPerBuffer = frames_per_buffer\<rparr>"

definition hal_effect_init ::
  "'q fmq_api \<Rightarrow> u32 \<Rightarrow> 'q AudioHalContext \<Rightarrow> u32 \<Rightarrow> u32 \<Rightarrow> u32 \<Rightarrow> kernel \<Rightarrow>
   (cxx_exception + int) \<times> 'q AudioHalContext \<times> kernel" where
  "hal_effect_init api pid ctx sample_rate chans frames_per_buffer k =
     (let conf = hal_config sample_rate chans frames_per_buffer;
          (result, handle, k) =
            EffectClient_Open api pid EFFECT_TYPE_NOISE_REDUCTION (Some conf) (Some (effectHandle ctx)) k;
          ctx = (case handle of Some h \<Rightarrow> ctx\<lparr>effectHandle := h\<rparr> | None \<Rightarrow> ctx)
      in case result of
           Inl e \<Rightarrow> (Inl e, ctx, k)
         | Inr r \<Rightarrow>
             if r \<noteq> EFFECT_OK then
               (Inr (- 1), ctx\<lparr>effectEnabled := False, passthroughMode := True\<rparr>, k)
             else
               let (r, h) = EffectClient_Start (effectHandle ctx);
                   ctx = ctx\<lparr>effectHandle := h\<rparr>
               in if r \<noteq> EFFECT_OK then
                    let (r, k) = EffectClient_Close api (effectHandle ctx) k
                    in (Inr (- 1), ctx\<lparr>effectEnabled := False, passthroughMode := True\<rparr>, k)
                  else
                    (Inr 0, ctx\<lparr>effectEnabled := True, passthroughMode := False, hal_timeoutCount := 0\<rparr>, k))"

text \<open>The bytes of a pass-through: \<open>frames * 2\<close> is a 32-bit product, its product with
  \<open>sizeof(int16_t)\<close> a \<open>size_t\<close>.\<close>

definition hal_bytes :: "u32 \<Rightarrow> nat" where
  "hal_bytes frames = unat (frames * 2) * 2"

definition hal_account :: "EffectResult \<Rightarrow> 'q AudioHalContext \<Rightarrow> 'q AudioHalContext" where
  "hal_account result ctx =
     (if result = EFFECT_ERROR_TIMEOUT then
        let ctx = ctx\<lparr>hal_timeoutCount := hal_timeoutCount ctx + 1\<rparr>
        in if hal_timeoutCount ctx > 100 then ctx\<lparr>passthroughMode := True\<rparr> else ctx
      else if result = EFFECT_OK then
        (if hal_timeoutCount ctx > 0 then ctx\<lparr>hal_timeoutCount := hal_timeoutCount ctx - 1\<rparr> else ctx)
      else ctx)"

definition hal_effect_process ::
  "'q fmq_api \<Rightarrow> 'q peer \<Rightarrow> (nat \<Rightarrow> timespec) \<Rightarrow> 'q AudioHalContext \<Rightarrow> nat \<Rightarrow> nat \<Rightarrow> u32 \<Rightarrow>
   bytes \<Rightarrow> kernel \<Rightarrow> ('q AudioHalContext \<times> bytes \<times> kernel) option" where
  "hal_effect_process api env clock ctx inp out frames um k =
     (if \<not> effectEnabled ctx \<or> passthroughMode ctx then do {
        um \<leftarrow> memcpy_within um out inp (hal_bytes frames);
        Some (ctx, um, k) }
      else do {
        (result, h, um, k) \<leftarrow> EffectClient_Process api env clock (effectHandle ctx) (Some inp) (Some out) frames um k;
        let ctx = hal_account result (ctx\<lparr>effectHandle := h\<rparr>);
        um \<leftarrow> (if result \<noteq> EFFECT_ERROR_TIMEOUT \<and> result \<noteq> EFFECT_OK
              then memcpy_within um out inp (hal_bytes frames) else Some um);
        Some (ctx, um, k) })"

definition hal_effect_set_param :: "'q AudioHalContext \<Rightarrow> u32 \<Rightarrow> bytes option \<Rightarrow> u32 \<Rightarrow> int" where
  "hal_effect_set_param ctx key val valueSize =
     (if \<not> effectEnabled ctx then - 1
      else if EffectClient_SetParam (effectHandle ctx) key val valueSize = EFFECT_OK then 0 else - 1)"

text \<open>What is printed: the statistics, and whether the latency warning follows. The local the
  statistics are read into is not initialised; it is only used when they were read.\<close>

datatype hal_report = Not_Enabled | No_Statistics | Statistics EffectStats bool

definition hal_effect_print_stats :: "'q AudioHalContext \<Rightarrow> hal_report" where
  "hal_effect_print_stats ctx =
     (if \<not> effectEnabled ctx then Not_Enabled
      else case EffectClient_QueryStats (effectHandle ctx) (Some zero_stats) of
        (EFFECT_OK, Some st) \<Rightarrow> Statistics st (maxLatencyUs st > 10000)
      | _ \<Rightarrow> No_Statistics)"

definition hal_effect_cleanup :: "'q fmq_api \<Rightarrow> 'q AudioHalContext \<Rightarrow> kernel \<Rightarrow> 'q AudioHalContext \<times> kernel" where
  "hal_effect_cleanup api ctx k =
     (if \<not> effectEnabled ctx then (ctx, k)
      else
        let (r, h) = EffectClient_Stop (effectHandle ctx);
            ctx = ctx\<lparr>effectHandle := h\<rparr>;
            (r, k) = EffectClient_Close api (effectHandle ctx) k
        in (ctx\<lparr>effectEnabled := False\<rparr>, k))"

section \<open>The example program\<close>

text \<open>\<open>ctx = {0}\<close>, and the two arrays as one block: the input of 480 stereo frames at \<open>0\<close>, the output
  behind it at \<open>1920\<close>. Samples are stored least significant byte first; the output starts with
  whatever the stack held.\<close>

definition zero_context :: "'q AudioHalContext" where
  "zero_context = \<lparr>effectHandle = None, effectEnabled = False, passthroughMode = False, hal_timeoutCount = 0\<rparr>"

definition hal_input :: bytes where
  "hal_input = concat (map (\<lambda>i. [of_nat (i mod 1000 mod 256), of_nat (i mod 1000 div 256)]) [0 ..< 480 * 2])"

text \<open>The loop of \<open>main\<close> from iteration \<open>i\<close>, with the reports printed at every twentieth.\<close>

fun hal_loop ::
  "'q fmq_api \<Rightarrow> (nat \<Rightarrow> 'q peer) \<Rightarrow> (nat \<Rightarrow> nat \<Rightarrow> timespec) \<Rightarrow> nat \<Rightarrow> nat \<Rightarrow> 'q AudioHalContext \<Rightarrow>
   bytes \<Rightarrow> kernel \<Rightarrow> (hal_report list \<times> 'q AudioHalContext \<times> bytes \<times> kernel) option" where
  "hal_loop api env clock i 0 ctx um k = Some ([], ctx, um, k)"
| "hal_loop api env clock i (Suc n) ctx um k = do {
     (ctx, um, k) \<leftarrow> hal_effect_process api (env i) (clock i) ctx 0 1920 480 um k;
     let shown = (if i > 0 \<and> i mod 20 = 0 then [hal_effect_print_stats ctx] else []);
     (reports, ctx, um, k) \<leftarrow> hal_loop api env clock (Suc i) n ctx um k;
     Some (shown @ reports, ctx, um, k) }"

definition hal_main ::
  "'q fmq_api \<Rightarrow> u32 \<Rightarrow> (nat \<Rightarrow> 'q peer) \<Rightarrow> (nat \<Rightarrow> nat \<Rightarrow> timespec) \<Rightarrow> bytes \<Rightarrow> kernel \<Rightarrow>
   (cxx_exception + (hal_report list \<times> bytes \<times> kernel)) option" where
  "hal_main api pid env clock stack k =
     (let (r, ctx, k) = hal_effect_init api pid zero_context 48000 2 480 k
      in case r of
           Inl e \<Rightarrow> Some (Inl e)
         | Inr _ \<Rightarrow> do {
             (reports, ctx, um, k) \<leftarrow> hal_loop api env clock 0 100 ctx (hal_input @ stack) k;
             Some (Inr (reports, um, snd (hal_effect_cleanup api ctx k))) })"

section \<open>Sequences of calls\<close>

datatype 'q hal_call =
    HalProcess "'q peer" "nat \<Rightarrow> timespec" nat nat u32 bytes
  | HalSetParam u32 "bytes option" u32

text \<open>A run gives the verdicts of the client library, one per call it was asked to process.\<close>

fun hal_verdict :: "'q fmq_api \<Rightarrow> 'q hal_call \<Rightarrow> 'q AudioHalContext \<Rightarrow> kernel \<Rightarrow> EffectResult list" where
  "hal_verdict api (HalProcess env clock inp out frames um) ctx k =
     (if \<not> effectEnabled ctx \<or> passthroughMode ctx then []
      else case EffectClient_Process api env clock (effectHandle ctx) (Some inp) (Some out) frames um k of
        Some (r, _) \<Rightarrow> [r] | None \<Rightarrow> [])"
| "hal_verdict api (HalSetParam key val sz) ctx k = []"

fun hal_step :: "'q fmq_api \<Rightarrow> 'q hal_call \<Rightarrow> 'q AudioHalContext \<Rightarrow> kernel \<Rightarrow> ('q AudioHalContext \<times> kernel) option" where
  "hal_step api (HalProcess env clock inp out frames um) ctx k = do {
     (ctx, um, k) \<leftarrow> hal_effect_process api env clock ctx inp out frames um k;
     Some (ctx, k) }"
| "hal_step api (HalSetParam key val sz) ctx k = (let r = hal_effect_set_param ctx key val sz in Some (ctx, k))"

fun hal_run :: "'q fmq_api \<Rightarrow> 'q hal_call list \<Rightarrow> 'q AudioHalContext \<Rightarrow> kernel \<Rightarrow>
   (EffectResult list \<times> 'q AudioHalContext \<times> kernel) option" where
  "hal_run api [] ctx k = Some ([], ctx, k)"
| "hal_run api (c # cs) ctx k = do {
     (ctx', k') \<leftarrow> hal_step api c ctx k;
     (vs, ctx'', k'') \<leftarrow> hal_run api cs ctx' k';
     Some (hal_verdict api c ctx k @ vs, ctx'', k'') }"

section \<open>The leaky bucket\<close>

text \<open>What the counter is meant to do, as a function of the verdicts alone: up for a time-out, down for
  a success, never below zero.\<close>

fun leaky :: "nat \<Rightarrow> EffectResult list \<Rightarrow> nat" where
  "leaky n [] = n"
| "leaky n (r # rs) =
     leaky (if r = EFFECT_ERROR_TIMEOUT then n + 1 else if r = EFFECT_OK then n - 1 else n) rs"

lemma leaky_append: "leaky n (xs @ ys) = leaky (leaky n xs) ys"
  by (induction xs arbitrary: n) simp_all

definition bucket_ok :: "nat \<Rightarrow> 'q AudioHalContext \<Rightarrow> bool" where
  "bucket_ok n ctx \<longleftrightarrow> effectEnabled ctx \<and> unat (hal_timeoutCount ctx) = n \<and> n \<le> 101 \<and> (passthroughMode ctx \<longleftrightarrow> n = 101)"

lemma bucket_account:
  assumes "bucket_ok n ctx" and "n \<noteq> 101"
  shows "bucket_ok (leaky n [r]) (hal_account r ctx)"
proof -
  have n: "unat (hal_timeoutCount ctx) = n" "n \<le> 100" "\<not> passthroughMode ctx" "effectEnabled ctx"
    using assms by (auto simp: bucket_ok_def)
  have up: "unat (hal_timeoutCount ctx + 1) = n + 1" using n by (simp add: unat_word_ariths)
  have pos: "hal_timeoutCount ctx > 0 \<longleftrightarrow> n > 0" using n(1) by (simp add: word_less_nat_alt)
  have dn: "unat (hal_timeoutCount ctx - 1) = n - 1" if "n > 0"
    using that n(1) by (subst unat_minus_one) auto
  have lim: "hal_timeoutCount ctx + 1 > 100 \<longleftrightarrow> n = 100"
    unfolding word_less_nat_alt up using n(2) by auto
  show ?thesis
    using n up pos dn by (cases "n > 0") (auto simp: hal_account_def bucket_ok_def Let_def lim)
qed

lemma bucket_handle [simp]: "bucket_ok n (ctx\<lparr>effectHandle := h\<rparr>) = bucket_ok n ctx"
  by (simp add: bucket_ok_def)

lemma bucket_step:
  assumes "bucket_ok n ctx" and "hal_step api c ctx k = Some (ctx', k')"
  shows "bucket_ok (leaky n (hal_verdict api c ctx k)) ctx' \<and> (n = 101 \<longrightarrow> hal_verdict api c ctx k = [])"
proof (cases c)
  case (HalProcess env clock inp out frames um)
  show ?thesis
  proof (cases "n = 101")
    case True
    then have "effectEnabled ctx" "passthroughMode ctx" using assms(1) by (auto simp: bucket_ok_def)
    then show ?thesis using assms True HalProcess by (auto simp: hal_effect_process_def split: Option.bind_splits)
  next
    case False
    then have on: "effectEnabled ctx" "\<not> passthroughMode ctx" using assms(1) by (auto simp: bucket_ok_def)
    then obtain r h um' where P: "EffectClient_Process api env clock (effectHandle ctx) (Some inp) (Some out) frames um k =
        Some (r, h, um', k')" "ctx' = hal_account r (ctx\<lparr>effectHandle := h\<rparr>)"
      using assms(2) HalProcess by (auto simp: hal_effect_process_def Let_def split: Option.bind_splits)
    then show ?thesis
      using HalProcess on False bucket_account [of n "ctx\<lparr>effectHandle := h\<rparr>" r] assms(1) by simp
  qed
qed (use assms in auto)

lemma bucket_run:
  assumes "bucket_ok n ctx" and "hal_run api cs ctx k = Some (vs, ctx', k')"
  shows "bucket_ok (leaky n vs) ctx' \<and> (\<forall>i < length vs. leaky n (take i vs) < 101)"
  using assms
proof (induction cs arbitrary: n ctx k vs)
  case Nil
  then show ?case by simp
next
  case (Cons c cs)
  obtain ctx1 k1 ws where 1: "hal_step api c ctx k = Some (ctx1, k1)" "hal_run api cs ctx1 k1 = Some (ws, ctx', k')"
      "vs = hal_verdict api c ctx k @ ws"
    using Cons.prems(2) by (auto split: Option.bind_splits)
  note step = bucket_step [OF Cons.prems(1) 1(1)]
  have rest: "bucket_ok (leaky n vs) ctx'" "\<And>i. i < length ws \<Longrightarrow> leaky (leaky n (hal_verdict api c ctx k)) (take i ws) < 101"
    using Cons.IH [OF conjunct1 [OF step] 1(2)] unfolding 1(3) leaky_append by auto
  have "hal_verdict api c ctx k = [] \<or> (\<exists>r. hal_verdict api c ctx k = [r] \<and> n < 101)"
    using step Cons.prems(1) by (cases c) (auto simp: bucket_ok_def split: option.splits)
  then have "leaky n (take i vs) < 101" if "i < length vs" for i
  proof
    assume "hal_verdict api c ctx k = []"
    then show ?thesis using rest(2) [of i] that 1(3) by simp
  next
    assume "\<exists>r. hal_verdict api c ctx k = [r] \<and> n < 101"
    then obtain r where r: "hal_verdict api c ctx k = [r]" "n < 101" by blast
    show ?thesis
    proof (cases i)
      case 0
      then show ?thesis using r by simp
    next
      case (Suc j)
      then show ?thesis using rest(2) [of j] that 1(3) r by simp
    qed
  qed
  then show ?case using rest(1) by blast
qed

section \<open>Memory and resources over a life\<close>

text \<open>An enabled context holds a started session; both byte counts of a call are in bounds.\<close>

definition hal_ok :: "('q \<Rightarrow> bool) \<Rightarrow> EffectConfig \<Rightarrow> int \<Rightarrow> int \<Rightarrow> 'q AudioHalContext \<Rightarrow> bool" where
  "hal_ok good conf fi fo ctx \<longleftrightarrow> (effectEnabled ctx \<longrightarrow>
     (\<exists>s. effectHandle ctx = Some s \<and> client_ok good s \<and> isStarted s \<and> config s = conf \<and>
       eventFdIn s = fi \<and> eventFdOut s = fo))"

definition hal_events :: "'q AudioHalContext \<Rightarrow> int \<times> int" where
  "hal_events ctx = (case effectHandle ctx of None \<Rightarrow> (- 1, - 1) | Some s \<Rightarrow> (eventFdIn s, eventFdOut s))"

lemma hal_ok_events: "hal_ok good conf fi fo ctx \<Longrightarrow> effectEnabled ctx \<Longrightarrow> hal_events ctx = (fi, fo)"
  by (auto simp: hal_ok_def hal_events_def)

fun hal_call_ok :: "('q \<Rightarrow> bool) \<Rightarrow> EffectConfig \<Rightarrow> int \<Rightarrow> int \<Rightarrow> 'q hal_call \<Rightarrow> bool" where
  "hal_call_ok good conf fi fo (HalProcess env clock inp out frames um) =
     (peer_ok good env \<and> peer_keeps fi fo env \<and> ranges_ok um inp out (hal_bytes frames) \<and>
      ranges_ok um inp out (unat (frames * calculate_bytes_per_frame conf)))"
| "hal_call_ok good conf fi fo _ = True"

lemma hal_account_frame [simp]:
  "effectHandle (hal_account r ctx) = effectHandle ctx" "effectEnabled (hal_account r ctx) = effectEnabled ctx"
  by (simp_all add: hal_account_def Let_def)

lemma length_blit_ranges:
  "ranges_ok um inp out n \<Longrightarrow> length xs = n \<Longrightarrow> length (blit um out xs) = length um"
  by (simp add: ranges_ok_def)

lemma length_blit_input [simp]:
  assumes "ranges_ok um inp out n"
  shows "length (blit um out (take n (drop inp um))) = length um"
  using assms by (intro length_blit_ranges [OF assms]) (auto simp: ranges_ok_def)

context fmq_backend
begin

text \<open>A call of the client library from the HAL.\<close>

lemma process_ends:
  assumes s: "client_ok inv s" "isStarted s" "peer_ok inv env" "frames \<noteq> 0"
    and n: "n = unat (frames * calculate_bytes_per_frame (config s))" and um: "ranges_ok um inp out n"
  obtains r s' um' k' where "EffectClient_Process api env clock (Some s) (Some inp) (Some out) frames um k =
      Some (r, Some s', um', k')"
    and "r = EFFECT_OK \<or> r = EFFECT_ERROR_TIMEOUT" and "client_ok inv s'" and "isStarted s'" and "same_session s s'"
    and "length um' = length um"
    and "r = EFFECT_OK \<Longrightarrow> \<exists>d. length d = n \<and> um' = blit um out d"
    and "r = EFFECT_ERROR_TIMEOUT \<Longrightarrow> inp + n \<le> out \<or> out + n \<le> inp \<Longrightarrow> um' = blit um out (take n (drop inp um))"
    and "peer_keeps (eventFdIn s) (eventFdOut s) env \<Longrightarrow> keeps_resources (eventFdIn s) (eventFdOut s) k k'"
proof (cases rule: process_cases [OF s n um, of clock k, case_names xrun late short delivered])
  case (xrun s')
  then show thesis using um truncate_same [OF xrun(3)] s(2) by (intro that [OF xrun(1)]) auto
next
  case (late s' k')
  then show thesis using um truncate_same [OF late(3)] s(2) by (intro that [OF late(1)]) auto
next
  case (short s' k' d)
  have len: "length (take n (drop inp (blit um out d))) = n" using um short(2) by (auto simp: ranges_ok_def)
  have same: "take n (drop inp (blit um out d)) = take n (drop inp um)" if "inp + n \<le> out \<or> out + n \<le> inp"
    using that um short(2) by (intro load_blit_disjoint) (auto simp: ranges_ok_def)
  show thesis
    using short um truncate_same [OF short(4)] s(2) len same length_blit_ranges [OF um len] by (intro that [OF short(1)]) auto
next
  case (delivered s' k' d)
  then show thesis using um truncate_same [OF delivered(4)] s(2) length_blit_ranges [OF um delivered(2)] by (intro that [OF delivered(1)]) auto
qed

lemma hal_process_ok:
  assumes ok: "hal_ok inv conf fi fo ctx" and c: "hal_call_ok inv conf fi fo (HalProcess env clock inp out frames um)"
  shows "\<exists>ctx' um' k'. hal_effect_process api env clock ctx inp out frames um k = Some (ctx', um', k') \<and>
    hal_ok inv conf fi fo ctx' \<and> effectEnabled ctx' = effectEnabled ctx \<and> length um' = length um \<and>
    keeps_resources fi fo k k' \<and> (\<not> effectEnabled ctx \<longrightarrow> k' = k)"
proof (cases "\<not> effectEnabled ctx \<or> passthroughMode ctx")
  case True
  then show ?thesis using assms by (simp add: hal_effect_process_def memcpy_within_ok)
next
  case on: False
  then obtain s where s: "effectHandle ctx = Some s" "client_ok inv s" "isStarted s" "config s = conf"
      "eventFdIn s = fi" "eventFdOut s = fo"
    using ok by (auto simp: hal_ok_def)
  show ?thesis
  proof (cases "frames = 0")
    case True
    then show ?thesis
      using on s c by (simp add: hal_effect_process_def process_rejects(1) hal_ok_def memcpy_within_ok Let_def)
  next
    case False
    have c': "peer_ok inv env" "ranges_ok um inp out (unat (frames * calculate_bytes_per_frame (config s)))"
      using c s by auto
    obtain r s' um' k' where "EffectClient_Process api env clock (Some s) (Some inp) (Some out) frames um k =
        Some (r, Some s', um', k')" "r = EFFECT_OK \<or> r = EFFECT_ERROR_TIMEOUT" "client_ok inv s'" "isStarted s'"
        "same_session s s'" "length um' = length um" "keeps_resources fi fo k k'"
      by (rule process_ends [OF s(2,3) c'(1) False refl c'(2), of clock k]) (use c s in auto)
    then show ?thesis
      using on s by (auto simp: hal_effect_process_def hal_ok_def same_session_def Let_def)
  qed
qed

lemma hal_run_ok:
  assumes "hal_ok inv conf fi fo ctx" and "list_all (hal_call_ok inv conf fi fo) cs"
  shows "\<exists>vs ctx' k'. hal_run api cs ctx k = Some (vs, ctx', k') \<and> hal_ok inv conf fi fo ctx' \<and>
    effectEnabled ctx' = effectEnabled ctx \<and> keeps_resources fi fo k k' \<and> (\<not> effectEnabled ctx \<longrightarrow> k' = k)"
  using assms
proof (induction cs arbitrary: ctx k)
  case Nil
  then show ?case by simp
next
  case (Cons c cs)
  have "\<exists>ctx1 k1. hal_step api c ctx k = Some (ctx1, k1) \<and> hal_ok inv conf fi fo ctx1 \<and>
      effectEnabled ctx1 = effectEnabled ctx \<and> keeps_resources fi fo k k1 \<and> (\<not> effectEnabled ctx \<longrightarrow> k1 = k)"
  proof (cases c)
    case (HalProcess env clock inp out frames um)
    then show ?thesis
      using hal_process_ok [OF Cons.prems(1), of env clock inp out frames um k] Cons.prems(2) by auto
  qed (use Cons.prems in simp)
  then obtain ctx1 k1 where 1: "hal_step api c ctx k = Some (ctx1, k1)" "hal_ok inv conf fi fo ctx1"
      "effectEnabled ctx1 = effectEnabled ctx" "keeps_resources fi fo k k1" "\<not> effectEnabled ctx \<Longrightarrow> k1 = k" by blast
  have "list_all (hal_call_ok inv conf fi fo) cs" using Cons.prems(2) by simp
  then obtain vs ctx' k' where "hal_run api cs ctx1 k1 = Some (vs, ctx', k')" "hal_ok inv conf fi fo ctx'"
      "effectEnabled ctx' = effectEnabled ctx1" "keeps_resources fi fo k1 k'" "\<not> effectEnabled ctx1 \<Longrightarrow> k' = k1"
    using Cons.IH [OF 1(2)] by blast
  then show ?case using 1 keeps_trans by auto
qed

lemma hal_init_cases:
  assumes "hal_effect_init api pid ctx sr ch fpb k = (r, ctx1, k1)"
  obtains (throws) e where "r = Inl e"
    | (fails) fs where "r = Inr (- 1)" and "k1 = k\<lparr>faults := fs\<rparr>" and "\<not> effectEnabled ctx1" and "passthroughMode ctx1"
    | (runs) fi fo fs where "r = Inr 0" and "effectEnabled ctx1" and "\<not> passthroughMode ctx1" and "hal_timeoutCount ctx1 = 0"
        and "hal_ok inv (hal_config sr ch fpb) (int fi) (int fo) ctx1"
        and "fds k fi = None" and "fds k fo = None"
        and "k1 = k\<lparr>faults := fs, fds := (fds k)(fi \<mapsto> EventFd 0, fo \<mapsto> EventFd 0),
              heap_blocks := heap_blocks k + Suc (2 * blocks)\<rparr>"
proof -
  obtain r0 h k0 where o: "EffectClient_Open api pid EFFECT_TYPE_NOISE_REDUCTION (Some (hal_config sr ch fpb))
      (Some (effectHandle ctx)) k = (r0, h, k0)" by (metis prod_cases3)
  then show thesis
  proof (cases rule: open_cases)
    case (throws e)
    then show thesis using assms o by (intro that(1) [of e]) (auto simp: hal_effect_init_def)
  next
    case (fails fs)
    then show thesis using assms o that(2) [of fs] by (auto simp: hal_effect_init_def)
  next
    case (opens a b fi fo fs)
    then show thesis using assms o
      by (intro that(3) [of fi fo fs]) (auto simp: hal_effect_init_def EffectClient_Start_def hal_ok_def client_ok_def)
  qed
qed

lemma hal_cleanup_restores:
  assumes ok: "hal_ok inv conf (int fi) (int fo) ctx" and on: "effectEnabled ctx"
    and keep: "keeps_resources (int fi) (int fo) k1 k2"
    and k1: "k1 = k\<lparr>faults := fs, fds := (fds k)(fi \<mapsto> EventFd 0, fo \<mapsto> EventFd 0),
      heap_blocks := heap_blocks k + Suc (2 * blocks)\<rparr>" "fds k fi = None" "fds k fo = None"
  shows "resources (snd (hal_effect_cleanup api ctx k2)) = resources k"
proof -
  obtain s where s: "effectHandle ctx = Some s" "client_ok inv s" "eventFdIn s = int fi" "eventFdOut s = int fo"
    using ok on by (auto simp: hal_ok_def)
  have "client_ok inv (s\<lparr>isStarted := False\<rparr>)" using s(2) by (simp add: client_ok_def)
  from close_restores [OF this _ _ keep k1] show ?thesis
    using s on by (simp add: hal_effect_cleanup_def EffectClient_Stop_def split: prod.split) (metis snd_conv)
qed

end

text \<open>The loop of the example program is a run of processing calls.\<close>

context fmq_backend
begin

lemma hal_loop_ok:
  assumes "hal_ok inv conf fi fo ctx" and "length um = 3840" and "calculate_bytes_per_frame conf = 4"
    and "\<And>i. peer_ok inv (env i)" and "effectEnabled ctx \<Longrightarrow> (\<And>i. peer_keeps fi fo (env i))"
  shows "\<exists>reports ctx' um' k'. hal_loop api env clock i n ctx um k = Some (reports, ctx', um', k') \<and>
    hal_ok inv conf fi fo ctx' \<and> effectEnabled ctx' = effectEnabled ctx \<and> keeps_resources fi fo k k' \<and>
    length reports = length (filter (\<lambda>j. 0 < j \<and> j mod 20 = 0) [i ..< i + n]) \<and>
    (\<not> effectEnabled ctx \<longrightarrow> k' = k) \<and> length um' = 3840"
  using assms
proof (induction n arbitrary: i ctx um k)
  case 0
  then show ?case by simp
next
  case (Suc n)
  have "\<exists>ctx1 um1 k1. hal_effect_process api (env i) (clock i) ctx 0 1920 480 um k = Some (ctx1, um1, k1) \<and>
    hal_ok inv conf fi fo ctx1 \<and> effectEnabled ctx1 = effectEnabled ctx \<and> length um1 = length um \<and>
    keeps_resources fi fo k k1 \<and> (\<not> effectEnabled ctx \<longrightarrow> k1 = k)"
  proof (cases "effectEnabled ctx")
    case True
    have "hal_call_ok inv conf fi fo (HalProcess (env i) (clock i) 0 1920 480 um)"
      using Suc.prems True by (simp add: ranges_ok_def hal_bytes_def)
    then show ?thesis using hal_process_ok [OF Suc.prems(1)] True by fastforce
  next
    case False
    have "ranges_ok um 0 1920 (hal_bytes 480)" using Suc.prems(2) by (simp add: ranges_ok_def hal_bytes_def)
    from this length_blit_input [OF this] show ?thesis
      using False Suc.prems(1) by (simp add: hal_effect_process_def memcpy_within_ok)
  qed
  then obtain ctx1 um1 k1 where 1: "hal_effect_process api (env i) (clock i) ctx 0 1920 480 um k = Some (ctx1, um1, k1)"
      "hal_ok inv conf fi fo ctx1" "effectEnabled ctx1 = effectEnabled ctx" "length um1 = 3840"
      "keeps_resources fi fo k k1" "\<not> effectEnabled ctx \<Longrightarrow> k1 = k"
    using Suc.prems(2) by auto
  have pk: "effectEnabled ctx1 \<Longrightarrow> peer_keeps fi fo (env i)" for i using Suc.prems(5) 1(3) by simp
  obtain reports ctx' um' k' where 2: "hal_loop api env clock (Suc i) n ctx1 um1 k1 = Some (reports, ctx', um', k')"
      "hal_ok inv conf fi fo ctx'" "effectEnabled ctx' = effectEnabled ctx1" "keeps_resources fi fo k1 k'"
      "length reports = length (filter (\<lambda>j. 0 < j \<and> j mod 20 = 0) [Suc i ..< Suc i + n])"
      "\<not> effectEnabled ctx1 \<Longrightarrow> k' = k1" "length um' = 3840"
    using Suc.IH [OF 1(2,4) Suc.prems(3,4) pk] by blast
  have "[i ..< i + Suc n] = i # [Suc i ..< Suc i + n]" by (simp add: upt_conv_Cons)
  then show ?case using 1 2 keeps_trans [OF 1(5) 2(4)] by (simp add: Let_def)
qed

end

section \<open>Properties\<close>

lemma twentieths: "length (filter (\<lambda>j. 0 < j \<and> j mod 20 = 0) [0 ..< 0 + 100]) = (4 :: nat)"
proof -
  have "[0 ..< 0 + 100] = 0 # Suc 0 # [Suc (Suc 0) ..< 100]" by (simp add: upt_rec [of 0] upt_rec [of "Suc 0"])
  then show ?thesis unfolding numeral_2_eq_2 [symmetric] by simp
qed

lemma hal_input_length: "length hal_input = 1920"
proof -
  have "length (concat (map (\<lambda>i. [f i, g i]) xs)) = 2 * length xs" for f g :: "nat \<Rightarrow> u8" and xs
    by (induction xs) simp_all
  then show ?thesis by (simp add: hal_input_def)
qed

definition small_hal :: "EffectFmqContext AudioHalContext" where
  "small_hal = \<lparr>effectHandle = Some small_session, effectEnabled = True, passthroughMode = False, hal_timeoutCount = 0\<rparr>"

abbreviation no_time :: "nat \<Rightarrow> timespec" where
  "no_time \<equiv> (\<lambda>i. \<lparr>tv_sec = 0, tv_nsec = 0\<rparr>)"

text \<open>C18. The HAL gives up on the effect exactly when the leaky bucket of the client's verdicts (one up for
  a time-out, one down for a success, never below zero) first exceeds one hundred: over any calls
  the counter is the bucket's level and never passes 101, passthrough is on exactly at 101, and from
  then on the client library is not asked again.\<close>
theorem hal_gives_up:
  assumes "effectEnabled ctx" and "\<not> passthroughMode ctx" and "hal_timeoutCount ctx = 0"
    and "hal_run api calls ctx k = Some (verdicts, ctx', k')"
  shows "unat (hal_timeoutCount ctx') = leaky 0 verdicts \<and> leaky 0 verdicts \<le> 101 \<and>
    (passthroughMode ctx' \<longleftrightarrow> leaky 0 verdicts = 101) \<and> (\<forall>i < length verdicts. leaky 0 (take i verdicts) < 101)"
proof -
  have "bucket_ok 0 ctx" using assms(1-3) by (simp add: bucket_ok_def)
  from bucket_run [OF this assms(4)] show ?thesis by (simp add: bucket_ok_def)
qed

theorem hal_gives_up_witness:
  "\<exists>ctx' k'. hal_run fallback_api [HalSetParam 1 (Some [0]) 1, HalProcess idle_peer no_time 0 0 0 []] small_hal (fresh_kernel []) =
      Some ([EFFECT_ERROR_INVALID_ARGUMENTS], ctx', k') \<and> unat (hal_timeoutCount ctx') = 0 \<and> \<not> passthroughMode ctx'"
proof -
  have "\<exists>ctx' k'. hal_run fallback_api [HalSetParam 1 (Some [0]) 1, HalProcess idle_peer no_time 0 0 0 []] small_hal (fresh_kernel []) =
      Some ([EFFECT_ERROR_INVALID_ARGUMENTS], ctx', k')"
    by (simp add: small_hal_def hal_effect_process_def process_rejects(1) memcpy_within_ok ranges_ok_def hal_bytes_def Let_def)
  then show ?thesis using hal_gives_up [of small_hal fallback_api] by (fastforce simp: small_hal_def)
qed

text \<open>The audio never stops: a stereo call with separate buffers in bounds always ends with a full block
  in the output, either the input or a block the service delivered, and then the call was counted as
  a success; nothing outside the output changes.\<close>
theorem hal_process_output:
  assumes "fmq_backend good contents limit api blks" and "hal_ok good (hal_config sr 2 fpb) fi fo ctx"
    and "peer_ok good env" and "frames < 0x40000000" and "n = 4 * unat frames"
    and "ranges_ok um inp out n" and "inp + n \<le> out \<or> out + n \<le> inp"
  shows "\<exists>ctx' um' k' d. hal_effect_process api env clock ctx inp out frames um k = Some (ctx', um', k') \<and>
    um' = blit um out d \<and> length d = n \<and>
    (d = take n (drop inp um) \<or> ctx' = hal_account EFFECT_OK (ctx\<lparr>effectHandle := effectHandle ctx'\<rparr>))"
proof -
  have small: "unat frames < 1073741824" using assms(4) by (simp add: word_less_nat_alt)
  have bytes: "hal_bytes frames = n" "n = unat (frames * calculate_bytes_per_frame (hal_config sr 2 fpb))"
    using small assms(5) by (simp_all add: hal_bytes_def calculate_bytes_per_frame_def hal_config_def unat_word_ariths)
  have x: "length (take n (drop inp um)) = n" using assms(6) by (auto simp: ranges_ok_def)
  show ?thesis
  proof (cases "\<not> effectEnabled ctx \<or> passthroughMode ctx")
    case True
    then show ?thesis using assms(6) bytes(1) x by (auto simp: hal_effect_process_def memcpy_within_ok)
  next
    case on: False
    then obtain s where s: "effectHandle ctx = Some s" "client_ok good s" "isStarted s" "config s = hal_config sr 2 fpb"
      using assms(2) by (auto simp: hal_ok_def)
    show ?thesis
    proof (cases "frames = 0")
      case True
      then show ?thesis
        using on s assms(5-7) bytes(1) by (auto simp: hal_effect_process_def process_rejects(1) memcpy_within_ok Let_def)
    next
      case False
      have n: "n = unat (frames * calculate_bytes_per_frame (config s))" using bytes(2) s(4) by simp
      obtain r s' um' k' where P: "EffectClient_Process api env clock (Some s) (Some inp) (Some out) frames um k =
          Some (r, Some s', um', k')" "r = EFFECT_OK \<or> r = EFFECT_ERROR_TIMEOUT"
          "r = EFFECT_OK \<Longrightarrow> \<exists>d. length d = n \<and> um' = blit um out d"
          "r = EFFECT_ERROR_TIMEOUT \<Longrightarrow> um' = blit um out (take n (drop inp um))"
        by (rule fmq_backend.process_ends [OF assms(1) s(2,3) assms(3) False n assms(6), of clock k]) (use assms(7) in blast)
      have call: "hal_effect_process api env clock ctx inp out frames um k =
          Some (hal_account r (ctx\<lparr>effectHandle := Some s'\<rparr>), um', k')"
        using on s(1) P(1,2) by (auto simp: hal_effect_process_def Let_def)
      from P(2) show ?thesis
      proof
        assume r: "r = EFFECT_OK"
        then obtain d where "length d = n" "um' = blit um out d" using P(3) by blast
        then show ?thesis using call unfolding r by (intro exI [of _ d] exI conjI) auto
      next
        assume "r = EFFECT_ERROR_TIMEOUT"
        then show ?thesis using call P(4) x by (intro exI [of _ "take n (drop inp um)"] exI conjI) auto
      qed
    qed
  qed
qed

theorem hal_process_output_witness:
  "\<exists>ctx' um' k' d. hal_effect_process fallback_api idle_peer no_time
      (small_hal\<lparr>effectHandle := Some (small_session\<lparr>config := hal_config 48000 2 1\<rparr>)\<rparr>) 0 4 1 [1, 2, 3, 4, 0, 0, 0, 0]
      (fresh_kernel []) = Some (ctx', um', k') \<and>
    um' = blit [1, 2, 3, 4, 0, 0, 0, 0] 4 d \<and> length d = 4"
proof -
  let ?ctx = "small_hal\<lparr>effectHandle := Some (small_session\<lparr>config := hal_config 48000 2 1\<rparr>)\<rparr>"
  have "hal_ok fmq_inv (hal_config 48000 2 1) 0 1 ?ctx"
    using small_session_ok by (simp add: hal_ok_def small_hal_def client_ok_def) (simp add: small_session_def)
  moreover have "ranges_ok [1, 2, 3, 4, 0, 0, 0, 0] 0 4 4" by (simp add: ranges_ok_def)
  ultimately show ?thesis
    using hal_process_output [OF fallback.fmq_backend_axioms _ idle_peer_ok(1), of 48000 1 0 1 ?ctx 1 4
        "[1, 2, 3, 4, 0, 0, 0, 0]" 0 4 no_time "fresh_kernel []"]
    by auto
qed

text \<open>C31. The whole life of the HAL is free of undefined behaviour and of leaks: unless an allocation throws
  out of it, initialisation returns \<open>0\<close> or \<open>-1\<close>, any calls then run to their end, and the cleanup
  leaves descriptors, mappings and heap as they were before.\<close>
theorem hal_life_no_leak:
  assumes "fmq_backend good contents limit api blks"
    and "hal_effect_init api pid ctx sr ch fpb k = (Inr r, ctx1, k1)"
    and "list_all (hal_call_ok good (hal_config sr ch fpb) (fst (hal_events ctx1)) (snd (hal_events ctx1))) calls"
  shows "r \<in> {0, - 1} \<and> (effectEnabled ctx1 \<longleftrightarrow> r = 0) \<and>
    (\<exists>vs ctx2 k2. hal_run api calls ctx1 k1 = Some (vs, ctx2, k2) \<and>
      \<not> effectEnabled (fst (hal_effect_cleanup api ctx2 k2)) \<and>
      resources (snd (hal_effect_cleanup api ctx2 k2)) = resources k)"
proof (cases rule: fmq_backend.hal_init_cases [OF assms(1,2), case_names throws fails runs])
  case (throws e)
  then show ?thesis by simp
next
  case (fails fs)
  then have "hal_ok good (hal_config sr ch fpb) (fst (hal_events ctx1)) (snd (hal_events ctx1)) ctx1"
    by (simp add: hal_ok_def)
  then obtain vs ctx2 where "hal_run api calls ctx1 k1 = Some (vs, ctx2, k1)" "\<not> effectEnabled ctx2"
    using fmq_backend.hal_run_ok [OF assms(1) _ assms(3)] fails(3) by metis
  then show ?thesis using fails by (simp add: hal_effect_cleanup_def)
next
  case (runs fi fo fs)
  have calls: "list_all (hal_call_ok good (hal_config sr ch fpb) (int fi) (int fo)) calls"
    using assms(3) hal_ok_events [OF runs(5,2)] by simp
  obtain vs ctx2 k2 where run: "hal_run api calls ctx1 k1 = Some (vs, ctx2, k2)"
      "hal_ok good (hal_config sr ch fpb) (int fi) (int fo) ctx2" "effectEnabled ctx2 = effectEnabled ctx1"
      "keeps_resources (int fi) (int fo) k1 k2"
    using fmq_backend.hal_run_ok [OF assms(1) runs(5) calls] by blast
  have "\<not> effectEnabled (fst (hal_effect_cleanup api ctx2 k2))"
    by (simp add: hal_effect_cleanup_def split: prod.split)
  then show ?thesis
    using fmq_backend.hal_cleanup_restores [OF assms(1) run(2) _ run(4) runs(8,6,7)] run runs(1,2) by auto
qed

theorem hal_life_no_leak_witness:
  "\<exists>ctx1 k1. hal_effect_init fallback_api 7 zero_context 48000 2 1 (fresh_kernel []) = (Inr 0, ctx1, k1) \<and>
    (\<exists>vs ctx2 k2. hal_run fallback_api [HalProcess idle_peer no_time 0 4 1 [1, 2, 3, 4, 0, 0, 0, 0]] ctx1 k1 = Some (vs, ctx2, k2) \<and>
      resources (snd (hal_effect_cleanup fallback_api ctx2 k2)) = resources (fresh_kernel []))"
proof -
  have "\<exists>ctx1 k1. hal_effect_init fallback_api 7 zero_context 48000 2 1 (fresh_kernel []) = (Inr 0, ctx1, k1)"
    by (simp add: hal_effect_init_def EffectClient_Start_def EffectClient_Open_def fallback_api_def effect_fmq_create_def
        heap_alloc_def take_fault_def fresh_kernel_def effect_eventfd_create_def new_fd_def lowest_fd_def upt_conv_Cons Let_def)
  then obtain ctx1 k1 where i: "hal_effect_init fallback_api 7 zero_context 48000 2 1 (fresh_kernel []) = (Inr 0, ctx1, k1)" by blast
  have "list_all (hal_call_ok fmq_inv (hal_config 48000 2 1) (fst (hal_events ctx1)) (snd (hal_events ctx1)))
      [HalProcess idle_peer no_time 0 4 1 [1, 2, 3, 4, 0, 0, 0, 0]]"
    by (simp add: idle_peer_ok ranges_ok_def hal_bytes_def hal_config_def calculate_bytes_per_frame_def)
  then show ?thesis using hal_life_no_leak [OF fallback.fmq_backend_axioms i] i by blast
qed

text \<open>C40. The pass-through copies two 16-bit samples per frame whatever the context was opened with: for a
  mono HAL without a running effect, buffers of exactly the block's size (below \<open>2 ^ 30\<close> frames) make the call
  run out of bounds.\<close>
theorem hal_mono_passthrough_overruns:
  assumes "\<not> effectEnabled ctx \<or> passthroughMode ctx" and "frames \<noteq> 0" and "frames < 0x40000000"
    and "n = unat (frames * calculate_bytes_per_frame (hal_config sr 1 fpb))"
    and "length um = 2 * n"
  shows "hal_effect_process api env clock ctx 0 n frames um k = None"
proof -
  have small: "unat frames < 1073741824" using assms(3) by (simp add: word_less_nat_alt)
  have pos: "0 < unat frames" using assms(2) by (simp add: unat_gt_0)
  have "n = 2 * unat frames" and "hal_bytes frames = 4 * unat frames"
    using small assms(4) by (simp_all add: hal_bytes_def calculate_bytes_per_frame_def hal_config_def unat_word_ariths)
  then have "memcpy_within um n 0 (hal_bytes frames) = None"
    using assms(5) pos by (simp add: memcpy_within_def)
  then show ?thesis using assms(1) by (auto simp: hal_effect_process_def)
qed

theorem hal_mono_passthrough_overruns_witness:
  "hal_effect_process fallback_api idle_peer no_time zero_context 0 2 1 [1, 2, 0, 0] (fresh_kernel []) = None"
proof (rule hal_mono_passthrough_overruns)
  show "\<not> effectEnabled (zero_context :: EffectFmqContext AudioHalContext) \<or> passthroughMode (zero_context :: EffectFmqContext AudioHalContext)"
    by (simp add: zero_context_def)
  show "2 = unat (1 * calculate_bytes_per_frame (hal_config 48000 1 1))"
    by (simp add: hal_config_def calculate_bytes_per_frame_def)
qed simp_all

text \<open>The example program runs to its end whatever the service does: unless an allocation throws, it
  processes one hundred blocks, shows four reports on the way, and exits with its resources given back.\<close>
theorem hal_main_completes:
  assumes "fmq_backend good contents limit api blks" and "length stack = 1920" and "\<forall>i. peer_ok good (env i)"
    and "\<forall>i fi fo. fds k fi = None \<longrightarrow> fds k fo = None \<longrightarrow> peer_keeps (int fi) (int fo) (env i)"
  shows "\<exists>r. hal_main api pid env clock stack k = Some r \<and>
    (\<forall>reports um k'. r = Inr (reports, um, k') \<longrightarrow> length reports = 4 \<and> length um = 3840 \<and> resources k' = resources k)"
proof -
  have um: "length (hal_input @ stack) = 3840" using assms(2) by (simp add: hal_input_length)
  have bpf: "calculate_bytes_per_frame (hal_config 48000 2 480) = 4"
    by (simp add: calculate_bytes_per_frame_def hal_config_def)
  obtain r0 ctx1 k1 where i: "hal_effect_init api pid zero_context 48000 2 480 k = (r0, ctx1, k1)" by (metis prod_cases3)
  show ?thesis
  proof (cases rule: fmq_backend.hal_init_cases [OF assms(1) i, case_names throws fails runs])
    case (throws e)
    then show ?thesis using i by (simp add: hal_main_def)
  next
    case (fails fs)
    then have "hal_ok good (hal_config 48000 2 480) 0 0 ctx1" by (simp add: hal_ok_def)
    then obtain reports ctx2 um2 where "hal_loop api env clock 0 100 ctx1 (hal_input @ stack) k1 = Some (reports, ctx2, um2, k1)"
        "\<not> effectEnabled ctx2" "length reports = 4" "length um2 = 3840"
      using fmq_backend.hal_loop_ok [OF assms(1) _ um bpf, of 0 0 ctx1 env clock 0 100 k1] assms(3) fails(3) unfolding twentieths by metis
    then show ?thesis using i fails by (simp add: hal_main_def hal_effect_cleanup_def)
  next
    case (runs fi fo fs)
    have "peer_keeps (int fi) (int fo) (env i)" for i using assms(4) runs(6,7) by simp
    then obtain reports ctx2 um2 k2 where l: "hal_loop api env clock 0 100 ctx1 (hal_input @ stack) k1 = Some (reports, ctx2, um2, k2)"
        "hal_ok good (hal_config 48000 2 480) (int fi) (int fo) ctx2" "effectEnabled ctx2 = effectEnabled ctx1"
        "keeps_resources (int fi) (int fo) k1 k2" "length reports = 4" "length um2 = 3840"
      using fmq_backend.hal_loop_ok [OF assms(1) runs(5) um bpf, of env clock 0 100 k1] assms(3) unfolding twentieths by blast
    have "resources (snd (hal_effect_cleanup api ctx2 k2)) = resources k"
      using fmq_backend.hal_cleanup_restores [OF assms(1) l(2) _ l(4) runs(8,6,7)] l(3) runs(2) by simp
    then show ?thesis using i runs(1) l by (simp add: hal_main_def)
  qed
qed

theorem hal_main_completes_witness:
  "\<exists>r. hal_main fallback_api 7 (\<lambda>i. idle_peer) (\<lambda>i. no_time) (replicate 1920 0) (fresh_kernel []) = Some r \<and>
    (\<forall>reports um k'. r = Inr (reports, um, k') \<longrightarrow> length reports = 4 \<and> length um = 3840 \<and>
      resources k' = resources (fresh_kernel []))"
  by (rule hal_main_completes [OF fallback.fmq_backend_axioms]) (simp_all add: idle_peer_ok)

end
