(* ===== verification/Isolation.thy ===== *)
theory Isolation
  imports System HalIntegration
begin

text \<open>
  What the program is for: the audio HAL, the client library and the service together, when the service
  dies. \<open>hal_effect_process\<close> calls \<open>EffectClient_Process\<close>, whose peer is the service's processing
  iteration while the service lives and nobody after it died.
\<close>

section \<open>Calls of the HAL\<close>

text \<open>Each call with its own peer, clock and memory; the memories after the calls.\<close>

fun hal_stream ::
  "'q fmq_api \<Rightarrow> nat \<Rightarrow> nat \<Rightarrow> u32 \<Rightarrow> ('q peer \<times> (nat \<Rightarrow> timespec) \<times> bytes) list \<Rightarrow> 'q AudioHalContext \<Rightarrow> kernel \<Rightarrow>
   (bytes list \<times> 'q AudioHalContext \<times> kernel) option" where
  "hal_stream api inp out frames [] ctx k = Some ([], ctx, k)"
| "hal_stream api inp out frames ((env, clock, um) # bs) ctx k = do {
     (ctx, um, k) \<leftarrow> hal_effect_process api env clock ctx inp out frames um k;
     (ums, ctx, k) \<leftarrow> hal_stream api inp out frames bs ctx k;
     Some (um # ums, ctx, k) }"

lemma hal_stream_append:
  assumes "hal_stream api inp out frames xs ctx k = Some (us, ctx1, k1)"
    and "hal_stream api inp out frames ys ctx1 k1 = Some (vs, ctx2, k2)"
  shows "hal_stream api inp out frames (xs @ ys) ctx k = Some (us @ vs, ctx2, k2)"
  using assms
proof (induction xs arbitrary: ctx k us)
  case (Cons x xs)
  then show ?case by (cases x) (auto split: Option.bind_splits)
qed simp

section \<open>A dead service\<close>

text \<open>No signal is waiting for the client.\<close>

definition silent :: "int \<Rightarrow> kernel \<Rightarrow> bool" where
  "silent fd k \<longleftrightarrow> (\<forall>c. fd_of k fd = Some (EventFd c) \<longrightarrow> c = 0)"

lemma silent_frame: "silent fo k \<Longrightarrow> event_frame fi k k' \<Longrightarrow> fi \<noteq> fo \<Longrightarrow> silent fo k'"
  by (auto simp: silent_def event_frame_def fd_of_def split: if_splits)

lemma silent_read: "silent fd k \<Longrightarrow> sys_eventfd_read fd k = (r, k') \<Longrightarrow> silent fd k'"
  by (auto simp: silent_def sys_eventfd_read_def split: prod.splits if_splits option.splits fd_object.splits
      dest!: take_fault_faults)

lemma silent_wait:
  assumes "silent fd k" and "effect_eventfd_wait fd t k = (r, k')"
  shows "r < 0" and "silent fd k'"
proof -
  show "r < 0" using wait_succeedsD [OF assms(2)] assms(1) by (force simp: silent_def)
  obtain ret k1 where p: "sys_poll fd t k = (ret, k1)" by fastforce
  then have "silent fd k1" using assms(1) poll_faults by (fastforce simp: silent_def)
  moreover have "k' = k1 \<or> (\<exists>rr. sys_eventfd_read fd k1 = (rr, k'))"
    using assms(2) p by (auto simp: effect_eventfd_wait_def split: prod.splits if_splits)
  ultimately show "silent fd k'" using silent_read by blast
qed

context fmq_backend
begin

lemma dead_call:
  assumes s: "client_ok inv s" "isStarted s" "frames \<noteq> 0" and fd: "eventFdIn s \<noteq> eventFdOut s" "silent (eventFdOut s) k"
    and n: "n = unat (frames * calculate_bytes_per_frame (config s))" and um: "ranges_ok um inp out n"
  shows "\<exists>s' k'. EffectClient_Process api idle_peer clock (Some s) (Some inp) (Some out) frames um k =
      Some (EFFECT_ERROR_TIMEOUT, Some s', blit um out (take n (drop inp um)), k') \<and>
    client_ok inv s' \<and> isStarted s' \<and> same_session s s' \<and> silent (eventFdOut s) k'"
proof -
  let ?total = "ucast (frames * calculate_bytes_per_frame (config s)) :: u64"
  obtain a b where ab: "inputFmq s = Some a" "inv a" "outputFmq s = Some b" "inv b"
    using s(1) by (auto simp: client_ok_def)
  have src: "unat ?total \<le> length (drop inp um)" using um n by (auto simp: ranges_ok_def)
  obtain m a1 where w: "api_write api (Some a) (Some (drop inp um)) ?total = Some (m, Some a1)" "inv a1"
    using api_write_SomeE [OF ab(2) src] by blast
  obtain sg k1 where g: "effect_eventfd_signal (eventFdIn s) k = (sg, k1)" by fastforce
  obtain wr k2 where wt: "effect_eventfd_wait (eventFdOut s) TIMEOUT_MS k1 = (wr, k2)" by fastforce
  have k1: "silent (eventFdOut s) k1" by (rule silent_frame [OF fd(2) signal_frame [OF g] fd(1)])
  note quiet = silent_wait [OF k1 wt]
  show ?thesis
  proof (cases "m < ?total")
    case True
    then show ?thesis
      using s ab w fd(2) memcpy_within_ok [OF um] n
      by (auto simp: EffectClient_Process_def client_ok_def same_session_def)
  next
    case False
    then show ?thesis
      using s ab w g wt quiet memcpy_within_ok [OF um] n
      by (auto simp: EffectClient_Process_def run_idle client_ok_def same_session_def)
  qed
qed

text \<open>The HAL while the service is dead: every call passes its input through, and the bucket rises to its
  limit.\<close>

lemma hal_dead_run:
  assumes "hal_ok inv conf fi fo ctx" and "bucket_ok m ctx" and "fi \<noteq> fo" and "silent fo k"
    and conf: "conf = hal_config sr 2 fpb" and fr: "frames \<noteq> 0" "frames < 0x40000000" and n: "n = 4 * unat frames"
    and "list_all (\<lambda>(c, um). ranges_ok um inp out n) bs"
  shows "\<exists>ctx' k'. hal_stream api inp out frames (map (\<lambda>(c, um). (idle_peer, c, um)) bs) ctx k =
      Some (map (\<lambda>(c, um). blit um out (take n (drop inp um))) bs, ctx', k') \<and>
    bucket_ok (min 101 (m + length bs)) ctx'"
  using assms(1,2,4,9)
proof (induction bs arbitrary: ctx k m)
  case Nil
  then show ?case by (simp add: bucket_ok_def min_def)
next
  case (Cons b bs)
  obtain clock um where b: "b = (clock, um)" by fastforce
  have um: "ranges_ok um inp out n" and bs: "list_all (\<lambda>(c, um). ranges_ok um inp out n) bs"
    using Cons.prems(4) by (simp_all add: b)
  have small: "unat frames < 1073741824" using fr(2) by (simp add: word_less_nat_alt)
  have bytes: "hal_bytes frames = n" "n = unat (frames * calculate_bytes_per_frame conf)"
    using small n by (simp_all add: hal_bytes_def calculate_bytes_per_frame_def hal_config_def conf unat_word_ariths)
  have "\<exists>ctx1 k1. hal_effect_process api idle_peer clock ctx inp out frames um k =
      Some (ctx1, blit um out (take n (drop inp um)), k1) \<and> hal_ok inv conf fi fo ctx1 \<and> silent fo k1 \<and>
    bucket_ok (min 101 (Suc m)) ctx1"
  proof (cases "m = 101")
    case True
    then show ?thesis
      using Cons.prems(1-3) by (auto simp: hal_effect_process_def bucket_ok_def memcpy_within_ok [OF um] bytes(1))
  next
    case False
    have on: "effectEnabled ctx" "\<not> passthroughMode ctx" "m \<le> 101" using Cons.prems(2) False by (auto simp: bucket_ok_def)
    obtain s where s: "effectHandle ctx = Some s" "client_ok inv s" "isStarted s" "config s = conf"
        "eventFdIn s = fi" "eventFdOut s = fo"
      using Cons.prems(1) on(1) by (auto simp: hal_ok_def)
    obtain s' k' where P: "EffectClient_Process api idle_peer clock (Some s) (Some inp) (Some out) frames um k =
        Some (EFFECT_ERROR_TIMEOUT, Some s', blit um out (take n (drop inp um)), k')"
        "client_ok inv s'" "isStarted s'" "same_session s s'" "silent fo k'"
      using dead_call [OF s(2,3) fr(1) _ _ _ um, of k clock] s(4-6) assms(3) Cons.prems(3) bytes(2) by auto
    let ?ctx = "hal_account EFFECT_ERROR_TIMEOUT (ctx\<lparr>effectHandle := Some s'\<rparr>)"
    have "bucket_ok (min 101 (Suc m)) ?ctx"
      using bucket_account [of m "ctx\<lparr>effectHandle := Some s'\<rparr>" EFFECT_ERROR_TIMEOUT] Cons.prems(2) False on(3) by simp
    moreover have "hal_ok inv conf fi fo ?ctx" using P(2-4) s(4-6) by (simp add: hal_ok_def same_session_def)
    ultimately show ?thesis using on s(1) P(1,5) by (simp add: hal_effect_process_def)
  qed
  then obtain ctx1 k1 where 1: "hal_effect_process api idle_peer clock ctx inp out frames um k =
      Some (ctx1, blit um out (take n (drop inp um)), k1)" "hal_ok inv conf fi fo ctx1" "silent fo k1"
      "bucket_ok (min 101 (Suc m)) ctx1" by blast
  obtain ctx2 k2 where "hal_stream api inp out frames (map (\<lambda>(c, um). (idle_peer, c, um)) bs) ctx1 k1 =
      Some (map (\<lambda>(c, um). blit um out (take n (drop inp um))) bs, ctx2, k2)"
      "bucket_ok (min 101 (min 101 (Suc m) + length bs)) ctx2"
    using Cons.IH [OF 1(2,4,3) bs] by blast
  moreover have "min 101 (min 101 (Suc m) + length bs) = min 101 (m + length (b # bs))" by (simp add: min_def)
  ultimately show ?case using 1(1) by (simp add: b)
qed

end

section \<open>A living service\<close>

text \<open>The HAL's context around a session that is in step with the service, its bucket empty.\<close>

definition hal_sys_ok ::
  "('q \<Rightarrow> bool) \<Rightarrow> ('q \<Rightarrow> bytes) \<Rightarrow> ('q \<Rightarrow> nat) \<Rightarrow> nat \<Rightarrow> 'q ServerSession \<Rightarrow> delay_line \<Rightarrow> 'q AudioHalContext \<Rightarrow> kernel \<Rightarrow> bool" where
  "hal_sys_ok good contents limit cap srv d ctx k \<longleftrightarrow>
     (\<exists>s. effectHandle ctx = Some s \<and> sys_ok good contents limit cap srv d s k \<and> bucket_ok 0 ctx) \<and>
     dl_fits (unat (buffer_size (srv_config srv))) cap 0 d \<and> \<not> dl_woken d"

context fmq_backend
begin

lemma hal_alive_call:
  assumes sys: "hal_sys_ok inv contents limit cap srv d ctx k" and fr: "framesPerBuffer (srv_config srv) \<noteq> 0"
    and n: "n = unat (buffer_size (srv_config srv))" and um: "ranges_ok um inp out n"
  obtains ctx' k' y d' where "hal_effect_process api (service_peer api sclock srv) clock ctx inp out (framesPerBuffer (srv_config srv)) um k =
      Some (ctx', blit um out y, k')" and "hal_sys_ok inv contents limit cap srv d' ctx' k'"
    and "length y = n" and "y @ dl_out d' @ dl_in d' = dl_out d @ dl_in d @ take n (drop inp um)"
proof -
  let ?x = "take n (drop inp um)" and ?c = "\<lparr>sc_service = InTime, sc_service_clock = sclock, sc_clock = clock, sc_memory = um\<rparr>"
  obtain s where s: "effectHandle ctx = Some s" "sys_ok inv contents limit cap srv d s k" "bucket_ok 0 ctx"
    and d: "dl_fits n cap 0 d" "\<not> dl_woken d"
    using sys by (auto simp: hal_sys_ok_def n)
  have ok: "dl_ok n d" using d(2) by (simp add: dl_ok_def)
  have x: "length ?x = n" using um by (auto simp: ranges_ok_def)
  obtain r y d' where call: "dl_call n (sc_service ?c) (take n (drop inp (sc_memory ?c))) d = (r, y, d')" by (metis prod_cases3)
  then have call': "dl_call n InTime ?x d = (r, y, d')" by simp
  note flow = dl_call_flow [OF call' x ok]
  have r: "r = EFFECT_OK" and woken: "\<not> dl_woken d'"
    using flow(2) call' by (auto simp: dl_call_def dl_serve_def dl_collect_def Let_def)
  have um': "ranges_ok (sc_memory ?c) inp out n" using um by simp
  obtain s' k' where P: "EffectClient_Process api (service_peer api sclock srv) clock (Some s) (Some inp) (Some out)
      (framesPerBuffer (srv_config srv)) um k = Some (EFFECT_OK, Some s', blit um out y, k')"
      "sys_ok inv contents limit cap srv d' s' k'"
    using served_call_refines [OF s(2) fr n um' ok d(1) call] r
    by (auto simp: served_call_def Let_def split: Option.bind_splits option.splits)
  let ?ctx = "hal_account EFFECT_OK (ctx\<lparr>effectHandle := Some s'\<rparr>)"
  have on: "effectEnabled ctx" "\<not> passthroughMode ctx" using s(3) by (auto simp: bucket_ok_def)
  have "bucket_ok 0 ?ctx" using bucket_account [of 0 "ctx\<lparr>effectHandle := Some s'\<rparr>" EFFECT_OK] s(3) by simp
  moreover have "dl_fits n cap 0 d'" by (rule dl_call_fits [OF call' x ok]) (use d(1) in simp)
  ultimately have "hal_sys_ok inv contents limit cap srv d' ?ctx k'" using P(2) woken by (simp add: hal_sys_ok_def n)
  moreover have "hal_effect_process api (service_peer api sclock srv) clock ctx inp out (framesPerBuffer (srv_config srv)) um k =
      Some (?ctx, blit um out y, k')"
    using on s(1) P(1) by (simp add: hal_effect_process_def)
  ultimately show thesis using that flow(1,4) r by (simp add: passed_def)
qed

lemma hal_alive_run:
  assumes "hal_sys_ok inv contents limit cap srv d ctx k" and fr: "framesPerBuffer (srv_config srv) \<noteq> 0"
    and n: "n = unat (buffer_size (srv_config srv))" and "list_all (\<lambda>(sc, c, um). ranges_ok um inp out n) bs"
  shows "\<exists>ums ctx' k' d'. hal_stream api inp out (framesPerBuffer (srv_config srv))
      (map (\<lambda>(sc, c, um). (service_peer api sc srv, c, um)) bs) ctx k = Some (ums, ctx', k') \<and>
    hal_sys_ok inv contents limit cap srv d' ctx' k' \<and>
    list_all2 (\<lambda>(sc, c, um) um'. \<exists>y. length y = n \<and> um' = blit um out y) bs ums \<and>
    concat (map (\<lambda>um. take n (drop out um)) ums) @ dl_out d' @ dl_in d' =
      dl_out d @ dl_in d @ concat (map (\<lambda>(sc, c, um). take n (drop inp um)) bs)"
  using assms(1,4)
proof (induction bs arbitrary: d ctx k)
  case Nil
  then show ?case by auto
next
  case (Cons b bs)
  obtain sc c um where b: "b = (sc, c, um)" by (metis prod_cases3)
  have um: "ranges_ok um inp out n" and bs: "list_all (\<lambda>(sc, c, um). ranges_ok um inp out n) bs"
    using Cons.prems(2) by (simp_all add: b)
  obtain ctx1 k1 y d1 where 1: "hal_effect_process api (service_peer api sc srv) c ctx inp out (framesPerBuffer (srv_config srv)) um k =
      Some (ctx1, blit um out y, k1)" "hal_sys_ok inv contents limit cap srv d1 ctx1 k1"
      "length y = n" "y @ dl_out d1 @ dl_in d1 = dl_out d @ dl_in d @ take n (drop inp um)"
    by (rule hal_alive_call [OF Cons.prems(1) fr n um])
  obtain ums ctx2 k2 and d2 :: delay_line where 2: "hal_stream api inp out (framesPerBuffer (srv_config srv))
      (map (\<lambda>(sc, c, um). (service_peer api sc srv, c, um)) bs) ctx1 k1 = Some (ums, ctx2, k2)"
      "hal_sys_ok inv contents limit cap srv d2 ctx2 k2"
      "list_all2 (\<lambda>(sc, c, um) um'. \<exists>y. length y = n \<and> um' = blit um out y) bs ums"
      "concat (map (\<lambda>um. take n (drop out um)) ums) @ dl_out d2 @ dl_in d2 =
        dl_out d1 @ dl_in d1 @ concat (map (\<lambda>(sc, c, um). take n (drop inp um)) bs)"
    using Cons.IH [OF 1(2) bs] by blast
  have y: "take n (drop out (blit um out y)) = y"
    using load_blit [of out y um] 1(3) um by (simp add: ranges_ok_def)
  have "concat (map (\<lambda>um. take n (drop out um)) (blit um out y # ums)) @ dl_out d2 @ dl_in d2 =
      (y @ dl_out d1 @ dl_in d1) @ concat (map (\<lambda>(sc, c, um). take n (drop inp um)) bs)"
    using 2(4) by (simp add: y)
  also have "\<dots> = dl_out d @ dl_in d @ concat (map (\<lambda>(sc, c, um). take n (drop inp um)) (b # bs))"
    unfolding 1(4) by (simp add: b)
  finally show ?case
    using 1(1,3) 2(1-3) by (intro exI [of _ "blit um out y # ums"] exI [of _ ctx2] exI [of _ k2] exI [of _ d2]) (auto simp: b)
qed

text \<open>Between the two.\<close>

lemma hal_sys_ok_quiet:
  assumes "hal_sys_ok inv contents limit cap srv d ctx k"
  obtains fi fo where "hal_ok inv (srv_config srv) fi fo ctx" and "bucket_ok 0 ctx" and "fi \<noteq> fo" and "silent fo k"
proof -
  obtain s where s: "effectHandle ctx = Some s" "sys_ok inv contents limit cap srv d s k" "bucket_ok 0 ctx" "\<not> dl_woken d"
    using assms by (auto simp: hal_sys_ok_def)
  from s(2) obtain a b e c fi fo where "inputFmq s = Some a" "inv a" "outputFmq s = Some b" "inv b" "isStarted s"
      "config s = srv_config srv" "eventFdIn s = int fi" "eventFdOut s = int fo" "events fi fo e c k" "dl_woken d \<longleftrightarrow> c \<noteq> 0"
    by (rule sys_okE)
  then show thesis
    using s by (intro that [of "int fi" "int fo"]) (auto simp: hal_ok_def client_ok_def silent_def events_def)
qed

lemma crash_run:
  assumes sys: "hal_sys_ok inv contents limit cap srv d ctx k" and conf: "srv_config srv = hal_config sr 2 fpb"
    and fr: "fpb \<noteq> 0" "fpb < 0x40000000" and n: "n = 4 * unat fpb"
    and bs: "list_all (\<lambda>(sc, c, um). ranges_ok um inp out n) bs1" "list_all (\<lambda>(c, um). ranges_ok um inp out n) bs2"
  shows "\<exists>ums1 ctx' k' rest. hal_stream api inp out fpb
      (map (\<lambda>(sc, c, um). (service_peer api sc srv, c, um)) bs1 @ map (\<lambda>(c, um). (idle_peer, c, um)) bs2) ctx k =
      Some (ums1 @ map (\<lambda>(c, um). blit um out (take n (drop inp um))) bs2, ctx', k') \<and>
    list_all2 (\<lambda>(sc, c, um) um'. \<exists>y. length y = n \<and> um' = blit um out y) bs1 ums1 \<and>
    concat (map (\<lambda>um. take n (drop out um)) ums1) @ rest =
      dl_out d @ dl_in d @ concat (map (\<lambda>(sc, c, um). take n (drop inp um)) bs1) \<and>
    unat (hal_timeoutCount ctx') = min 101 (length bs2) \<and> (passthroughMode ctx' \<longleftrightarrow> 101 \<le> length bs2)"
proof -
  have f: "framesPerBuffer (srv_config srv) = fpb" by (simp add: conf hal_config_def)
  have small: "unat fpb < 1073741824" using fr(2) by (simp add: word_less_nat_alt)
  have n': "n = unat (buffer_size (srv_config srv))"
    using small n by (simp add: buffer_size_def conf hal_config_def calculate_bytes_per_frame_def unat_word_ariths)
  obtain ums1 ctx1 k1 and d1 :: delay_line where 1: "hal_stream api inp out fpb
      (map (\<lambda>(sc, c, um). (service_peer api sc srv, c, um)) bs1) ctx k = Some (ums1, ctx1, k1)"
      "hal_sys_ok inv contents limit cap srv d1 ctx1 k1"
      "list_all2 (\<lambda>(sc, c, um) um'. \<exists>y. length y = n \<and> um' = blit um out y) bs1 ums1"
      "concat (map (\<lambda>um. take n (drop out um)) ums1) @ dl_out d1 @ dl_in d1 =
        dl_out d @ dl_in d @ concat (map (\<lambda>(sc, c, um). take n (drop inp um)) bs1)"
    using hal_alive_run [OF sys _ n' bs(1)] fr(1) unfolding f by blast
  obtain fi fo where q: "hal_ok inv (srv_config srv) fi fo ctx1" "bucket_ok 0 ctx1" "fi \<noteq> fo" "silent fo k1"
    by (rule hal_sys_ok_quiet [OF 1(2)])
  obtain ctx2 k2 where 2: "hal_stream api inp out fpb (map (\<lambda>(c, um). (idle_peer, c, um)) bs2) ctx1 k1 =
      Some (map (\<lambda>(c, um). blit um out (take n (drop inp um))) bs2, ctx2, k2)" "bucket_ok (min 101 (0 + length bs2)) ctx2"
    using hal_dead_run [OF q conf fr n bs(2)] by blast
  have "unat (hal_timeoutCount ctx2) = min 101 (length bs2) \<and> (passthroughMode ctx2 \<longleftrightarrow> 101 \<le> length bs2)"
    using 2(2) by (auto simp: bucket_ok_def min_def)
  then show ?thesis using hal_stream_append [OF 1(1) 2(1)] 1(3,4) by blast
qed

end

section \<open>A concrete HAL\<close>

text \<open>Stereo, one frame.\<close>

definition stereo_service :: "EffectFmqContext ServerSession" where
  "stereo_service = small_service\<lparr>srv_config := hal_config 48000 2 1\<rparr>"

definition stereo_hal :: "EffectFmqContext AudioHalContext" where
  "stereo_hal = small_hal\<lparr>effectHandle := Some (small_session\<lparr>config := hal_config 48000 2 1\<rparr>)\<rparr>"

lemma stereo_pair: "hal_sys_ok fmq_inv fmq_contents fmq_limit 4 stereo_service empty_line stereo_hal pair_kernel"
proof -
  have "sys_ok fmq_inv fmq_contents fmq_limit 4 stereo_service empty_line (small_session\<lparr>config := hal_config 48000 2 1\<rparr>) pair_kernel"
    using small_pair by (auto simp: sys_ok_def stereo_service_def small_service_def small_session_def)
  moreover have "unat (buffer_size (srv_config stereo_service)) = 4"
    by (simp add: buffer_size_def stereo_service_def hal_config_def calculate_bytes_per_frame_def)
  ultimately show ?thesis
    by (simp add: hal_sys_ok_def stereo_hal_def small_hal_def bucket_ok_def empty_line_def dl_fits_def)
qed

section \<open>Properties\<close>



end
