(* ===== verification/HidlService.thy ===== *)
theory HidlService
  imports Fmq Stats Audio "HOL-Library.AList"
begin

text \<open>
  \<open>examples/hidl_service_fmq_example.cpp\<close>: the HIDL service that hands sessions with two message
  queues to the audio HAL. The class of the queues is the parameter \<open>mq_ops\<close> of theory \<open>Fmq\<close>.
  \<open>std::map\<close> is an association list without repeated keys, a \<open>std::thread\<close> is a value with its
  joinability, and a call that ends in \<open>std::terminate\<close> is \<open>None\<close>: an exception leaving a thread, or
  a joinable thread being destroyed or assigned to. A C++ exception leaving a call is \<open>Inl\<close>.
\<close>

section \<open>Types\<close>

datatype HidlResult = OK | ERROR_INVALID_ARGUMENTS | ERROR_NO_MEMORY | ERROR_INVALID_STATE
  | ERROR_NOT_SUPPORTED | ERROR_TIMEOUT | ERROR_DEAD_OBJECT

datatype HidlState = IDLE | OPENED | STARTED | STOPPED | ERROR

datatype HidlEffectType = KARAOKE_NO_MIC | NOISE_REDUCTION

datatype hidl_exception = Bad_Alloc | System_Error

text \<open>A thread object: default-constructed or joined; started and not yet run; in the loop with its two
  vectors; returned and not yet joined.\<close>

datatype hidl_thread = Not_Joinable | Starting | Running bytes bytes | Ended

record 'q EffectSessionContext =
  ctx_sessionId :: u32
  ctx_effectType :: HidlEffectType
  ctx_config :: AudioConfig
  ctx_inputFmq :: 'q
  ctx_outputFmq :: 'q
  processingThread :: hidl_thread
  ctx_running :: bool

record 'q EffectService =
  mNextSessionId :: u32
  mSessions :: "(u32 \<times> 'q EffectSessionContext) list"

definition EffectService_new :: "'q EffectService" where
  "EffectService_new = \<lparr>mNextSessionId = 1, mSessions = []\<rparr>"

section \<open>The processing thread\<close>

definition hidl_buffer_size :: "AudioConfig \<Rightarrow> u32" where
  "hidl_buffer_size cfg =
     (let bytesPerSample = (if format cfg = 16 then 2 else 4);
          bytesPerFrame = channels cfg * bytesPerSample
      in framesPerBuffer cfg * bytesPerFrame)"

text \<open>A vector of size zero allocates nothing.\<close>

definition vector_new :: "nat \<Rightarrow> kernel \<Rightarrow> bytes option \<times> kernel" where
  "vector_new n k =
     (if n = 0 then (Some [], k)
      else let (ok, k) = heap_alloc k in (if ok then Some (replicate n 0) else None, k))"

definition vector_free :: "bytes \<Rightarrow> kernel \<Rightarrow> kernel" where
  "vector_free v k = (if v = [] then k else heap_free k)"

definition loop_enter :: "'q EffectSessionContext \<Rightarrow> kernel \<Rightarrow> (hidl_thread \<times> kernel) option" where
  "loop_enter s k =
     (let n = unat (hidl_buffer_size (ctx_config s));
          (inb, k) = vector_new n k
      in case inb of
           None \<Rightarrow> None
         | Some ib \<Rightarrow>
             let (outb, k) = vector_new n k
             in (case outb of None \<Rightarrow> None | Some ob \<Rightarrow> Some (Running ib ob, k)))"

definition loop_iteration ::
  "'q mq_ops \<Rightarrow> 'q EffectSessionContext \<Rightarrow> bytes \<Rightarrow> bytes \<Rightarrow> ('q EffectSessionContext \<times> bytes \<times> bytes) option" where
  "loop_iteration M s ib ob =
     (let bufferSize = ucast (hidl_buffer_size (ctx_config s)) :: u64;
          available = mq_availableToRead M (ctx_inputFmq s)
      in if available < bufferSize then Some (s, ib, ob)
         else case mq_read M (ctx_inputFmq s) bufferSize of
           None \<Rightarrow> Some (s, ib, ob)
         | Some (xs, q) \<Rightarrow> do {
             ib \<leftarrow> mem_store ib 0 xs;
             let s = s\<lparr>ctx_inputFmq := q\<rparr>;
             ob \<leftarrow> memcpy ob 0 ib 0 (unat bufferSize);
             let writeSpace = mq_availableToWrite M (ctx_outputFmq s);
             if writeSpace < bufferSize then Some (s, ib, ob)
             else do {
               xs \<leftarrow> mem_load ob 0 (unat bufferSize);
               let (ok, q) = mq_write M (ctx_outputFmq s) xs;
               Some (s\<lparr>ctx_outputFmq := q\<rparr>, ib, ob) } })"

text \<open>One turn of a session's thread.\<close>

definition processingLoop ::
  "'q mq_ops \<Rightarrow> 'q EffectSessionContext \<Rightarrow> kernel \<Rightarrow> ('q EffectSessionContext \<times> kernel) option" where
  "processingLoop M s k =
     (case processingThread s of
        Starting \<Rightarrow> do { (th, k) \<leftarrow> loop_enter s k; Some (s\<lparr>processingThread := th\<rparr>, k) }
      | Running ib ob \<Rightarrow>
          if ctx_running s then do {
            (s, ib, ob) \<leftarrow> loop_iteration M s ib ob;
            Some (s\<lparr>processingThread := Running ib ob\<rparr>, k) }
          else Some (s\<lparr>processingThread := Ended\<rparr>, vector_free ib (vector_free ob k))
      | _ \<Rightarrow> Some (s, k))"

text \<open>\<open>join\<close>, called with the flag cleared: what is left of the thread is its entry and its exit.\<close>

definition thread_join :: "'q EffectSessionContext \<Rightarrow> kernel \<Rightarrow> ('q EffectSessionContext \<times> kernel) option" where
  "thread_join s k =
     (case processingThread s of
        Starting \<Rightarrow> do {
          (th, k) \<leftarrow> loop_enter s k;
          Some (s\<lparr>processingThread := Not_Joinable\<rparr>,
            case th of Running ib ob \<Rightarrow> vector_free ib (vector_free ob k) | _ \<Rightarrow> k) }
      | Running ib ob \<Rightarrow> Some (s\<lparr>processingThread := Not_Joinable\<rparr>, vector_free ib (vector_free ob k))
      | _ \<Rightarrow> Some (s\<lparr>processingThread := Not_Joinable\<rparr>, k))"

section \<open>The methods\<close>

text \<open>Destruction of a session context with its queues.\<close>

definition context_delete :: "'q mq_ops \<Rightarrow> 'q EffectSessionContext \<Rightarrow> kernel \<Rightarrow> kernel option" where
  "context_delete M s k =
     (if processingThread s \<noteq> Not_Joinable then None
      else Some (heap_free (mq_delete M (ctx_inputFmq s) (mq_delete M (ctx_outputFmq s) k))))"

text \<open>\<open>mSessions[sessionId] = std::move(session)\<close>: a new node, or the value of an old one replaced.\<close>

definition store_session ::
  "'q mq_ops \<Rightarrow> 'q EffectSessionContext \<Rightarrow> 'q EffectService \<Rightarrow> kernel \<Rightarrow>
   ((hidl_exception + unit) \<times> 'q EffectService \<times> kernel) option" where
  "store_session M s svc k =
     (case map_of (mSessions svc) (ctx_sessionId s) of
        Some old \<Rightarrow> do {
          k \<leftarrow> context_delete M old k;
          Some (Inr (), svc\<lparr>mSessions := AList.update (ctx_sessionId s) s (mSessions svc)\<rparr>, k) }
      | None \<Rightarrow>
          let (ok, k) = heap_alloc k
          in if \<not> ok then do { k \<leftarrow> context_delete M s k; Some (Inl Bad_Alloc, svc, k) }
             else Some (Inr (), svc\<lparr>mSessions := AList.update (ctx_sessionId s) s (mSessions svc)\<rparr>, k))"

text \<open>The callback's arguments are the result; the \<open>FmqInfo\<close> is given as the queues it describes.\<close>

definition EffectService_open ::
  "'q mq_ops \<Rightarrow> HidlEffectType \<Rightarrow> AudioConfig \<Rightarrow> 'q EffectService \<Rightarrow> kernel \<Rightarrow>
   ((hidl_exception + HidlResult \<times> u32 \<times> ('q \<times> 'q) option) \<times> 'q EffectService \<times> kernel) option" where
  "EffectService_open M kind cfg svc k =
     (let (inq, k) = mq_new M (1024 * 1024) k
      in case inq of
           None \<Rightarrow> Some (Inl Bad_Alloc, svc, k)
         | Some a \<Rightarrow>
             if \<not> mq_isValid M a then Some (Inr (ERROR_NO_MEMORY, 0, None), svc, mq_delete M a k)
             else
               let (outq, k) = mq_new M (1024 * 1024) k
               in (case outq of
                     None \<Rightarrow> Some (Inl Bad_Alloc, svc, mq_delete M a k)
                   | Some b \<Rightarrow>
                       if \<not> mq_isValid M b
                       then Some (Inr (ERROR_NO_MEMORY, 0, None), svc, mq_delete M a (mq_delete M b k))
                       else
                         let (ok, k) = heap_alloc k
                         in if \<not> ok then Some (Inl Bad_Alloc, svc, mq_delete M a (mq_delete M b k))
                            else do {
                              let sid = mNextSessionId svc;
                              let svc = svc\<lparr>mNextSessionId := sid + 1\<rparr>;
                              let s = \<lparr>ctx_sessionId = sid, ctx_effectType = kind, ctx_config = cfg,
                                ctx_inputFmq = a, ctx_outputFmq = b, processingThread = Not_Joinable,
                                ctx_running = False\<rparr>;
                              (r, svc, k) \<leftarrow> store_session M s svc k;
                              Some (case r of Inl e \<Rightarrow> Inl e | Inr _ \<Rightarrow> Inr (OK, sid, Some (a, b)), svc, k) }))"

definition EffectService_start ::
  "u32 \<Rightarrow> 'q EffectService \<Rightarrow> kernel \<Rightarrow> ((hidl_exception + HidlResult) \<times> 'q EffectService \<times> kernel) option" where
  "EffectService_start sid svc k =
     (case map_of (mSessions svc) sid of
        None \<Rightarrow> Some (Inr ERROR_INVALID_ARGUMENTS, svc, k)
      | Some s \<Rightarrow>
          if ctx_running s then Some (Inr ERROR_INVALID_STATE, svc, k)
          else
            let s = s\<lparr>ctx_running := True\<rparr>; (bad, k) = take_fault k
            in if bad then Some (Inl System_Error, svc\<lparr>mSessions := AList.update sid s (mSessions svc)\<rparr>, k)
               else if processingThread s \<noteq> Not_Joinable then None
               else Some (Inr OK, svc\<lparr>mSessions :=
                 AList.update sid (s\<lparr>processingThread := Starting\<rparr>) (mSessions svc)\<rparr>, k))"

definition EffectService_stop ::
  "u32 \<Rightarrow> 'q EffectService \<Rightarrow> kernel \<Rightarrow> (HidlResult \<times> 'q EffectService \<times> kernel) option" where
  "EffectService_stop sid svc k =
     (case map_of (mSessions svc) sid of
        None \<Rightarrow> Some (ERROR_INVALID_ARGUMENTS, svc, k)
      | Some s \<Rightarrow>
          if \<not> ctx_running s then Some (ERROR_INVALID_STATE, svc, k)
          else do {
            (s, k) \<leftarrow> thread_join (s\<lparr>ctx_running := False\<rparr>) k;
            Some (OK, svc\<lparr>mSessions := AList.update sid s (mSessions svc)\<rparr>, k) })"

definition closeSession :: "'q EffectSessionContext \<Rightarrow> kernel \<Rightarrow> ('q EffectSessionContext \<times> kernel) option" where
  "closeSession s k = (if ctx_running s then thread_join (s\<lparr>ctx_running := False\<rparr>) k else Some (s, k))"

definition EffectService_close ::
  "'q mq_ops \<Rightarrow> u32 \<Rightarrow> 'q EffectService \<Rightarrow> kernel \<Rightarrow> (HidlResult \<times> 'q EffectService \<times> kernel) option" where
  "EffectService_close M sid svc k =
     (case map_of (mSessions svc) sid of
        None \<Rightarrow> Some (ERROR_INVALID_ARGUMENTS, svc, k)
      | Some s \<Rightarrow> do {
          (s, k) \<leftarrow> closeSession s k;
          k \<leftarrow> context_delete M s k;
          Some (OK, svc\<lparr>mSessions := AList.delete sid (mSessions svc)\<rparr>, heap_free k) })"

definition EffectService_setParam :: "u32 \<Rightarrow> 'q EffectService \<Rightarrow> HidlResult" where
  "EffectService_setParam sid svc = (if map_of (mSessions svc) sid = None then ERROR_INVALID_ARGUMENTS else OK)"

definition EffectService_queryState :: "u32 \<Rightarrow> 'q EffectService \<Rightarrow> HidlResult \<times> HidlState" where
  "EffectService_queryState sid svc =
     (case map_of (mSessions svc) sid of
        None \<Rightarrow> (ERROR_INVALID_ARGUMENTS, ERROR)
      | Some s \<Rightarrow> (OK, if ctx_running s then STARTED else OPENED))"

definition EffectService_queryStats :: "u32 \<Rightarrow> 'q EffectService \<Rightarrow> HidlResult \<times> SessionStats" where
  "EffectService_queryStats sid svc =
     (if map_of (mSessions svc) sid = None then (ERROR_INVALID_ARGUMENTS, zero_stats) else (OK, zero_stats))"

text \<open>The destructor: every session closed, then the map destroyed node by node.\<close>

fun close_all :: "(u32 \<times> 'q EffectSessionContext) list \<Rightarrow> kernel \<Rightarrow> ((u32 \<times> 'q EffectSessionContext) list \<times> kernel) option" where
  "close_all [] k = Some ([], k)"
| "close_all ((i, s) # xs) k = do {
     (s, k) \<leftarrow> closeSession s k;
     (xs, k) \<leftarrow> close_all xs k;
     Some ((i, s) # xs, k) }"

fun delete_all :: "'q mq_ops \<Rightarrow> (u32 \<times> 'q EffectSessionContext) list \<Rightarrow> kernel \<Rightarrow> kernel option" where
  "delete_all M [] k = Some k"
| "delete_all M ((i, s) # xs) k = do {
     k \<leftarrow> context_delete M s k;
     delete_all M xs (heap_free k) }"

definition EffectService_delete :: "'q mq_ops \<Rightarrow> 'q EffectService \<Rightarrow> kernel \<Rightarrow> kernel option" where
  "EffectService_delete M svc k = do {
     (xs, k) \<leftarrow> close_all (mSessions svc) k;
     delete_all M xs k }"

section \<open>Runs\<close>

text \<open>The calls, turns of a session's thread, and the audio HAL's use of a session's queues.\<close>

datatype 'q hidl_op = Open HidlEffectType AudioConfig | Start_Call u32 | Stop_Call u32 | Close u32
  | Turn u32 | Use u32 "'q \<times> 'q \<Rightarrow> 'q \<times> 'q"

fun hidl_exec :: "'q mq_ops \<Rightarrow> 'q hidl_op \<Rightarrow> 'q EffectService \<times> kernel \<Rightarrow> ('q EffectService \<times> kernel) option" where
  "hidl_exec M (Open kind cfg) (svc, k) = do { (r, svc, k) \<leftarrow> EffectService_open M kind cfg svc k; Some (svc, k) }"
| "hidl_exec M (Start_Call sid) (svc, k) = do { (r, svc, k) \<leftarrow> EffectService_start sid svc k; Some (svc, k) }"
| "hidl_exec M (Stop_Call sid) (svc, k) = do { (r, svc, k) \<leftarrow> EffectService_stop sid svc k; Some (svc, k) }"
| "hidl_exec M (Close sid) (svc, k) = do { (r, svc, k) \<leftarrow> EffectService_close M sid svc k; Some (svc, k) }"
| "hidl_exec M (Turn sid) (svc, k) =
     (case map_of (mSessions svc) sid of
        None \<Rightarrow> Some (svc, k)
      | Some s \<Rightarrow> do {
          (s, k) \<leftarrow> processingLoop M s k;
          Some (svc\<lparr>mSessions := AList.update sid s (mSessions svc)\<rparr>, k) })"
| "hidl_exec M (Use sid f) (svc, k) =
     (case map_of (mSessions svc) sid of
        None \<Rightarrow> Some (svc, k)
      | Some s \<Rightarrow> case f (ctx_inputFmq s, ctx_outputFmq s) of (a, b) \<Rightarrow>
          Some (svc\<lparr>mSessions := AList.update sid (s\<lparr>ctx_inputFmq := a, ctx_outputFmq := b\<rparr>) (mSessions svc)\<rparr>, k))"

fun hidl_run :: "'q mq_ops \<Rightarrow> 'q hidl_op list \<Rightarrow> 'q EffectService \<times> kernel \<Rightarrow> ('q EffectService \<times> kernel) option" where
  "hidl_run M [] sk = Some sk"
| "hidl_run M (op # ops) sk = do { sk \<leftarrow> hidl_exec M op sk; hidl_run M ops sk }"

fun hidl_op_ok :: "('q \<Rightarrow> bool) \<Rightarrow> 'q hidl_op \<Rightarrow> bool" where
  "hidl_op_ok good (Use sid f) = (\<forall>a b a' b'. f (a, b) = (a', b') \<longrightarrow> good a \<longrightarrow> good b \<longrightarrow> good a' \<and> good b')"
| "hidl_op_ok good _ = True"

section \<open>Sessions and the heap\<close>

text \<open>A session in order: good queues, a joinable thread only while the flag is set, buffers of the
  session's size. \<open>b\<close> is what a queue takes of the heap.\<close>

fun thread_ok :: "nat \<Rightarrow> hidl_thread \<Rightarrow> bool" where
  "thread_ok n (Running ib ob) = (length ib = n \<and> length ob = n)"
| "thread_ok n _ = True"

definition ctx_ok :: "('q \<Rightarrow> bool) \<Rightarrow> 'q EffectSessionContext \<Rightarrow> bool" where
  "ctx_ok good s \<longleftrightarrow> good (ctx_inputFmq s) \<and> good (ctx_outputFmq s) \<and>
     (processingThread s \<noteq> Not_Joinable \<longrightarrow> ctx_running s) \<and>
     thread_ok (unat (hidl_buffer_size (ctx_config s))) (processingThread s)"

fun hidl_thread_blocks :: "hidl_thread \<Rightarrow> nat" where
  "hidl_thread_blocks (Running ib ob) = (if ib = [] then 0 else 1) + (if ob = [] then 0 else 1)"
| "hidl_thread_blocks _ = 0"

text \<open>Two queues, the context, its node in the map, and its thread's vectors.\<close>

definition ctx_blocks :: "nat \<Rightarrow> 'q EffectSessionContext \<Rightarrow> nat" where
  "ctx_blocks b s = 2 * b + 2 + hidl_thread_blocks (processingThread s)"

text \<open>What a step does to one session, and to the heap.\<close>

definition ctx_step :: "('q \<Rightarrow> bool) \<Rightarrow> nat \<Rightarrow> 'q EffectSessionContext \<Rightarrow> kernel \<Rightarrow> 'q EffectSessionContext \<Rightarrow> kernel \<Rightarrow> bool" where
  "ctx_step good b s k s' k' \<longleftrightarrow> ctx_ok good s' \<and>
     (ctx_blocks b s \<le> heap_blocks k \<longrightarrow> heap_blocks k' + ctx_blocks b s = heap_blocks k + ctx_blocks b s')"

lemma vector_new_cases:
  assumes "vector_new n k = (v, k')"
  obtains (fails) "v = None" | (makes) xs where "v = Some xs" and "length xs = n"
    and "heap_blocks k' = heap_blocks k + (if xs = [] then 0 else 1)"
proof (cases "n = 0")
  case True
  then show thesis using assms makes by (auto simp: vector_new_def)
next
  case False
  obtain ok k1 where a: "heap_alloc k = (ok, k1)" by fastforce
  then show thesis
    by (cases rule: heap_alloc_cases) (use a assms False fails makes in \<open>auto simp: vector_new_def\<close>)
qed

lemma vector_free_blocks: "heap_blocks (vector_free v k) = heap_blocks k - (if v = [] then 0 else 1)"
  by (simp add: vector_free_def heap_free_def)

lemma vectors_free_blocks:
  "heap_blocks (vector_free ib (vector_free ob k)) = heap_blocks k - hidl_thread_blocks (Running ib ob)"
  by (simp add: vector_free_blocks)

lemma loop_enter_cases:
  assumes "loop_enter s k = Some (th, k')"
  obtains ib ob where "th = Running ib ob" and "length ib = unat (hidl_buffer_size (ctx_config s))"
    and "length ob = unat (hidl_buffer_size (ctx_config s))"
    and "heap_blocks k' = heap_blocks k + hidl_thread_blocks (Running ib ob)"
proof -
  let ?n = "unat (hidl_buffer_size (ctx_config s))"
  obtain v k1 where v: "vector_new ?n k = (v, k1)" by fastforce
  then obtain ib where ib: "v = Some ib" using assms by (auto simp: loop_enter_def split: option.splits)
  obtain w k2 where w: "vector_new ?n k1 = (w, k2)" by fastforce
  then obtain ob where ob: "w = Some ob" "th = Running ib ob" "k' = k2"
    using assms v ib by (auto simp: loop_enter_def split: option.splits)
  have "length ib = ?n \<and> heap_blocks k1 = heap_blocks k + (if ib = [] then 0 else 1)"
    using v ib by (cases rule: vector_new_cases) auto
  moreover have "length ob = ?n \<and> heap_blocks k2 = heap_blocks k1 + (if ob = [] then 0 else 1)"
    using w ob by (cases rule: vector_new_cases) auto
  ultimately show thesis using that ob by auto
qed

lemma join_step:
  assumes "ctx_ok good s" and "thread_join (s\<lparr>ctx_running := r\<rparr>) k = Some (s', k')"
  shows "ctx_step good b s k s' k' \<and> processingThread s' = Not_Joinable \<and> ctx_sessionId s' = ctx_sessionId s"
proof (cases "processingThread s")
  case Starting
  then obtain th k1 where e: "loop_enter (s\<lparr>ctx_running := r\<rparr>) k = Some (th, k1)"
    using assms(2) by (auto simp: thread_join_def split: Option.bind_splits)
  then show ?thesis
    by (cases rule: loop_enter_cases)
      (use e assms Starting in \<open>auto simp: thread_join_def ctx_step_def ctx_ok_def ctx_blocks_def vectors_free_blocks\<close>)
next
  case (Running ib ob)
  then show ?thesis
    using assms by (auto simp: thread_join_def ctx_step_def ctx_ok_def ctx_blocks_def vectors_free_blocks)
qed (use assms in \<open>auto simp: thread_join_def ctx_step_def ctx_ok_def ctx_blocks_def\<close>)

lemma join_stuck:
  "thread_join (s\<lparr>ctx_running := r\<rparr>) k = None \<Longrightarrow> processingThread s = Starting \<and> loop_enter s k = None"
  by (auto simp: thread_join_def loop_enter_def split: hidl_thread.splits Option.bind_splits)

lemma close_step:
  assumes "ctx_ok good s" and "closeSession s k = Some (s', k')"
  shows "ctx_step good b s k s' k' \<and> processingThread s' = Not_Joinable \<and> ctx_sessionId s' = ctx_sessionId s"
proof (cases "ctx_running s")
  case True
  then show ?thesis using assms join_step by (simp add: closeSession_def)
next
  case False
  then have "processingThread s = Not_Joinable" using assms(1) by (auto simp: ctx_ok_def)
  then show ?thesis using assms False by (simp add: closeSession_def ctx_step_def)
qed

lemma close_stuck: "closeSession s k = None \<Longrightarrow> processingThread s = Starting \<and> loop_enter s k = None"
  unfolding closeSession_def by (auto split: if_splits dest: join_stuck)

section \<open>Tables of sessions\<close>

definition total_blocks :: "nat \<Rightarrow> (u32 \<times> 'q EffectSessionContext) list \<Rightarrow> nat" where
  "total_blocks b xs = sum_list (map (\<lambda>(i, s). ctx_blocks b s) xs)"

lemma total_blocks_Cons [simp]: "total_blocks b ((i, s) # xs) = ctx_blocks b s + total_blocks b xs"
  by (simp add: total_blocks_def)

lemma total_blocks_Nil [simp]: "total_blocks b [] = 0"
  by (simp add: total_blocks_def)

lemma total_update_new:
  "map_of xs i = None \<Longrightarrow> total_blocks b (AList.update i s xs) = total_blocks b xs + ctx_blocks b s"
  by (induction xs) (auto split: if_splits)

lemma total_update_old:
  "map_of xs i = Some s0 \<Longrightarrow> total_blocks b (AList.update i s xs) + ctx_blocks b s0 = total_blocks b xs + ctx_blocks b s"
  by (induction xs) (auto split: if_splits)

lemma delete_absent: "i \<notin> fst ` set xs \<Longrightarrow> AList.delete i xs = xs"
  by (induction xs) auto

lemma total_delete:
  "map_of xs i = Some s \<Longrightarrow> distinct (map fst xs) \<Longrightarrow>
    total_blocks b (AList.delete i xs) + ctx_blocks b s = total_blocks b xs"
  by (induction xs) (auto simp: delete_absent split: if_splits)

text \<open>The service in order, over \<open>h\<close> heap blocks that are not its own, with at most \<open>c - 1\<close> sessions ever
  opened.\<close>

definition hidl_ok :: "('q \<Rightarrow> bool) \<Rightarrow> nat \<Rightarrow> nat \<Rightarrow> nat \<Rightarrow> 'q EffectService \<Rightarrow> kernel \<Rightarrow> bool" where
  "hidl_ok good b h c svc k \<longleftrightarrow> distinct (map fst (mSessions svc)) \<and>
     (\<forall>i s. map_of (mSessions svc) i = Some s \<longrightarrow> ctx_ok good s) \<and>
     (\<forall>i \<in> fst ` set (mSessions svc). i < mNextSessionId svc) \<and> unat (mNextSessionId svc) \<le> c \<and>
     heap_blocks k = h + total_blocks b (mSessions svc)"

lemma total_member: "map_of xs i = Some s \<Longrightarrow> ctx_blocks b s \<le> total_blocks b xs"
  by (induction xs) (auto split: if_splits intro: trans_le_add2)

text \<open>A step of one session keeps the service in order.\<close>

lemma hidl_ok_update:
  assumes ok: "hidl_ok good b h c svc k" and s: "map_of (mSessions svc) i = Some s" and st: "ctx_step good b s k s' k'"
  shows "hidl_ok good b h c (svc\<lparr>mSessions := AList.update i s' (mSessions svc)\<rparr>) k'"
proof -
  have "ctx_blocks b s \<le> heap_blocks k" using total_member [OF s] ok by (auto simp: hidl_ok_def intro: trans_le_add2)
  then have "heap_blocks k' = h + total_blocks b (AList.update i s' (mSessions svc))"
    using st ok total_update_old [OF s, of b s'] by (simp add: ctx_step_def hidl_ok_def)
  moreover have "i \<in> fst ` set (mSessions svc)" using s by (metis domI dom_map_of_conv_image_fst)
  then have "fst ` set (AList.update i s' (mSessions svc)) = fst ` set (mSessions svc)"
    by (simp add: dom_update insert_absorb flip: dom_map_of_conv_image_fst) (simp add: update_conv' insert_absorb dom_map_of_conv_image_fst)
  ultimately show ?thesis
    using ok st by (auto simp: hidl_ok_def ctx_step_def update_conv' distinct_update)
qed

lemma hidl_ok_mono: "hidl_ok good b h c svc k \<Longrightarrow> c \<le> c' \<Longrightarrow> hidl_ok good b h c' svc k"
  by (auto simp: hidl_ok_def)

lemma session_ok: "hidl_ok good b h c svc k \<Longrightarrow> map_of (mSessions svc) i = Some s \<Longrightarrow> ctx_ok good s"
  by (simp add: hidl_ok_def)

section \<open>One iteration of the loop\<close>

text \<open>The query for free space is exact, beside the contract of the queue class.\<close>

definition mq_room :: "'q mq_ops \<Rightarrow> ('q \<Rightarrow> bool) \<Rightarrow> ('q \<Rightarrow> bytes) \<Rightarrow> ('q \<Rightarrow> nat) \<Rightarrow> bool" where
  "mq_room M good contents limit \<longleftrightarrow>
     (\<forall>q. good q \<longrightarrow> unat (mq_availableToWrite M q) = limit q - length (contents q))"

lemma list_mq_room: "mq_room list_mq list_mq_good snd fst"
  by (auto simp: mq_room_def list_mq_def list_mq_good_def simp del: of_nat_diff)

lemma iteration_cases:
  assumes M: "mq_contract M good contents limit b" and room: "mq_room M good contents limit"
    and s: "good (ctx_inputFmq s)" "good (ctx_outputFmq s)"
    and n: "n = unat (hidl_buffer_size (ctx_config s))" and buf: "length ib = n" "length ob = n"
  obtains (waits) "loop_iteration M s ib ob = Some (s, ib, ob)" and "length (contents (ctx_inputFmq s)) < n"
    | (drops) a x where "loop_iteration M s ib ob = Some (s\<lparr>ctx_inputFmq := a\<rparr>, x, x)" and "x = take n (contents (ctx_inputFmq s))"
        and "length x = n" and "good a" and "contents a = drop n (contents (ctx_inputFmq s))" and "limit a = limit (ctx_inputFmq s)"
        and "limit (ctx_outputFmq s) < length (contents (ctx_outputFmq s)) + n"
    | (moves) a q x where "loop_iteration M s ib ob = Some (s\<lparr>ctx_inputFmq := a, ctx_outputFmq := q\<rparr>, x, x)"
        and "x = take n (contents (ctx_inputFmq s))" and "length x = n"
        and "good a" and "contents a = drop n (contents (ctx_inputFmq s))" and "limit a = limit (ctx_inputFmq s)"
        and "good q" and "contents q = contents (ctx_outputFmq s) @ x" and "limit q = limit (ctx_outputFmq s)"
proof -
  let ?sz = "ucast (hidl_buffer_size (ctx_config s)) :: u64"
  let ?in = "contents (ctx_inputFmq s)" and ?out = "contents (ctx_outputFmq s)"
  have sz: "unat ?sz = n" using n by simp
  have avail: "mq_availableToRead M (ctx_inputFmq s) < ?sz \<longleftrightarrow> length ?in < n"
    unfolding word_less_nat_alt mq_contractD(2) [OF M s(1)] sz ..
  show thesis
  proof (cases "length ?in < n")
    case True
    then show thesis using waits avail by (simp add: loop_iteration_def)
  next
    case False
    let ?x = "take n ?in"
    have "unat ?sz \<le> length ?in" using False sz by simp
    from mq_contractD(5) [OF M s(1) this] obtain a where r: "mq_read M (ctx_inputFmq s) ?sz = Some (?x, a)" "good a"
        "limit a = limit (ctx_inputFmq s)" "contents a = drop n ?in" unfolding sz by blast
    have len: "length ?x = n" using False by simp
    have st: "mem_store ib 0 ?x = Some ?x" using len buf by (simp add: mem_simps blit_0)
    have cp: "memcpy ob 0 ?x 0 (unat ?sz) = Some ?x" unfolding sz using len buf by (simp add: mem_simps blit_0)
    have ld: "mem_load ?x 0 (unat ?sz) = Some ?x" unfolding sz using len by (simp add: mem_simps)
    have "unat (mq_availableToWrite M (ctx_outputFmq s)) = limit (ctx_outputFmq s) - length ?out"
      using room s(2) by (simp add: mq_room_def)
    then have sp: "mq_availableToWrite M (ctx_outputFmq s) < ?sz \<longleftrightarrow> limit (ctx_outputFmq s) - length ?out < n"
      unfolding word_less_nat_alt sz by simp
    show thesis
    proof (cases "limit (ctx_outputFmq s) - length ?out < n")
      case True
      have "limit (ctx_outputFmq s) < length ?out + n" using True mq_contractD(1) [OF M s(2)] by linarith
      then show thesis
        using drops [OF _ refl len r(2,4,3)] avail False r(1) st cp sp True by (simp add: loop_iteration_def)
    next
      case room: False
      then have "length ?out + length ?x \<le> limit (ctx_outputFmq s)"
        using mq_contractD(1) [OF M s(2)] unfolding len by linarith
      from mq_contractD(3) [OF M s(2) this] obtain q where w: "mq_write M (ctx_outputFmq s) ?x = (True, q)" "good q"
          "limit q = limit (ctx_outputFmq s)" "contents q = ?out @ ?x" by blast
      then show thesis
        using moves [OF _ refl len r(2,4,3) w(2,4,3)] avail False r(1) st cp ld sp room by (simp add: loop_iteration_def)
    qed
  qed
qed

lemma loop_step_ok:
  assumes M: "mq_contract M good contents limit b" and room: "mq_room M good contents limit"
    and ok: "ctx_ok good s" and t: "processingLoop M s k = Some (s', k')"
  shows "ctx_step good b s k s' k'"
proof (cases "processingThread s")
  case Starting
  then obtain th where e: "loop_enter s k = Some (th, k')" "s' = s\<lparr>processingThread := th\<rparr>"
    using t by (auto simp: processingLoop_def split: Option.bind_splits)
  from e(1) show ?thesis
    by (cases rule: loop_enter_cases) (use e(2) ok Starting in \<open>auto simp: ctx_step_def ctx_ok_def ctx_blocks_def\<close>)
next
  case (Running ib ob)
  let ?n = "unat (hidl_buffer_size (ctx_config s))"
  have s: "good (ctx_inputFmq s)" "good (ctx_outputFmq s)" "ctx_running s" "length ib = ?n" "length ob = ?n"
    using ok Running by (auto simp: ctx_ok_def)
  obtain s1 x y where it: "loop_iteration M s ib ob = Some (s1, x, y)" "good (ctx_inputFmq s1)" "good (ctx_outputFmq s1)"
      "ctx_running s1" "ctx_config s1 = ctx_config s" "length x = ?n" "length y = ?n"
    by (cases rule: iteration_cases [OF M room s(1,2) refl s(4,5)]) (use s in auto)
  have k: "s' = s1\<lparr>processingThread := Running x y\<rparr>" "k' = k" using t Running s(3) it(1) by (auto simp: processingLoop_def)
  have "x = [] \<longleftrightarrow> ib = []" "y = [] \<longleftrightarrow> ob = []" using it(6,7) s(4,5) by auto
  then have "ctx_blocks b s' = ctx_blocks b s" using Running by (simp add: ctx_blocks_def k(1))
  then show ?thesis using it by (simp add: ctx_step_def ctx_ok_def k)
qed (use t ok in \<open>auto simp: processingLoop_def ctx_step_def\<close>)

lemma loop_stuck:
  assumes M: "mq_contract M good contents limit b" and room: "mq_room M good contents limit"
    and ok: "ctx_ok good s" and t: "processingLoop M s k = None"
  shows "processingThread s = Starting \<and> loop_enter s k = None"
proof (cases "processingThread s")
  case Starting
  then show ?thesis using t by (auto simp: processingLoop_def split: Option.bind_splits)
next
  case (Running ib ob)
  let ?n = "unat (hidl_buffer_size (ctx_config s))"
  have s: "good (ctx_inputFmq s)" "good (ctx_outputFmq s)" "ctx_running s" "length ib = ?n" "length ob = ?n"
    using ok Running by (auto simp: ctx_ok_def)
  show ?thesis
    by (cases rule: iteration_cases [OF M room s(1,2) refl s(4,5)]) (use t s(3) Running in \<open>auto simp: processingLoop_def\<close>)
qed (use t in \<open>auto simp: processingLoop_def\<close>)

section \<open>The methods keep the service in order\<close>

definition new_context :: "u32 \<Rightarrow> HidlEffectType \<Rightarrow> AudioConfig \<Rightarrow> 'q \<Rightarrow> 'q \<Rightarrow> 'q EffectSessionContext" where
  "new_context sid kind cfg a q = \<lparr>ctx_sessionId = sid, ctx_effectType = kind, ctx_config = cfg,
     ctx_inputFmq = a, ctx_outputFmq = q, processingThread = Not_Joinable, ctx_running = False\<rparr>"

text \<open>Opening up to the table: a failure with the heap as before, or a new context.\<close>

lemma hidl_open_cases:
  assumes M: "mq_contract M good contents limit b"
  obtains (refuses) r k' where "EffectService_open M kind cfg svc k = Some (r, svc, k')" and "heap_blocks k' = heap_blocks k"
      and "r = Inl Bad_Alloc \<or> r = Inr (ERROR_NO_MEMORY, 0, None)"
    | (stores) a q k1 where "good a" and "good q" and "contents a = []" and "contents q = []"
      and "heap_blocks k1 = heap_blocks k + 2 * b + 1"
      and "EffectService_open M kind cfg svc k = do {
        (r, svc', k) \<leftarrow> store_session M (new_context (mNextSessionId svc) kind cfg a q)
          (svc\<lparr>mNextSessionId := mNextSessionId svc + 1\<rparr>) k1;
        Some (case r of Inl e \<Rightarrow> Inl e | Inr _ \<Rightarrow> Inr (OK, mNextSessionId svc, Some (a, q)), svc', k) }"
proof -
  note D = mq_contractD [OF M]
  obtain ma k1 where a: "mq_new M 1048576 k = (ma, k1)" by fastforce
  show thesis
  proof (cases ma)
    case None
    then show thesis using D(8) [OF a] a by (intro refuses [of _ k1]) (auto simp: EffectService_open_def)
  next
    case A: (Some a')
    have k1: "heap_blocks k1 = heap_blocks k + b" using D(8) [OF a] A by auto
    show thesis
    proof (cases "mq_isValid M a'")
      case False
      then show thesis using a A k1 D(9) by (intro refuses [of _ "mq_delete M a' k1"]) (auto simp: EffectService_open_def)
    next
      case va: True
      obtain mq k2 where q: "mq_new M 1048576 k1 = (mq, k2)" by fastforce
      note ctx = EffectService_open_def a A va q
      show thesis
      proof (cases mq)
        case None
        then show thesis using D(8) [OF q] k1 D(9) by (intro refuses [of _ "mq_delete M a' k2"]) (auto simp: ctx)
      next
        case Q: (Some q')
        have k2: "heap_blocks k2 = heap_blocks k + 2 * b" using D(8) [OF q] Q k1 by auto
        show thesis
        proof (cases "mq_isValid M q'")
          case False
          then show thesis using k2 D(9) Q by (intro refuses [of _ "mq_delete M a' (mq_delete M q' k2)"]) (auto simp: ctx)
        next
          case vq: True
          have g: "good a'" "contents a' = []" "good q'" "contents q' = []"
            using D(7) a A va q Q vq by blast+
          obtain ok k3 where h: "heap_alloc k2 = (ok, k3)" by fastforce
          from h show thesis
          proof (cases rule: heap_alloc_cases)
            case (fails fs)
            then show thesis using k2 D(9) Q vq h by (intro refuses [of _ "mq_delete M a' (mq_delete M q' k3)"]) (auto simp: ctx)
          next
            case (allocates fs)
            then show thesis
              using g k2 Q vq h by (intro stores [of a' q' k3]) (auto simp: ctx new_context_def Let_def)
          qed
        qed
      qed
    qed
  qed
qed

lemma new_context_ok: "good a \<Longrightarrow> good q \<Longrightarrow> ctx_ok good (new_context sid kind cfg a q)"
  by (simp add: new_context_def ctx_ok_def)

lemma new_context_fields [simp]:
  "ctx_sessionId (new_context sid kind cfg a q) = sid" "ctx_blocks b (new_context sid kind cfg a q) = 2 * b + 2"
  "processingThread (new_context sid kind cfg a q) = Not_Joinable"
  by (simp_all add: new_context_def ctx_blocks_def)

lemma delete_context:
  assumes "mq_contract M good contents limit b" and "processingThread s = Not_Joinable"
  shows "\<exists>k'. context_delete M s k = Some k' \<and> heap_blocks k' = heap_blocks k - (2 * b + 1)"
  using mq_contractD(9) [OF assms(1)] assms(2) by (simp add: context_delete_def heap_free_def)

text \<open>While identifiers have not wrapped around, a new one is not in use.\<close>

lemma open_ok:
  assumes M: "mq_contract M good contents limit b" and ok: "hidl_ok good b h c svc k" and c: "c + 1 < 2 ^ 32"
  shows "\<exists>r svc' k'. EffectService_open M kind cfg svc k = Some (r, svc', k') \<and> hidl_ok good b h (c + 1) svc' k'"
proof (cases rule: hidl_open_cases [OF M, of kind cfg svc k, case_names refuses stores])
  case (refuses r k')
  then show ?thesis using ok by (auto simp: hidl_ok_def)
next
  case (stores a q k1)
  let ?sid = "mNextSessionId svc" and ?xs = "mSessions svc"
  let ?s = "new_context ?sid kind cfg a q"
  have nxt: "unat (?sid + 1) = unat ?sid + 1" using ok c by (auto simp: hidl_ok_def unat_word_ariths)
  have fresh: "?sid \<notin> fst ` set ?xs" using ok by (auto simp: hidl_ok_def)
  then have none: "map_of ?xs ?sid = None" by (simp add: map_of_eq_None_iff)
  obtain ok2 k2 where al: "heap_alloc k1 = (ok2, k2)" by fastforce
  have lt: "i < ?sid + 1" if "i < ?sid" for i using that unfolding word_less_nat_alt nxt by simp
  have lt': "?sid < ?sid + 1" unfolding word_less_nat_alt nxt by simp
  from al show ?thesis
  proof (cases rule: heap_alloc_cases)
    case (fails fs)
    obtain k3 where "context_delete M ?s k2 = Some k3" "heap_blocks k3 = heap_blocks k2 - (2 * b + 1)"
      using delete_context [OF M, of ?s] by auto
    then show ?thesis
      using stores al fails none ok nxt lt by (auto simp: store_session_def hidl_ok_def)
  next
    case (allocates fs)
    have "heap_blocks k2 = h + total_blocks b (AList.update ?sid ?s ?xs)"
      using total_update_new [OF none] stores(5) allocates ok by (simp add: hidl_ok_def)
    moreover have "fst ` set (AList.update ?sid ?s ?xs) = insert ?sid (fst ` set ?xs)"
      by (simp add: dom_update)
    ultimately have "hidl_ok good b h (c + 1) (svc\<lparr>mNextSessionId := ?sid + 1, mSessions := AList.update ?sid ?s ?xs\<rparr>) k2"
      using ok nxt lt lt' new_context_ok [of good a q ?sid kind cfg] stores(1,2)
      by (auto simp: hidl_ok_def update_conv' distinct_update)
    then show ?thesis using stores(6) al allocates none by (simp add: store_session_def)
  qed
qed

lemma take_fault_blocks: "take_fault k = (b, k') \<Longrightarrow> heap_blocks k' = heap_blocks k"
  using take_fault_faults by fastforce

lemma start_ok:
  assumes ok: "hidl_ok good b h c svc k"
  shows "\<exists>r svc' k'. EffectService_start sid svc k = Some (r, svc', k') \<and> hidl_ok good b h c svc' k'"
proof (cases "map_of (mSessions svc) sid")
  case None
  then show ?thesis using ok by (simp add: EffectService_start_def)
next
  case (Some s)
  note s = session_ok [OF ok Some]
  show ?thesis
  proof (cases "ctx_running s")
    case True
    then show ?thesis using ok Some by (simp add: EffectService_start_def)
  next
    case False
    then have t: "processingThread s = Not_Joinable" using s by (auto simp: ctx_ok_def)
    obtain bad k1 where f: "take_fault k = (bad, k1)" by fastforce
    have "ctx_step good b s k (s\<lparr>ctx_running := True\<rparr>) k1"
      and "ctx_step good b s k (s\<lparr>ctx_running := True, processingThread := Starting\<rparr>) k1"
      using s t take_fault_blocks [OF f] by (auto simp: ctx_step_def ctx_ok_def ctx_blocks_def)
    from hidl_ok_update [OF ok Some this(1)] hidl_ok_update [OF ok Some this(2)] show ?thesis
      using Some False t f by (cases bad) (simp_all add: EffectService_start_def)
  qed
qed

lemma stop_ok:
  assumes ok: "hidl_ok good b h c svc k"
  shows "EffectService_stop sid svc k = Some (r, svc', k') \<Longrightarrow> hidl_ok good b h c svc' k'"
    and "EffectService_stop sid svc k = None \<Longrightarrow>
      \<exists>s. map_of (mSessions svc) sid = Some s \<and> processingThread s = Starting \<and> loop_enter s k = None"
proof -
  show "hidl_ok good b h c svc' k'" if r: "EffectService_stop sid svc k = Some (r, svc', k')"
  proof (cases "map_of (mSessions svc) sid")
    case (Some s)
    show ?thesis
    proof (cases "ctx_running s")
      case True
      then obtain s' where j: "thread_join (s\<lparr>ctx_running := False\<rparr>) k = Some (s', k')"
          "svc' = svc\<lparr>mSessions := AList.update sid s' (mSessions svc)\<rparr>"
        using r Some by (auto simp: EffectService_stop_def split: Option.bind_splits)
      from join_step [OF session_ok [OF ok Some] j(1)] hidl_ok_update [OF ok Some] show ?thesis
        unfolding j(2) by blast
    qed (use r Some ok in \<open>auto simp: EffectService_stop_def\<close>)
  qed (use r ok in \<open>auto simp: EffectService_stop_def\<close>)
  show "\<exists>s. map_of (mSessions svc) sid = Some s \<and> processingThread s = Starting \<and> loop_enter s k = None"
    if "EffectService_stop sid svc k = None"
    using that by (auto simp: EffectService_stop_def split: option.splits if_splits Option.bind_splits dest: join_stuck)
qed

lemma close_ok:
  assumes M: "mq_contract M good contents limit b" and ok: "hidl_ok good b h c svc k"
  shows "EffectService_close M sid svc k = Some (r, svc', k') \<Longrightarrow> hidl_ok good b h c svc' k'"
    and "EffectService_close M sid svc k = None \<Longrightarrow>
      \<exists>s. map_of (mSessions svc) sid = Some s \<and> processingThread s = Starting \<and> loop_enter s k = None"
proof -
  have del: "\<exists>k2. context_delete M s' k1 = Some k2 \<and>
      hidl_ok good b h c (svc\<lparr>mSessions := AList.delete sid (mSessions svc)\<rparr>) (heap_free k2)"
    if s: "map_of (mSessions svc) sid = Some s" and cl: "closeSession s k = Some (s', k1)" for s s' k1
  proof -
    have st: "ctx_step good b s k s' k1" "processingThread s' = Not_Joinable"
      using close_step [OF session_ok [OF ok s] cl] by blast+
    obtain k2 where k2: "context_delete M s' k1 = Some k2" "heap_blocks k2 = heap_blocks k1 - (2 * b + 1)"
      using delete_context [OF M st(2)] by blast
    have le: "ctx_blocks b s \<le> heap_blocks k" using total_member [OF s] ok by (auto simp: hidl_ok_def intro: trans_le_add2)
    have "total_blocks b (AList.delete sid (mSessions svc)) + ctx_blocks b s = total_blocks b (mSessions svc)"
      using ok by (intro total_delete [OF s]) (simp add: hidl_ok_def)
    moreover have "heap_blocks k1 + ctx_blocks b s = heap_blocks k + (2 * b + 2)"
      using st le by (simp add: ctx_step_def ctx_blocks_def)
    ultimately have "heap_blocks (heap_free k2) = h + total_blocks b (AList.delete sid (mSessions svc))"
      using ok k2(2) by (simp add: hidl_ok_def heap_free_def)
    moreover have "\<forall>i \<in> fst ` set (AList.delete sid (mSessions svc)). i < mNextSessionId svc"
    proof
      fix i assume "i \<in> fst ` set (AList.delete sid (mSessions svc))"
      then have "i \<in> fst ` set (mSessions svc)" using dom_delete_subset by (rule set_rev_mp)
      then show "i < mNextSessionId svc" using ok by (auto simp: hidl_ok_def)
    qed
    moreover have "ctx_ok good t" if "map_of (AList.delete sid (mSessions svc)) i = Some t" for i t
      using that session_ok [OF ok, of i] by (simp add: delete_conv' split: if_splits)
    moreover have "distinct (map fst (AList.delete sid (mSessions svc)))"
      using ok by (simp add: hidl_ok_def distinct_delete)
    moreover have "unat (mNextSessionId svc) \<le> c" using ok by (simp add: hidl_ok_def)
    ultimately have "hidl_ok good b h c (svc\<lparr>mSessions := AList.delete sid (mSessions svc)\<rparr>) (heap_free k2)"
      by (simp add: hidl_ok_def)
    then show ?thesis using k2(1) by blast
  qed
  show "hidl_ok good b h c svc' k'" if "EffectService_close M sid svc k = Some (r, svc', k')"
    using that del ok by (fastforce simp: EffectService_close_def split: option.splits Option.bind_splits)
  show "\<exists>s. map_of (mSessions svc) sid = Some s \<and> processingThread s = Starting \<and> loop_enter s k = None"
    if "EffectService_close M sid svc k = None"
    using that del by (fastforce simp: EffectService_close_def split: option.splits Option.bind_splits dest: close_stuck)
qed

lemma exec_ok:
  assumes M: "mq_contract M good contents limit b" "mq_room M good contents limit"
    and ok: "hidl_ok good b h c svc k" and c: "c + 1 < 2 ^ 32" and op: "hidl_op_ok good op"
    and e: "hidl_exec M op (svc, k) = Some (svc', k')"
  shows "hidl_ok good b h (c + 1) svc' k'"
proof -
  have up: "hidl_ok good b h c svc' k' \<Longrightarrow> hidl_ok good b h (c + 1) svc' k'" for svc' k' by (simp add: hidl_ok_mono)
  show ?thesis
  proof (cases op)
    case (Open kind cfg)
    then show ?thesis using open_ok [OF M(1) ok c, of kind cfg] e by auto
  next
    case (Start_Call sid)
    then show ?thesis using start_ok [OF ok, of sid] e up by auto
  next
    case (Stop_Call sid)
    then show ?thesis using stop_ok(1) [OF ok, of sid] e up by (auto split: Option.bind_splits)
  next
    case (Close sid)
    then show ?thesis using close_ok(1) [OF M(1) ok, of sid] e up by (auto split: Option.bind_splits)
  next
    case (Turn sid)
    show ?thesis
    proof (cases "map_of (mSessions svc) sid")
      case (Some s)
      then obtain s' where s': "processingLoop M s k = Some (s', k')"
          "svc' = svc\<lparr>mSessions := AList.update sid s' (mSessions svc)\<rparr>"
        using e Turn by (auto split: Option.bind_splits)
      show ?thesis
        unfolding s'(2) using hidl_ok_update [OF ok Some loop_step_ok [OF M session_ok [OF ok Some] s'(1)]] by (rule up)
    qed (use e Turn ok up in auto)
  next
    case (Use sid f)
    show ?thesis
    proof (cases "map_of (mSessions svc) sid")
      case (Some s)
      obtain a q where f: "f (ctx_inputFmq s, ctx_outputFmq s) = (a, q)" by fastforce
      have "ctx_step good b s k (s\<lparr>ctx_inputFmq := a, ctx_outputFmq := q\<rparr>) k"
        using op Use f session_ok [OF ok Some] by (auto simp: ctx_step_def ctx_ok_def ctx_blocks_def)
      from hidl_ok_update [OF ok Some this] show ?thesis using e Use Some f up by simp
    qed (use e Use ok up in auto)
  qed
qed

text \<open>What brings the service down: a starting thread without memory for its buffers.\<close>

lemma exec_stuck:
  assumes M: "mq_contract M good contents limit b" "mq_room M good contents limit"
    and ok: "hidl_ok good b h c svc k" and c: "c + 1 < 2 ^ 32"
    and e: "hidl_exec M op (svc, k) = None"
  shows "\<exists>i s. map_of (mSessions svc) i = Some s \<and> processingThread s = Starting \<and> loop_enter s k = None"
proof (cases op)
  case (Open kind cfg)
  then show ?thesis using open_ok [OF M(1) ok c, of kind cfg] e by auto
next
  case (Start_Call sid)
  then show ?thesis using start_ok [OF ok, of sid] e by auto
next
  case (Stop_Call sid)
  then show ?thesis using stop_ok(2) [OF ok, of sid] e by (auto split: Option.bind_splits)
next
  case (Close sid)
  then show ?thesis using close_ok(2) [OF M(1) ok, of sid] e by (auto split: Option.bind_splits)
next
  case (Turn sid)
  then obtain s where "map_of (mSessions svc) sid = Some s" "processingLoop M s k = None"
    using e by (auto split: option.splits Option.bind_splits)
  then show ?thesis using loop_stuck [OF M session_ok [OF ok]] by blast
next
  case (Use sid f)
  then show ?thesis using e by (auto split: option.splits prod.splits)
qed

lemma run_ok:
  assumes M: "mq_contract M good contents limit b" "mq_room M good contents limit"
    and "hidl_ok good b h c svc k" and "c + length ops < 2 ^ 32" and "list_all (hidl_op_ok good) ops"
    and "hidl_run M ops (svc, k) = Some (svc', k')"
  shows "hidl_ok good b h (c + length ops) svc' k'"
  using assms(3-)
proof (induction ops arbitrary: c svc k)
  case (Cons op ops)
  obtain svc1 k1 where e: "hidl_exec M op (svc, k) = Some (svc1, k1)" "hidl_run M ops (svc1, k1) = Some (svc', k')"
    using Cons.prems(4) by (auto split: Option.bind_splits)
  have "hidl_ok good b h (c + 1) svc1 k1"
    by (rule exec_ok [OF M Cons.prems(1) _ _ e(1)]) (use Cons.prems in auto)
  from Cons.IH [OF this _ _ e(2)] show ?case using Cons.prems by simp
qed simp

section \<open>Destroying the service\<close>

lemma close_all_ok:
  assumes "\<And>i s. (i, s) \<in> set xs \<Longrightarrow> ctx_ok good s" and "close_all xs k = Some (ys, k')"
    and "heap_blocks k = h + total_blocks b xs"
  shows "heap_blocks k' = h + total_blocks b ys \<and> (\<forall>(i, s) \<in> set ys. processingThread s = Not_Joinable)"
  using assms
proof (induction xs arbitrary: k ys h)
  case (Cons x xs)
  obtain i s where x: "x = (i, s)" by fastforce
  obtain s' k1 zs where c: "closeSession s k = Some (s', k1)" "close_all xs k1 = Some (zs, k')" "ys = (i, s') # zs"
    using Cons.prems(2) unfolding x by (auto split: Option.bind_splits)
  have s: "ctx_step good b s k s' k1" "processingThread s' = Not_Joinable"
    using close_step [OF Cons.prems(1) c(1)] x by auto
  then have "heap_blocks k1 = (h + ctx_blocks b s') + total_blocks b xs"
    using Cons.prems(3) x by (simp add: ctx_step_def)
  have "heap_blocks k' = (h + ctx_blocks b s') + total_blocks b zs \<and> (\<forall>(i, s) \<in> set zs. processingThread s = Not_Joinable)"
    by (rule Cons.IH [OF _ c(2) \<open>heap_blocks k1 = _\<close>]) (use Cons.prems(1) in auto)
  then show ?case using s(2) c(3) by simp
qed simp

lemma delete_all_ok:
  assumes M: "mq_contract M good contents limit b" and "\<forall>(i, s) \<in> set xs. processingThread s = Not_Joinable"
    and "heap_blocks k = h + total_blocks b xs"
  shows "\<exists>k'. delete_all M xs k = Some k' \<and> heap_blocks k' = h"
  using assms(2-)
proof (induction xs arbitrary: k)
  case (Cons x xs)
  obtain i s where x: "x = (i, s)" by fastforce
  have s: "processingThread s = Not_Joinable" using Cons.prems(1) x by auto
  obtain k1 where d: "context_delete M s k = Some k1" "heap_blocks k1 = heap_blocks k - (2 * b + 1)"
    using delete_context [OF M s] by blast
  have "heap_blocks (heap_free k1) = h + total_blocks b xs"
    using d(2) Cons.prems(2) s unfolding x by (simp add: heap_free_def ctx_blocks_def)
  from Cons.IH [OF _ this] show ?case using Cons.prems(1) d(1) x by simp
qed simp

lemma close_all_total:
  "\<forall>(i, s) \<in> set xs. processingThread s \<noteq> Starting \<Longrightarrow> close_all xs k \<noteq> None"
proof (induction xs arbitrary: k)
  case (Cons x xs)
  obtain i s where x: "x = (i, s)" by fastforce
  then obtain s' k1 where c: "closeSession s k = Some (s', k1)"
    using close_stuck [of s k] Cons.prems by (cases "closeSession s k") auto
  moreover obtain ys k2 where "close_all xs k1 = Some (ys, k2)" using Cons.IH [of k1] Cons.prems by auto
  ultimately show ?case by (simp add: x)
qed simp

text \<open>The thread-safety of the table itself is not a property of one method: calls are taken one at a
  time here, as a server with a single binder thread makes them. Theory \<open>Binder\<close> has several.\<close>

section \<open>A concrete service\<close>

definition tiny_config :: AudioConfig where
  "tiny_config = \<lparr>sampleRate = 48000, channels = 1, format = 16, framesPerBuffer = 1\<rparr>"

definition tiny_context :: "(nat \<times> bytes) EffectSessionContext" where
  "tiny_context = (new_context 7 NOISE_REDUCTION tiny_config (4, [1, 2, 3]) (4, []))
     \<lparr>processingThread := Running [0, 0] [0, 0], ctx_running := True\<rparr>"

section \<open>Properties\<close>


text \<open>A session is opened and started, its thread runs, and the service is destroyed meanwhile.\<close>

lemma tiny_run:
  "\<exists>svc k. hidl_run list_mq [Open NOISE_REDUCTION tiny_config, Start_Call 1, Turn 1, Turn 1]
      (EffectService_new, fresh_kernel []) = Some (svc, k) \<and> (\<forall>(i, s) \<in> set (mSessions svc). processingThread s \<noteq> Starting)"
proof -
  define q where "q = (1048576 :: nat, [] :: bytes)"
  define kh where "kh n = (fresh_kernel [])\<lparr>heap_blocks := n\<rparr>" for n
  define st where "st th r = \<lparr>mNextSessionId = 2, mSessions = [(1, (new_context 1 NOISE_REDUCTION tiny_config q q)
      \<lparr>processingThread := th, ctx_running := r\<rparr>)]\<rparr>" for th r
  have fk: "fresh_kernel [] = kh 0" by (simp add: kh_def fresh_kernel_def)
  have nf: "mq_new list_mq 1048576 (kh n) = (Some q, kh (Suc n))" "heap_alloc (kh n) = (True, kh (Suc n))"
      "take_fault (kh n) = (False, kh n)" for n
    by (simp_all add: kh_def list_mq_def heap_alloc_def take_fault_def fresh_kernel_def q_def)
  have sz: "unat (hidl_buffer_size tiny_config) = 2" by (simp add: hidl_buffer_size_def tiny_config_def)
  have vector: "vector_new 2 (kh n) = (Some [0, 0], kh (Suc n))" for n
    by (simp add: vector_new_def nf numeral_2_eq_2)
  have valid: "mq_isValid list_mq q" by (simp add: list_mq_def)
  have "hidl_exec list_mq (Open NOISE_REDUCTION tiny_config) (EffectService_new, kh 0) = Some (st Not_Joinable False, kh 4)"
    by (simp add: EffectService_new_def EffectService_open_def nf valid store_session_def Let_def st_def new_context_def
        numeral_eq_Suc)
  moreover have "hidl_exec list_mq (Start_Call 1) (st Not_Joinable False, kh 4) = Some (st Starting True, kh 4)"
    by (simp add: st_def EffectService_start_def nf new_context_def)
  moreover have "hidl_exec list_mq (Turn 1) (st Starting True, kh 4) = Some (st (Running [0, 0] [0, 0]) True, kh 6)"
    by (simp add: st_def processingLoop_def loop_enter_def vector new_context_def sz)
  moreover have "hidl_exec list_mq (Turn 1) (st (Running [0, 0] [0, 0]) True, kh 6) = Some (st (Running [0, 0] [0, 0]) True, kh 6)"
    by (simp add: st_def processingLoop_def loop_iteration_def new_context_def hidl_buffer_size_def tiny_config_def
        list_mq_def q_def)
  ultimately have "hidl_run list_mq [Open NOISE_REDUCTION tiny_config, Start_Call 1, Turn 1, Turn 1]
      (EffectService_new, fresh_kernel []) = Some (st (Running [0, 0] [0, 0]) True, kh 6)"
    by (simp only: fk hidl_run.simps Option.bind.simps)
  then show ?thesis by (auto simp: st_def)
qed


text \<open>Identifiers wrap around: when the next one belongs to a session whose thread is running, opening
  another session either fails for lack of memory or brings the whole service down.\<close>
theorem hidl_open_reuses_id:
  assumes "mq_contract M good contents limit b" and "map_of (mSessions svc) (mNextSessionId svc) = Some s"
    and "processingThread s \<noteq> Not_Joinable"
  shows "EffectService_open M kind cfg svc k = None \<or>
    (\<exists>r k'. EffectService_open M kind cfg svc k = Some (r, svc, k') \<and> (r = Inl Bad_Alloc \<or> r = Inr (ERROR_NO_MEMORY, 0, None)))"
proof (cases rule: hidl_open_cases [OF assms(1), of kind cfg svc k, case_names refuses stores])
  case (refuses r' k1)
  then show ?thesis by blast
next
  case (stores a q k1)
  have "store_session M (new_context (mNextSessionId svc) kind cfg a q) (svc\<lparr>mNextSessionId := mNextSessionId svc + 1\<rparr>) k1 = None"
    using assms(2,3) by (simp add: store_session_def context_delete_def)
  then show ?thesis using stores(6) by simp
qed

text \<open>Session \<open>7\<close> is running when the counter comes round to \<open>7\<close> again; there is memory.\<close>

theorem hidl_open_reuses_id_witness:
  "EffectService_open list_mq KARAOKE_NO_MIC tiny_config \<lparr>mNextSessionId = 7, mSessions = [(7, tiny_context)]\<rparr> (fresh_kernel []) = None"
proof -
  let ?svc = "\<lparr>mNextSessionId = 7, mSessions = [(7, tiny_context)]\<rparr>"
  have "EffectService_open list_mq KARAOKE_NO_MIC tiny_config ?svc (fresh_kernel []) \<noteq> Some (r, ?svc, k')"
    if "r = Inl Bad_Alloc \<or> r = Inr (ERROR_NO_MEMORY, 0, None)" for r k'
    using that by (auto simp: EffectService_open_def list_mq_def heap_alloc_def take_fault_def fresh_kernel_def
        store_session_def context_delete_def tiny_context_def Let_def)
  moreover have "processingThread tiny_context \<noteq> Not_Joinable" by (simp add: tiny_context_def)
  ultimately show ?thesis
    using hidl_open_reuses_id [OF list_mq_contract, of ?svc tiny_context KARAOKE_NO_MIC tiny_config "fresh_kernel []"] by fastforce
qed

text \<open>One iteration of the loop on a session in order either waits with nothing changed, or takes exactly
  one buffer, the oldest, from the input queue; the buffer goes unchanged to the end of the output queue,
  or is dropped, and then only because the output queue has no room for it.\<close>
theorem hidl_iteration_moves_one_buffer:
  assumes "mq_contract M good contents limit b" and "mq_room M good contents limit" and "ctx_ok good s"
    and "processingThread s = Running ib ob" and "n = unat (hidl_buffer_size (ctx_config s))"
  shows "\<exists>s'. processingLoop M s k = Some (s', k) \<and> ctx_ok good s' \<and>
    (if length (contents (ctx_inputFmq s)) < n then s' = s
     else contents (ctx_inputFmq s) = take n (contents (ctx_inputFmq s)) @ contents (ctx_inputFmq s') \<and>
       contents (ctx_outputFmq s') = contents (ctx_outputFmq s) @
         (if length (contents (ctx_outputFmq s)) + n \<le> limit (ctx_outputFmq s) then take n (contents (ctx_inputFmq s)) else []))"
proof -
  have s: "good (ctx_inputFmq s)" "good (ctx_outputFmq s)" "ctx_running s" "length ib = n" "length ob = n"
    using assms(3-5) by (auto simp: ctx_ok_def)
  show ?thesis
  proof (cases rule: iteration_cases [OF assms(1,2) s(1,2) assms(5) s(4,5), case_names waits drops moves])
    case waits
    then have "processingLoop M s k = Some (s\<lparr>processingThread := Running ib ob\<rparr>, k)"
      using assms(4) s(3) by (simp add: processingLoop_def)
    moreover have "s\<lparr>processingThread := Running ib ob\<rparr> = s" using assms(4) by simp
    ultimately show ?thesis using waits assms(3) by simp
  next
    case (drops a x)
    then show ?thesis using assms(3-5) s(3) by (auto simp: processingLoop_def ctx_ok_def)
  next
    case (moves a q x)
    have "length (contents q) \<le> limit q" by (rule mq_contractD(1) [OF assms(1) moves(7)])
    then show ?thesis using moves assms(3-5) s(3) by (auto simp: processingLoop_def ctx_ok_def)
  qed
qed

theorem hidl_iteration_moves_one_buffer_witness:
  "\<exists>s'. processingLoop list_mq tiny_context (fresh_kernel []) = Some (s', fresh_kernel []) \<and> snd (ctx_inputFmq s') = [3] \<and> snd (ctx_outputFmq s') = [1, 2]"
proof -
  have n: "unat (hidl_buffer_size (ctx_config tiny_context)) = 2"
    by (simp add: tiny_context_def new_context_def hidl_buffer_size_def tiny_config_def)
  have ok: "ctx_ok list_mq_good tiny_context"
    by (simp add: ctx_ok_def n) (simp add: tiny_context_def new_context_def list_mq_good_def)
  have t: "processingThread tiny_context = Running [0, 0] [0, 0]" by (simp add: tiny_context_def)
  show ?thesis
    using hidl_iteration_moves_one_buffer [OF list_mq_contract list_mq_room ok t n [symmetric], of "fresh_kernel []"]
    by (auto simp: tiny_context_def new_context_def)
qed

end
