(* ===== verification/HidlInterface.thy ===== *)
theory HidlInterface
  imports HidlService "HOL-Library.Sublist"
begin

text \<open>
  The interface \<open>hidl/1.0/IEffectService.hal\<close>: its requests and replies, what it promises as a table of
  sessions that knows no threads, queues or memory, and the service of theory \<open>HidlService\<close> behind it.
  A trace lists requests with their replies, turns of the sessions' threads and uses of the queues
  by the audio HAL, in any order.
\<close>

section \<open>Requests and replies\<close>

record EffectParam =
  param_key :: u32
  param_value :: bytes

datatype IEffectService = Ask_Open HidlEffectType AudioConfig | Ask_Start u32 | Ask_Stop u32 | Ask_Close u32
  | Ask_SetParam u32 EffectParam | Ask_State u32 | Ask_Stats u32

text \<open>\<open>'i\<close> is what stands for the queues in the reply to \<open>open\<close>.\<close>

datatype 'i hidl_reply = Opened HidlResult u32 'i | Answered HidlResult | State_Is HidlResult HidlState
  | Stats_Are HidlResult SessionStats

text \<open>The methods of the service behind the interface.\<close>

fun hidl_serve :: "'q mq_ops \<Rightarrow> IEffectService \<Rightarrow> 'q EffectService \<Rightarrow> kernel \<Rightarrow>
   ((hidl_exception + ('q \<times> 'q) option hidl_reply) \<times> 'q EffectService \<times> kernel) option" where
  "hidl_serve M (Ask_Open kind cfg) svc k = do {
     (r, svc, k) \<leftarrow> EffectService_open M kind cfg svc k;
     Some (map_sum id (\<lambda>(e, sid, info). Opened e sid info) r, svc, k) }"
| "hidl_serve M (Ask_Start sid) svc k = do {
     (r, svc, k) \<leftarrow> EffectService_start sid svc k;
     Some (map_sum id Answered r, svc, k) }"
| "hidl_serve M (Ask_Stop sid) svc k = do {
     (r, svc, k) \<leftarrow> EffectService_stop sid svc k;
     Some (Inr (Answered r), svc, k) }"
| "hidl_serve M (Ask_Close sid) svc k = do {
     (r, svc, k) \<leftarrow> EffectService_close M sid svc k;
     Some (Inr (Answered r), svc, k) }"
| "hidl_serve M (Ask_SetParam sid param) svc k = Some (Inr (Answered (EffectService_setParam sid svc)), svc, k)"
| "hidl_serve M (Ask_State sid) svc k = (case EffectService_queryState sid svc of (e, st) \<Rightarrow> Some (Inr (State_Is e st), svc, k))"
| "hidl_serve M (Ask_Stats sid) svc k = (case EffectService_queryStats sid svc of (e, st) \<Rightarrow> Some (Inr (Stats_Are e st), svc, k))"

section \<open>The promise\<close>

record session_view =
  view_kind :: HidlEffectType
  view_config :: AudioConfig
  view_started :: bool

record interface_state =
  table :: "u32 \<Rightarrow> session_view option"
  next_id :: u32

text \<open>What the table does not determine: whether there are queues, memory and threads to be had. An \<open>open\<close>
  that runs out of memory may have used up its identifier.\<close>

datatype luck = Well | No_Queue | Exhausted bool

text \<open>A request on a session that is not in the table.\<close>

fun refusal :: "IEffectService \<Rightarrow> bool hidl_reply" where
  "refusal (Ask_State sid) = State_Is ERROR_INVALID_ARGUMENTS ERROR"
| "refusal (Ask_Stats sid) = Stats_Are ERROR_INVALID_ARGUMENTS zero_stats"
| "refusal _ = Answered ERROR_INVALID_ARGUMENTS"

fun session_of :: "IEffectService \<Rightarrow> u32 option" where
  "session_of (Ask_Open kind cfg) = None"
| "session_of (Ask_Start sid) = Some sid"
| "session_of (Ask_Stop sid) = Some sid"
| "session_of (Ask_Close sid) = Some sid"
| "session_of (Ask_SetParam sid param) = Some sid"
| "session_of (Ask_State sid) = Some sid"
| "session_of (Ask_Stats sid) = Some sid"

definition spec_open ::
  "HidlEffectType \<Rightarrow> AudioConfig \<Rightarrow> luck \<Rightarrow> interface_state \<Rightarrow> (hidl_exception + bool hidl_reply) \<times> interface_state" where
  "spec_open kind cfg l st =
     (let sid = next_id st; used = st\<lparr>next_id := sid + 1\<rparr>
      in case l of
        Well \<Rightarrow> (Inr (Opened OK sid True),
          used\<lparr>table := (table st)(sid \<mapsto> \<lparr>view_kind = kind, view_config = cfg, view_started = False\<rparr>)\<rparr>)
      | No_Queue \<Rightarrow> (Inr (Opened ERROR_NO_MEMORY 0 False), st)
      | Exhausted u \<Rightarrow> (Inl Bad_Alloc, if u then used else st))"

text \<open>A session is started or it is not; the thread that could not be created leaves it started.\<close>

fun spec_session ::
  "IEffectService \<Rightarrow> luck \<Rightarrow> session_view \<Rightarrow> (hidl_exception + bool hidl_reply) \<times> session_view option" where
  "spec_session (Ask_Start sid) l v =
     (if view_started v then (Inr (Answered ERROR_INVALID_STATE), Some v)
      else (if l = Well then Inr (Answered OK) else Inl System_Error, Some (v\<lparr>view_started := True\<rparr>)))"
| "spec_session (Ask_Stop sid) l v =
     (if view_started v then (Inr (Answered OK), Some (v\<lparr>view_started := False\<rparr>))
      else (Inr (Answered ERROR_INVALID_STATE), Some v))"
| "spec_session (Ask_Close sid) l v = (Inr (Answered OK), None)"
| "spec_session (Ask_State sid) l v = (Inr (State_Is OK (if view_started v then STARTED else OPENED)), Some v)"
| "spec_session (Ask_Stats sid) l v = (Inr (Stats_Are OK zero_stats), Some v)"
| "spec_session _ l v = (Inr (Answered OK), Some v)"

definition spec_ask :: "IEffectService \<Rightarrow> luck \<Rightarrow> interface_state \<Rightarrow> (hidl_exception + bool hidl_reply) \<times> interface_state" where
  "spec_ask req l st =
     (case session_of req of
        None \<Rightarrow> (case req of Ask_Open kind cfg \<Rightarrow> spec_open kind cfg l st | _ \<Rightarrow> (Inr (refusal req), st))
      | Some sid \<Rightarrow>
          (case table st sid of
             None \<Rightarrow> (Inr (refusal req), st)
           | Some v \<Rightarrow> (case spec_session req l v of (r, v') \<Rightarrow> (r, st\<lparr>table := (table st)(sid := v')\<rparr>))))"

fun spec_asks :: "(IEffectService \<times> luck) list \<Rightarrow> interface_state \<Rightarrow> (hidl_exception + bool hidl_reply) list \<times> interface_state" where
  "spec_asks [] st = ([], st)"
| "spec_asks ((req, l) # reqs) st =
     (case spec_ask req l st of (r, st) \<Rightarrow> case spec_asks reqs st of (rs, st) \<Rightarrow> (r # rs, st))"

section \<open>Traces\<close>

datatype hidl_event = Ask IEffectService | Thread_Turn u32 | Put u32 bytes | Get u32 u64

datatype 'q hidl_outcome = Reply "hidl_exception + ('q \<times> 'q) option hidl_reply" | Turned | Put_Done bool | Got "bytes option"

text \<open>The audio HAL writes a session's input queue and reads its output queue; of a session that is not
  in the table nothing is followed.\<close>

definition on_session ::
  "u32 \<Rightarrow> 'q EffectService \<Rightarrow> 'a \<Rightarrow> ('q EffectSessionContext \<Rightarrow> ('a \<times> 'q EffectSessionContext \<times> kernel) option) \<Rightarrow> kernel \<Rightarrow>
   ('a \<times> 'q EffectService \<times> kernel) option" where
  "on_session sid svc d f k =
     (case map_of (mSessions svc) sid of
        None \<Rightarrow> Some (d, svc, k)
      | Some s \<Rightarrow> do { (x, s, k) \<leftarrow> f s; Some (x, svc\<lparr>mSessions := AList.update sid s (mSessions svc)\<rparr>, k) })"

fun hidl_happens :: "'q mq_ops \<Rightarrow> hidl_event \<Rightarrow> 'q EffectService \<Rightarrow> kernel \<Rightarrow> ('q hidl_outcome \<times> 'q EffectService \<times> kernel) option" where
  "hidl_happens M (Ask req) svc k = do { (r, svc, k) \<leftarrow> hidl_serve M req svc k; Some (Reply r, svc, k) }"
| "hidl_happens M (Thread_Turn sid) svc k =
     on_session sid svc Turned (\<lambda>s. do { (s, k) \<leftarrow> processingLoop M s k; Some (Turned, s, k) }) k"
| "hidl_happens M (Put sid xs) svc k =
     on_session sid svc (Put_Done False) (\<lambda>s. case mq_write M (ctx_inputFmq s) xs of
       (ok, q) \<Rightarrow> Some (Put_Done ok, s\<lparr>ctx_inputFmq := q\<rparr>, k)) k"
| "hidl_happens M (Get sid n) svc k =
     on_session sid svc (Got None) (\<lambda>s. case mq_read M (ctx_outputFmq s) n of
       None \<Rightarrow> Some (Got None, s, k)
     | Some (xs, q) \<Rightarrow> Some (Got (Some xs), s\<lparr>ctx_outputFmq := q\<rparr>, k)) k"

fun hidl_trace :: "'q mq_ops \<Rightarrow> hidl_event list \<Rightarrow> 'q EffectService \<Rightarrow> kernel \<Rightarrow> ('q hidl_outcome list \<times> 'q EffectService \<times> kernel) option" where
  "hidl_trace M [] svc k = Some ([], svc, k)"
| "hidl_trace M (e # es) svc k = do {
     (o1, svc, k) \<leftarrow> hidl_happens M e svc k;
     (os, svc, k) \<leftarrow> hidl_trace M es svc k;
     Some (o1 # os, svc, k) }"

text \<open>What of a trace is seen at the interface, and on the queues of one session.\<close>

fun requests :: "hidl_event list \<Rightarrow> IEffectService list" where
  "requests [] = []"
| "requests (Ask req # es) = req # requests es"
| "requests (_ # es) = requests es"

fun replies :: "'q hidl_outcome list \<Rightarrow> (hidl_exception + bool hidl_reply) list" where
  "replies [] = []"
| "replies (Reply r # os) = map_sum id (map_hidl_reply (\<lambda>i. i \<noteq> None)) r # replies os"
| "replies (_ # os) = replies os"

fun opened :: "(hidl_exception + bool hidl_reply) list \<Rightarrow> u32 list" where
  "opened [] = []"
| "opened (Inr (Opened OK sid i) # rs) = sid # opened rs"
| "opened (_ # rs) = opened rs"

fun put_bytes :: "u32 \<Rightarrow> hidl_event list \<Rightarrow> 'q hidl_outcome list \<Rightarrow> bytes" where
  "put_bytes sid (Put i xs # es) (Put_Done ok # os) = (if i = sid \<and> ok then xs else []) @ put_bytes sid es os"
| "put_bytes sid (_ # es) (_ # os) = put_bytes sid es os"
| "put_bytes sid _ _ = []"

fun got_bytes :: "u32 \<Rightarrow> hidl_event list \<Rightarrow> 'q hidl_outcome list \<Rightarrow> bytes" where
  "got_bytes sid (Get i n # es) (Got (Some xs) # os) = (if i = sid then xs else []) @ got_bytes sid es os"
| "got_bytes sid (_ # es) (_ # os) = got_bytes sid es os"
| "got_bytes sid _ _ = []"

section \<open>The service refines the promise\<close>

definition ctx_view :: "'q EffectSessionContext \<Rightarrow> session_view" where
  "ctx_view s = \<lparr>view_kind = ctx_effectType s, view_config = ctx_config s, view_started = ctx_running s\<rparr>"

definition service_view :: "'q EffectService \<Rightarrow> interface_state" where
  "service_view svc = \<lparr>table = map_option ctx_view \<circ> map_of (mSessions svc), next_id = mNextSessionId svc\<rparr>"

lemma service_view_update:
  "service_view (svc\<lparr>mSessions := AList.update sid s (mSessions svc)\<rparr>) =
     (service_view svc)\<lparr>table := (table (service_view svc))(sid \<mapsto> ctx_view s)\<rparr>"
  by (auto simp: service_view_def update_conv')

lemma service_view_delete:
  "service_view (svc\<lparr>mSessions := AList.delete sid (mSessions svc)\<rparr>) =
     (service_view svc)\<lparr>table := (table (service_view svc))(sid := None)\<rparr>"
  by (auto simp: service_view_def delete_conv')

lemma service_view_same:
  "map_of (mSessions svc) sid = Some s \<Longrightarrow> ctx_view s' = ctx_view s \<Longrightarrow>
   service_view (svc\<lparr>mSessions := AList.update sid s' (mSessions svc)\<rparr>) = service_view svc"
  by (auto simp: service_view_def update_conv')

lemma join_view: "thread_join s k = Some (s', k') \<Longrightarrow> ctx_view s' = ctx_view s"
  by (auto simp: thread_join_def ctx_view_def split: hidl_thread.splits Option.bind_splits)

lemma loop_view: "processingLoop M s k = Some (s', k') \<Longrightarrow> ctx_view s' = ctx_view s"
  by (auto simp: processingLoop_def loop_iteration_def ctx_view_def Let_def
      split: hidl_thread.splits Option.bind_splits if_splits option.splits prod.splits)

lemma store_session_cases:
  assumes "store_session M s svc k = Some (r, svc', k')"
  obtains "r = Inr ()" and "svc' = svc\<lparr>mSessions := AList.update (ctx_sessionId s) s (mSessions svc)\<rparr>"
  | "r = Inl Bad_Alloc" and "svc' = svc"
  using assms by (auto simp: store_session_def split: option.splits if_splits prod.splits Option.bind_splits)

lemma open_outcome:
  assumes "EffectService_open M kind cfg svc k = Some (r, svc', k')"
  obtains (opens) a b s where "r = Inr (OK, mNextSessionId svc, Some (a, b))"
      and "ctx_view s = \<lparr>view_kind = kind, view_config = cfg, view_started = False\<rparr>"
      and "svc' = (svc\<lparr>mNextSessionId := mNextSessionId svc + 1\<rparr>)\<lparr>mSessions := AList.update (mNextSessionId svc) s (mSessions svc)\<rparr>"
  | (no_queue) "r = Inr (ERROR_NO_MEMORY, 0, None)" and "svc' = svc"
  | (no_memory) "r = Inl Bad_Alloc" and "svc' = svc \<or> svc' = svc\<lparr>mNextSessionId := mNextSessionId svc + 1\<rparr>"
proof -
  obtain qa k1 where a: "mq_new M (1024 * 1024) k = (qa, k1)" by fastforce
  obtain qb k2 where b: "mq_new M (1024 * 1024) k1 = (qb, k2)" by fastforce
  obtain ok k3 where h: "heap_alloc k2 = (ok, k3)" by fastforce
  note run = assms [unfolded EffectService_open_def a]
  show thesis
  proof (cases "\<exists>x y. qa = Some x \<and> mq_isValid M x \<and> qb = Some y \<and> mq_isValid M y \<and> ok")
    case False
    then show thesis using run b h no_queue no_memory
      by (cases qa; cases qb; cases ok) (auto split: if_splits)
  next
    case True
    then obtain x y where xy: "qa = Some x" "mq_isValid M x" "qb = Some y" "mq_isValid M y" ok by blast
    let ?s = "\<lparr>ctx_sessionId = mNextSessionId svc, ctx_effectType = kind, ctx_config = cfg,
      ctx_inputFmq = x, ctx_outputFmq = y, processingThread = Not_Joinable, ctx_running = False\<rparr>"
    obtain r1 where st: "store_session M ?s (svc\<lparr>mNextSessionId := mNextSessionId svc + 1\<rparr>) k3 = Some (r1, svc', k')"
        "r = (case r1 of Inl e \<Rightarrow> Inl e | Inr _ \<Rightarrow> Inr (OK, mNextSessionId svc, Some (x, y)))"
      using run b h xy by (auto simp: Let_def split: Option.bind_splits)
    from st(1) show thesis
    proof (cases rule: store_session_cases)
      case 1
      then show thesis using st(2) by (intro opens [of x y ?s]) (simp_all add: ctx_view_def)
    next
      case 2
      then show thesis using st(2) by (intro no_memory) simp_all
    qed
  qed
qed

lemma open_refines:
  assumes "EffectService_open M kind cfg svc k = Some (r, svc', k')"
  shows "\<exists>l. spec_open kind cfg l (service_view svc) =
    (map_sum id (\<lambda>(e, sid, info). Opened e sid (info \<noteq> None)) r, service_view svc')"
proof -
  have used: "service_view (svc\<lparr>mNextSessionId := i\<rparr>) = (service_view svc)\<lparr>next_id := i\<rparr>" for i
    by (simp add: service_view_def)
  show ?thesis
    using assms
  proof (cases rule: open_outcome)
    case (opens a b s)
    then show ?thesis
      by (intro exI [of _ Well]) (auto simp: spec_open_def service_view_def update_conv' fun_eq_iff Let_def)
  next
    case no_queue
    then show ?thesis by (intro exI [of _ No_Queue]) (simp add: spec_open_def)
  next
    case no_memory
    from no_memory(2) show ?thesis
    proof
      assume "svc' = svc"
      then show ?thesis using no_memory(1) by (intro exI [of _ "Exhausted False"]) (simp add: spec_open_def)
    next
      assume "svc' = svc\<lparr>mNextSessionId := mNextSessionId svc + 1\<rparr>"
      then show ?thesis using no_memory(1)
        by (intro exI [of _ "Exhausted True"]) (simp add: spec_open_def used Let_def, simp add: service_view_def)
    qed
  qed
qed

lemma view_lookup: "table (service_view svc) sid = map_option ctx_view (map_of (mSessions svc) sid)"
  by (simp add: service_view_def)

lemma serve_refines:
  assumes "hidl_serve M req svc k = Some (r, svc', k')"
  shows "\<exists>l. spec_ask req l (service_view svc) =
    (map_sum id (map_hidl_reply (\<lambda>i. i \<noteq> None)) r, service_view svc')"
proof (cases req)
  case (Ask_Open kind cfg)
  then obtain r0 where o: "EffectService_open M kind cfg svc k = Some (r0, svc', k')"
      "r = map_sum id (\<lambda>(e, sid, info). Opened e sid info) r0"
    using assms by (auto split: Option.bind_splits)
  obtain l where "spec_open kind cfg l (service_view svc) =
      (map_sum id (\<lambda>(e, sid, info). Opened e sid (info \<noteq> None)) r0, service_view svc')"
    using open_refines [OF o(1)] by blast
  then show ?thesis
    by (intro exI [of _ l]) (cases r0; auto simp: spec_ask_def Ask_Open o(2))
next
  case (Ask_Start sid)
  show ?thesis
  proof (cases "map_of (mSessions svc) sid")
    case None
    then show ?thesis using assms Ask_Start by (auto simp: EffectService_start_def spec_ask_def view_lookup)
  next
    case (Some s)
    obtain bad k1 where f: "take_fault k = (bad, k1)" by fastforce
    let ?l = "if bad then No_Queue else Well"
    show ?thesis
      using assms Ask_Start Some f
      by (intro exI [of _ ?l])
        (auto simp: EffectService_start_def spec_ask_def view_lookup service_view_update ctx_view_def fun_upd_idem Let_def
          split: if_splits)
  qed
next
  case (Ask_Stop sid)
  show ?thesis
  proof (cases "map_of (mSessions svc) sid")
    case None
    then show ?thesis using assms Ask_Stop by (auto simp: EffectService_stop_def spec_ask_def view_lookup)
  next
    case (Some s)
    then show ?thesis
      using assms Ask_Stop
      by (auto simp: EffectService_stop_def spec_ask_def view_lookup service_view_update fun_upd_idem
          split: if_splits Option.bind_splits dest!: join_view) (auto simp: ctx_view_def fun_upd_idem view_lookup)
  qed
next
  case (Ask_Close sid)
  then show ?thesis
    using assms
    by (auto simp: EffectService_close_def spec_ask_def view_lookup service_view_delete
        split: option.splits Option.bind_splits)
next
  case (Ask_SetParam sid param)
  then show ?thesis using assms
    by (auto simp: EffectService_setParam_def spec_ask_def view_lookup fun_upd_idem split: option.splits)
next
  case (Ask_State sid)
  then show ?thesis using assms
    by (auto simp: EffectService_queryState_def spec_ask_def view_lookup fun_upd_idem ctx_view_def split: option.splits)
next
  case (Ask_Stats sid)
  then show ?thesis using assms
    by (auto simp: EffectService_queryStats_def spec_ask_def view_lookup fun_upd_idem split: option.splits if_splits)
qed

text \<open>Threads and the audio HAL are invisible at the interface.\<close>

lemma background_view:
  assumes "hidl_happens M e svc k = Some (out, svc', k')" and "\<And>req. e \<noteq> Ask req"
  shows "service_view svc' = service_view svc \<and> replies (out # os) = replies os"
proof -
  have view: "ctx_view (s\<lparr>ctx_inputFmq := a\<rparr>) = ctx_view s" "ctx_view (s\<lparr>ctx_outputFmq := a\<rparr>) = ctx_view s"
    for s :: "'a EffectSessionContext" and a by (simp_all add: ctx_view_def)
  show ?thesis
    using assms
    by (cases e) (auto simp: on_session_def view dest: loop_view split: option.splits Option.bind_splits prod.splits
      intro: service_view_same)
qed

lemma trace_refines:
  assumes "hidl_trace M es svc k = Some (os, svc', k')"
  shows "\<exists>ls. length ls = length (requests es) \<and>
    spec_asks (zip (requests es) ls) (service_view svc) = (replies os, service_view svc')"
  using assms
proof (induction es arbitrary: svc k os)
  case (Cons e es)
  obtain o1 svc1 k1 os1 where e: "hidl_happens M e svc k = Some (o1, svc1, k1)"
      "hidl_trace M es svc1 k1 = Some (os1, svc', k')" "os = o1 # os1"
    using Cons.prems by (auto split: Option.bind_splits)
  obtain ls where ls: "length ls = length (requests es)"
      "spec_asks (zip (requests es) ls) (service_view svc1) = (replies os1, service_view svc')"
    using Cons.IH [OF e(2)] by blast
  show ?case
  proof (cases "\<exists>req. e = Ask req")
    case True
    then obtain req r where r: "e = Ask req" "o1 = Reply r" "hidl_serve M req svc k = Some (r, svc1, k1)"
      using e(1) by (auto split: Option.bind_splits)
    obtain l where "spec_ask req l (service_view svc) = (map_sum id (map_hidl_reply (\<lambda>i. i \<noteq> None)) r, service_view svc1)"
      using serve_refines [OF r(3)] by blast
    then show ?thesis using ls r(1,2) e(3) by (intro exI [of _ "l # ls"]) simp
  next
    case False
    then have "requests (e # es) = requests es" by (cases e) auto
    then show ?thesis using background_view [OF e(1), of os1] False ls e(3) by auto
  qed
qed simp

section \<open>Identifiers\<close>

lemma spec_ask_ids:
  assumes "spec_ask req l st = (r, st')" and "unat (next_id st) + 1 < 2 ^ 32"
  shows "opened [r] = [] \<and> next_id st \<le> next_id st' \<and> unat (next_id st') \<le> unat (next_id st) + 1 \<and>
      (\<forall>i. table st' i \<noteq> None \<longrightarrow> table st i \<noteq> None) \<or>
    opened [r] = [next_id st] \<and> next_id st < next_id st' \<and> unat (next_id st') = unat (next_id st) + 1 \<and>
      (\<forall>i. table st' i \<noteq> None \<longrightarrow> table st i \<noteq> None \<or> i = next_id st)"
proof (cases req)
  case (Ask_Open kind cfg)
  have n: "unat (next_id st + 1) = unat (next_id st) + 1" using assms(2) by (simp add: unat_word_ariths)
  then have "next_id st < next_id st + 1" by (simp only: word_less_nat_alt)
  then show ?thesis
    using assms(1) n by (cases l) (auto simp: Ask_Open spec_ask_def spec_open_def Let_def less_imp_le split: if_splits)
qed (use assms(1) in \<open>auto simp: spec_ask_def split: option.splits if_splits\<close>)

lemma opened_Cons: "opened (r # rs) = opened [r] @ opened rs"
  by (cases "[r]" rule: opened.cases) simp_all

lemma spec_asks_ids:
  assumes "spec_asks rls st = (rs, st')" and "unat (next_id st) + length rls < 2 ^ 32"
  shows "sorted_wrt (<) (opened rs) \<and> (\<forall>i \<in> set (opened rs). next_id st \<le> i \<and> i < next_id st') \<and> next_id st \<le> next_id st' \<and>
    unat (next_id st') \<le> unat (next_id st) + length rls \<and>
    (\<forall>i. table st' i \<noteq> None \<longrightarrow> table st i \<noteq> None \<or> i \<in> set (opened rs))"
  using assms
proof (induction rls arbitrary: st rs)
  case (Cons rl rls)
  obtain req l where rl: "rl = (req, l)" by fastforce
  obtain r st1 where a: "spec_ask req l st = (r, st1)" by fastforce
  obtain rs1 where b: "spec_asks rls st1 = (rs1, st')" "rs = r # rs1"
    using Cons.prems(1) a rl by (auto split: prod.splits)
  have "unat (next_id st) + 1 < 2 ^ 32" using Cons.prems(2) by simp
  note one = spec_ask_ids [OF a this]
  then have "unat (next_id st1) + length rls < 2 ^ 32" using Cons.prems(2) by auto
  note rest = Cons.IH [OF b(1) this]
  have o1: "opened rs = opened [r] @ opened rs1" unfolding b(2) by (rule opened_Cons)
  from one show ?case
  proof (elim disjE conjE)
    assume "opened [r] = []" "next_id st \<le> next_id st1" "unat (next_id st1) \<le> unat (next_id st) + 1"
      "\<forall>i. table st1 i \<noteq> None \<longrightarrow> table st i \<noteq> None"
    then show ?thesis using rest o1 by (auto intro: order_trans)
  next
    assume 1: "opened [r] = [next_id st]" "next_id st < next_id st1" "unat (next_id st1) = unat (next_id st) + 1"
      "\<forall>i. table st1 i \<noteq> None \<longrightarrow> table st i \<noteq> None \<or> i = next_id st"
    have "next_id st < i" if "i \<in> set (opened rs1)" for i using rest that 1(2) by (meson order_less_le_trans)
    moreover have "next_id st < next_id st'" using rest 1(2) by (meson order_less_le_trans)
    moreover have "table st i \<noteq> None \<or> i \<in> set (opened rs)" if "table st' i \<noteq> None" for i
    proof -
      have "table st1 i \<noteq> None \<or> i \<in> set (opened rs1)" using that rest by blast
      then show ?thesis using 1(4) unfolding o1 1(1) by fastforce
    qed
    ultimately show ?thesis using rest 1(1-3) o1 by (auto intro: less_imp_le)
  qed
qed simp

lemma requests_length: "length (requests es) \<le> length es"
  by (induction es rule: requests.induct) auto

section \<open>Opening sessions where there is memory\<close>

definition kernel_at :: "nat \<Rightarrow> bool list \<Rightarrow> kernel" where
  "kernel_at n fs = (fresh_kernel fs)\<lparr>heap_blocks := n\<rparr>"

definition empty_mq :: "nat \<times> bytes" where
  "empty_mq = (1048576, [])"

lemma at_kernel [simp]:
  "heap_alloc (kernel_at n (False # fs)) = (True, kernel_at (Suc n) fs)"
  "take_fault (kernel_at n (b # fs)) = (b, kernel_at n fs)" "heap_blocks (kernel_at n fs) = n"
  by (simp_all add: kernel_at_def heap_alloc_def take_fault_def fresh_kernel_def)

lemma new_mq_at: "mq_new list_mq 1048576 (kernel_at n (False # fs)) = (Some empty_mq, kernel_at (Suc n) fs)"
  by (simp add: list_mq_def empty_mq_def)

lemma open_at:
  assumes "map_of (mSessions svc) (mNextSessionId svc) = None"
  shows "hidl_serve list_mq (Ask_Open kind cfg) svc (kernel_at n (False # False # False # False # fs)) =
    Some (Inr (Opened OK (mNextSessionId svc) (Some (empty_mq, empty_mq))),
      \<lparr>mNextSessionId = mNextSessionId svc + 1,
       mSessions = AList.update (mNextSessionId svc) (new_context (mNextSessionId svc) kind cfg empty_mq empty_mq) (mSessions svc)\<rparr>,
      kernel_at (n + 4) fs)"
proof -
  have valid: "mq_isValid list_mq empty_mq" by (simp add: list_mq_def)
  show ?thesis using assms
    by (simp add: EffectService_open_def new_mq_at valid store_session_def Let_def new_context_def numeral_eq_Suc)
qed

lemma two_opens:
  "\<exists>svc k q. hidl_trace list_mq [Ask (Ask_Open NOISE_REDUCTION tiny_config), Ask (Ask_Open KARAOKE_NO_MIC tiny_config)]
      EffectService_new (kernel_at 0 (replicate 8 False)) = Some ([Reply (Inr (Opened OK 1 q)), Reply (Inr (Opened OK 2 q))], svc, k)"
proof -
  define c where "c i kind = new_context i kind tiny_config empty_mq empty_mq" for i kind
  have "hidl_serve list_mq (Ask_Open NOISE_REDUCTION tiny_config) EffectService_new (kernel_at 0 (replicate 8 False)) =
      Some (Inr (Opened OK 1 (Some (empty_mq, empty_mq))), \<lparr>mNextSessionId = 2, mSessions = [(1, c 1 NOISE_REDUCTION)]\<rparr>,
        kernel_at 4 (replicate 4 False))"
    using open_at [of EffectService_new NOISE_REDUCTION tiny_config 0 "replicate 4 False"]
    by (simp add: EffectService_new_def c_def numeral_eq_Suc del: hidl_serve.simps)
  moreover have "hidl_serve list_mq (Ask_Open KARAOKE_NO_MIC tiny_config) \<lparr>mNextSessionId = 2, mSessions = [(1, c 1 NOISE_REDUCTION)]\<rparr>
        (kernel_at 4 (replicate 4 False)) =
      Some (Inr (Opened OK 2 (Some (empty_mq, empty_mq))),
        \<lparr>mNextSessionId = 3, mSessions = [(1, c 1 NOISE_REDUCTION), (2, c 2 KARAOKE_NO_MIC)]\<rparr>, kernel_at 8 [])"
    using open_at [of "\<lparr>mNextSessionId = 2, mSessions = [(1, c 1 NOISE_REDUCTION)]\<rparr>" KARAOKE_NO_MIC tiny_config 4 "[]"]
    by (simp add: c_def numeral_eq_Suc del: hidl_serve.simps)
  ultimately have "hidl_trace list_mq [Ask (Ask_Open NOISE_REDUCTION tiny_config), Ask (Ask_Open KARAOKE_NO_MIC tiny_config)]
      EffectService_new (kernel_at 0 (replicate 8 False)) =
      Some ([Reply (Inr (Opened OK 1 (Some (empty_mq, empty_mq)))), Reply (Inr (Opened OK 2 (Some (empty_mq, empty_mq))))],
        \<lparr>mNextSessionId = 3, mSessions = [(1, c 1 NOISE_REDUCTION), (2, c 2 KARAOKE_NO_MIC)]\<rparr>, kernel_at 8 [])"
    by (simp only: hidl_trace.simps hidl_happens.simps Option.bind.simps prod.case)
  then show ?thesis by blast
qed

section \<open>Properties\<close>


text \<open>A session is asked for its state, started, stopped and closed.\<close>

definition tiny_service :: "(nat \<times> bytes) EffectService" where
  "tiny_service = \<lparr>mNextSessionId = 8, mSessions = [(7, tiny_context)]\<rparr>"

lemma tiny_view:
  "service_view tiny_service =
     \<lparr>table = [7 \<mapsto> \<lparr>view_kind = NOISE_REDUCTION, view_config = tiny_config, view_started = True\<rparr>], next_id = 8\<rparr>"
  by (simp add: tiny_service_def service_view_def ctx_view_def tiny_context_def new_context_def fun_eq_iff)

lemma tiny_trace:
  "\<exists>svc' k'. hidl_trace list_mq [Ask (Ask_State 7), Ask (Ask_Stop 7), Ask (Ask_Stop 7), Ask (Ask_State 2)] tiny_service (fresh_kernel []) =
    Some ([Reply (Inr (State_Is OK STARTED)), Reply (Inr (Answered OK)), Reply (Inr (Answered ERROR_INVALID_STATE)),
      Reply (Inr (State_Is ERROR_INVALID_ARGUMENTS ERROR))], svc', k')"
  by (simp add: tiny_service_def EffectService_queryState_def EffectService_stop_def thread_join_def tiny_context_def new_context_def)


lemma new_view: "service_view EffectService_new = \<lparr>table = Map.empty, next_id = 1\<rparr>"
  by (simp add: service_view_def EffectService_new_def fun_eq_iff)

text \<open>C34. Session identifiers are unique, as the interface promises, while fewer than \<open>2 ^ 32 - 1\<close> events have
  happened: the identifiers that \<open>open\<close> returned grow strictly, \<open>0\<close>, which goes with errors, is none of them,
  and only sessions that were opened are in the service.\<close>

theorem hidl_ids_are_unique:
  assumes "hidl_trace M es EffectService_new k = Some (os, svc, k')" and "length es + 1 < 2 ^ 32"
  shows "sorted_wrt (<) (opened (replies os)) \<and> 0 \<notin> set (opened (replies os)) \<and>
    fst ` set (mSessions svc) \<subseteq> set (opened (replies os))"
proof -
  obtain ls where ls: "spec_asks (zip (requests es) ls) \<lparr>table = Map.empty, next_id = 1\<rparr> = (replies os, service_view svc)"
    using trace_refines [OF assms(1)] unfolding new_view by blast
  have "length (zip (requests es) ls) \<le> length es" using requests_length [of es] by simp
  then have "unat (next_id \<lparr>table = Map.empty, next_id = 1\<rparr>) + length (zip (requests es) ls) < 2 ^ 32" using assms(2) by simp
  note a = spec_asks_ids [OF ls this]
  have ids: "sorted_wrt (<) (opened (replies os))" "\<forall>i \<in> set (opened (replies os)). 1 \<le> i"
    using a by simp_all
  have tab: "i \<in> set (opened (replies os))" if "table (service_view svc) i \<noteq> None" for i
    using a that by simp
  have "\<not> (1 :: u32) \<le> 0" by (simp add: word_le_nat_alt)
  then have "0 \<notin> set (opened (replies os))" using ids(2) by blast
  moreover have "i \<in> set (opened (replies os))" if "i \<in> fst ` set (mSessions svc)" for i
    using that by (intro tab) (simp add: view_lookup map_of_eq_None_iff)
  ultimately show ?thesis using ids(1) by blast
qed

text \<open>Two sessions are opened where there is memory.\<close>

theorem hidl_ids_are_unique_witness:
  "\<exists>svc k q. hidl_trace list_mq [Ask (Ask_Open NOISE_REDUCTION tiny_config), Ask (Ask_Open KARAOKE_NO_MIC tiny_config)]
      EffectService_new (kernel_at 0 (replicate 8 False)) = Some ([Reply (Inr (Opened OK 1 q)), Reply (Inr (Opened OK 2 q))], svc, k) \<and>
    fst ` set (mSessions svc) \<subseteq> {1, 2}"
proof -
  obtain svc k q where t: "hidl_trace list_mq [Ask (Ask_Open NOISE_REDUCTION tiny_config), Ask (Ask_Open KARAOKE_NO_MIC tiny_config)]
      EffectService_new (kernel_at 0 (replicate 8 False)) = Some ([Reply (Inr (Opened OK 1 q)), Reply (Inr (Opened OK 2 q))], svc, k)"
    using two_opens by blast
  show ?thesis using hidl_ids_are_unique [OF t] t by auto
qed

end
