(* ===== verification/HidlStream.thy ===== *)
theory HidlStream
  imports HidlInterface
begin

text \<open>
  The audio of one session of the HIDL service over a trace: what the HAL got, what is still queued in the
  output and in the input queue, against what the HAL put in. Other sessions, whatever is asked of
  them, and stopping and starting the session itself do not touch it.
\<close>

section \<open>Every event keeps the service in order\<close>

lemma happens_ok:
  assumes M: "mq_contract M good contents limit b" "mq_room M good contents limit"
    and ok: "hidl_ok good b h c svc k" and c: "c + 1 < 2 ^ 32" and e: "hidl_happens M e svc k = Some (out, svc', k')"
  shows "hidl_ok good b h (c + 1) svc' k'"
proof -
  have same: "hidl_ok good b h (c + 1) svc k" using ok by (simp add: hidl_ok_mono)
  have op: "hidl_ok good b h (c + 1) svc' k'"
    if "hidl_exec M op (svc, k) = Some (svc', k')" "hidl_op_ok good op" for op
    by (rule exec_ok [OF M ok c that(2,1)])
  have put: "good (snd (mq_write M q xs))" if "good q" for q xs
    using mq_contractD(3,4) [OF M(1) that, of xs] that by (cases "length (contents q) + length xs \<le> limit q") auto
  have get: "good q'" if "good q" "mq_read M q n = Some (xs, q')" for q n xs q'
    using mq_contractD(5,6) [OF M(1) that(1), of n] that by (cases "unat n \<le> length (contents q)") auto
  show ?thesis
  proof (cases e)
    case (Ask req)
    then obtain r where r: "hidl_serve M req svc k = Some (r, svc', k')" using e by (auto split: Option.bind_splits)
    show ?thesis
    proof (cases req)
      case (Ask_Open kind cfg)
      then show ?thesis using r by (intro op [of "Open kind cfg"]) (auto split: Option.bind_splits)
    next
      case (Ask_Start sid)
      then show ?thesis using r by (intro op [of "Start_Call sid"]) (auto split: Option.bind_splits)
    next
      case (Ask_Stop sid)
      then show ?thesis using r by (intro op [of "Stop_Call sid"]) (auto split: Option.bind_splits)
    next
      case (Ask_Close sid)
      then show ?thesis using r by (intro op [of "Close sid"]) (auto split: Option.bind_splits)
    qed (use r same in \<open>auto split: prod.splits\<close>)
  next
    case (Thread_Turn sid)
    then show ?thesis using e
      by (intro op [of "Turn sid"]) (auto simp: on_session_def split: option.splits Option.bind_splits)
  next
    case (Put sid xs)
    then show ?thesis using e put
      by (intro op [of "Use sid (\<lambda>(a, q). (snd (mq_write M a xs), q))"])
        (auto simp: on_session_def split: option.splits prod.splits)
  next
    case (Get sid n)
    then show ?thesis using e get
      by (intro op [of "Use sid (\<lambda>(a, q). (a, case mq_read M q n of None \<Rightarrow> q | Some (xs, q) \<Rightarrow> q))"])
        (auto simp: on_session_def split: option.splits prod.splits)
  qed
qed

lemma trace_ok:
  assumes M: "mq_contract M good contents limit b" "mq_room M good contents limit"
    and "hidl_ok good b h c svc k" and "c + length es < 2 ^ 32" and "hidl_trace M es svc k = Some (os, svc', k')"
  shows "hidl_ok good b h (c + length es) svc' k'"
  using assms(3-)
proof (induction es arbitrary: c svc k os)
  case (Cons e es)
  obtain o1 svc1 k1 os1 where e: "hidl_happens M e svc k = Some (o1, svc1, k1)" "hidl_trace M es svc1 k1 = Some (os1, svc', k')"
    using Cons.prems(3) by (auto split: Option.bind_splits)
  have "hidl_ok good b h (c + 1) svc1 k1" by (rule happens_ok [OF M Cons.prems(1) _ e(1)]) (use Cons.prems in simp)
  from Cons.IH [OF this _ e(2)] show ?case using Cons.prems by simp
qed simp

section \<open>What an event does to one session\<close>

definition same_data :: "'q EffectSessionContext \<Rightarrow> 'q EffectSessionContext \<Rightarrow> bool" where
  "same_data s s' \<longleftrightarrow> ctx_inputFmq s' = ctx_inputFmq s \<and> ctx_outputFmq s' = ctx_outputFmq s \<and> ctx_config s' = ctx_config s"

lemma same_data_refl [simp]: "same_data s s"
  by (simp add: same_data_def)

lemma join_data: "thread_join (s\<lparr>ctx_running := r\<rparr>) k = Some (s', k') \<Longrightarrow> same_data s s'"
  by (auto simp: thread_join_def same_data_def split: hidl_thread.splits Option.bind_splits)

lemma request_data:
  assumes "hidl_serve M req svc k = Some (r, svc', k')" and s: "map_of (mSessions svc) sid = Some s"
    and "mNextSessionId svc \<noteq> sid" and "req \<noteq> Ask_Close sid"
  shows "\<exists>s'. map_of (mSessions svc') sid = Some s' \<and> same_data s s'"
proof (cases req)
  case (Ask_Open kind cfg)
  then obtain r0 where o: "EffectService_open M kind cfg svc k = Some (r0, svc', k')"
    using assms(1) by (auto split: Option.bind_splits)
  then show ?thesis by (cases rule: open_outcome) (use s assms(3) in \<open>auto simp: update_conv'\<close>)
next
  case (Ask_Start i)
  then show ?thesis using assms(1) s
    by (cases "i = sid") (auto simp: EffectService_start_def same_data_def update_conv' Let_def
      split: option.splits if_splits prod.splits Option.bind_splits)
next
  case (Ask_Stop i)
  then show ?thesis using assms(1) s
    by (cases "i = sid") (auto simp: EffectService_stop_def update_conv' dest: join_data
      split: option.splits if_splits Option.bind_splits)
next
  case (Ask_Close i)
  then show ?thesis using assms(1,4) s
    by (auto simp: EffectService_close_def delete_conv' split: option.splits Option.bind_splits)
qed (use assms(1) s in \<open>auto split: prod.splits\<close>)

lemma other_session:
  assumes "on_session i svc d f k = Some (x, svc', k')" and "i \<noteq> sid"
  shows "map_of (mSessions svc') sid = map_of (mSessions svc) sid"
  using assms by (auto simp: on_session_def update_conv' split: option.splits Option.bind_splits)

lemma this_session:
  assumes "on_session sid svc d f k = Some (x, svc', k')" and "map_of (mSessions svc) sid = Some s"
  obtains s' where "f s = Some (x, s', k')" and "map_of (mSessions svc') sid = Some s'"
  using assms by (auto simp: on_session_def update_conv' split: Option.bind_splits)

section \<open>Conservation\<close>

text \<open>What was put is, in order, what was got and what is queued, less \<open>j\<close> whole buffers of \<open>n\<close> bytes.\<close>

definition flow :: "nat \<Rightarrow> nat \<Rightarrow> bytes \<Rightarrow> bytes \<Rightarrow> bytes \<Rightarrow> bytes \<Rightarrow> bool" where
  "flow n j taken out_q in_q given \<longleftrightarrow> subseq (taken @ out_q @ in_q) given \<and>
     length (taken @ out_q @ in_q) + j * n = length given"

lemma flow_put: "flow n j x y z w \<Longrightarrow> flow n j x y (z @ v) (w @ v)"
  by (auto simp: flow_def simp flip: append_assoc intro: list_emb_append_mono)

lemma flow_get: "flow n j x (v @ y) z w \<Longrightarrow> flow n j (x @ v) y z w"
  by (simp add: flow_def)

lemma flow_move: "flow n j x y (v @ z) w \<Longrightarrow> flow n j x (y @ v) z w"
  by (simp add: flow_def)

lemma flow_drop: "flow n j x y (v @ z) w \<Longrightarrow> length v = n \<Longrightarrow> flow n (Suc j) x y z w"
  unfolding flow_def
  by (auto intro: subseq_order.order_trans [of "x @ y @ z" "x @ y @ v @ z"] list_emb_append_mono subseq_order.order_refl)

lemma flow_none_lost: "flow n 0 x y z w \<Longrightarrow> x @ y @ z = w"
  by (intro subseq_same_length) (auto simp: flow_def)

text \<open>One turn of the session's thread.\<close>

lemma turn_flow:
  assumes M: "mq_contract M good contents limit b" "mq_room M good contents limit" and ok: "ctx_ok good s"
    and t: "processingLoop M s k = Some (s', k')" and n: "n = unat (hidl_buffer_size (ctx_config s))"
    and f: "flow n j x (contents (ctx_outputFmq s)) (contents (ctx_inputFmq s)) w"
  shows "\<exists>j'. flow n j' x (contents (ctx_outputFmq s')) (contents (ctx_inputFmq s')) w \<and> ctx_config s' = ctx_config s"
proof (cases "processingThread s")
  case (Running ib ob)
  have s: "good (ctx_inputFmq s)" "good (ctx_outputFmq s)" "ctx_running s" "length ib = n" "length ob = n"
    using ok n by (auto simp: ctx_ok_def Running)
  have split: "contents (ctx_inputFmq s) = take n (contents (ctx_inputFmq s)) @ drop n (contents (ctx_inputFmq s))" by simp
  show ?thesis
  proof (cases rule: iteration_cases [OF M s(1,2) n s(4,5), case_names waits drops moves])
    case waits
    then show ?thesis using t Running s(3) f by (auto simp: processingLoop_def)
  next
    case (drops a v)
    then have "flow n (Suc j) x (contents (ctx_outputFmq s)) (contents a) w"
      using f split by (intro flow_drop [of n j _ _ v]) simp_all
    then show ?thesis using t Running s(3) drops(1) by (auto simp: processingLoop_def)
  next
    case (moves a q v)
    then have "flow n j x (contents q) (contents a) w"
      using f split flow_move [of n j x _ v] by simp
    then show ?thesis using t Running s(3) moves(1) by (auto simp: processingLoop_def)
  qed
qed (use t f in \<open>auto simp: processingLoop_def split: Option.bind_splits\<close>)

section \<open>Traces\<close>

lemma put_bytes_Cons: "put_bytes sid (e # es) (o1 # os) = put_bytes sid [e] [o1] @ put_bytes sid es os"
  by (cases e; cases o1) auto

lemma got_bytes_Cons: "got_bytes sid (e # es) (o1 # os) = got_bytes sid [e] [o1] @ got_bytes sid es os"
proof (cases o1)
  case (Got r)
  then show ?thesis by (cases e; cases r) auto
qed (cases e; simp)+

lemma got_bytes_other: "i \<noteq> sid \<Longrightarrow> got_bytes sid [Get i m] [o1] = []"
proof (cases o1)
  case (Got r)
  then show "i \<noteq> sid \<Longrightarrow> ?thesis" by (cases r) auto
qed auto

lemma event_flow:
  assumes M: "mq_contract M good contents limit b" "mq_room M good contents limit"
    and e: "hidl_happens M e svc k = Some (o1, svc', k')" and s: "map_of (mSessions svc) sid = Some s" "ctx_ok good s"
    and id: "mNextSessionId svc \<noteq> sid" "e \<noteq> Ask (Ask_Close sid)" and n: "n = unat (hidl_buffer_size (ctx_config s))"
    and f: "flow n j x (contents (ctx_outputFmq s)) (contents (ctx_inputFmq s)) w"
  shows "\<exists>s' j'. map_of (mSessions svc') sid = Some s' \<and> ctx_config s' = ctx_config s \<and>
    flow n j' (x @ got_bytes sid [e] [o1]) (contents (ctx_outputFmq s')) (contents (ctx_inputFmq s')) (w @ put_bytes sid [e] [o1])"
proof (cases e)
  case (Ask req)
  then obtain r where r: "hidl_serve M req svc k = Some (r, svc', k')" using e by (auto split: Option.bind_splits)
  have "req \<noteq> Ask_Close sid" using id(2) Ask by auto
  from request_data [OF r s(1) id(1) this] show ?thesis using f by (auto simp: Ask same_data_def)
next
  case (Thread_Turn i)
  show ?thesis
  proof (cases "i = sid")
    case True
    have "on_session sid svc Turned (\<lambda>s. do { (s, k) \<leftarrow> processingLoop M s k; Some (Turned, s, k) }) k = Some (o1, svc', k')"
      using e by (simp add: Thread_Turn True)
    from this s(1) obtain s' where "(do { (s, k) \<leftarrow> processingLoop M s k; Some (Turned, s, k) }) = Some (o1, s', k')"
        "map_of (mSessions svc') sid = Some s'"
      by (rule this_session)
    then show ?thesis using turn_flow [OF M s(2) _ n f, of k s' k'] by (auto simp: Thread_Turn split: Option.bind_splits)
  next
    case False
    then show ?thesis using e s(1) f other_session [of i svc _ _ k o1 svc' k' sid] by (auto simp: Thread_Turn)
  qed
next
  case (Put i xs)
  show ?thesis
  proof (cases "i = sid")
    case True
    obtain ok q where w: "mq_write M (ctx_inputFmq s) xs = (ok, q)" by fastforce
    have "contents q = contents (ctx_inputFmq s) @ (if ok then xs else [])"
      using s(2) w mq_contractD(3,4) [OF M(1), of "ctx_inputFmq s" xs]
      by (cases "length (contents (ctx_inputFmq s)) + length xs \<le> limit (ctx_inputFmq s)") (auto simp: ctx_ok_def)
    then show ?thesis
      using e s(1) f w flow_put [OF f, of xs] by (auto simp: Put True on_session_def update_conv')
  next
    case False
    then show ?thesis using e s(1) f other_session [of i svc _ _ k o1 svc' k' sid] by (cases o1) (auto simp: Put)
  qed
next
  case (Get i m)
  show ?thesis
  proof (cases "i = sid")
    case True
    have good: "good (ctx_outputFmq s)" using s(2) by (simp add: ctx_ok_def)
    show ?thesis
    proof (cases "mq_read M (ctx_outputFmq s) m")
      case None
      then show ?thesis using e s(1) f by (auto simp: Get True on_session_def update_conv')
    next
      case (Some xq)
      then obtain xs q where r: "mq_read M (ctx_outputFmq s) m = Some (xs, q)" by (cases xq) simp
      have "contents (ctx_outputFmq s) = xs @ contents q"
        using r mq_contractD(5,6) [OF M(1) good, of m] by (cases "unat m \<le> length (contents (ctx_outputFmq s))") auto
      then have "flow n j (x @ xs) (contents q) (contents (ctx_inputFmq s)) w" using f by (intro flow_get) simp
      then show ?thesis using e s(1) r by (auto simp: Get True on_session_def update_conv')
    qed
  next
    case False
    then show ?thesis using e s(1) f other_session [of i svc _ _ k o1 svc' k' sid]
      by (auto simp: Get got_bytes_other)
  qed
qed

lemma trace_flow:
  assumes M: "mq_contract M good contents limit b" "mq_room M good contents limit"
    and "hidl_ok good b h c svc k" and "c + length es < 2 ^ 32" and "hidl_trace M es svc k = Some (os, svc', k')"
    and "map_of (mSessions svc) sid = Some s" and "Ask (Ask_Close sid) \<notin> set es"
    and "n = unat (hidl_buffer_size (ctx_config s))"
    and "flow n j x (contents (ctx_outputFmq s)) (contents (ctx_inputFmq s)) w"
  shows "\<exists>s' j'. map_of (mSessions svc') sid = Some s' \<and> ctx_config s' = ctx_config s \<and>
    flow n j' (x @ got_bytes sid es os) (contents (ctx_outputFmq s')) (contents (ctx_inputFmq s')) (w @ put_bytes sid es os)"
  using assms(3-)
proof (induction es arbitrary: c svc k os s j x w)
  case Nil
  then show ?case by auto
next
  case (Cons e es)
  obtain o1 svc1 k1 os1 where e: "hidl_happens M e svc k = Some (o1, svc1, k1)" "hidl_trace M es svc1 k1 = Some (os1, svc', k')"
      "os = o1 # os1"
    using Cons.prems(3) by (auto split: Option.bind_splits)
  have "sid \<in> fst ` set (mSessions svc)" using Cons.prems(4) by (metis domI dom_map_of_conv_image_fst)
  then have fresh: "mNextSessionId svc \<noteq> sid" using Cons.prems(1) by (auto simp: hidl_ok_def)
  have ok1: "hidl_ok good b h (c + 1) svc1 k1" by (rule happens_ok [OF M Cons.prems(1) _ e(1)]) (use Cons.prems(2) in simp)
  have "e \<noteq> Ask (Ask_Close sid)" using Cons.prems(5) by auto
  from event_flow [OF M e(1) Cons.prems(4) session_ok [OF Cons.prems(1,4)] fresh this Cons.prems(6,7)]
  obtain s1 j1 where 1: "map_of (mSessions svc1) sid = Some s1" "ctx_config s1 = ctx_config s"
      "flow n j1 (x @ got_bytes sid [e] [o1]) (contents (ctx_outputFmq s1)) (contents (ctx_inputFmq s1)) (w @ put_bytes sid [e] [o1])"
    by blast
  have "\<exists>s' j'. map_of (mSessions svc') sid = Some s' \<and> ctx_config s' = ctx_config s1 \<and>
    flow n j' ((x @ got_bytes sid [e] [o1]) @ got_bytes sid es os1) (contents (ctx_outputFmq s')) (contents (ctx_inputFmq s'))
      ((w @ put_bytes sid [e] [o1]) @ put_bytes sid es os1)"
    by (rule Cons.IH [OF ok1 _ e(2) 1(1) _ _ 1(3)]) (use Cons.prems(2,5,6) 1(2) in auto)
  then show ?case
    unfolding e(3) put_bytes_Cons [of sid e es] got_bytes_Cons [of sid e es] 1(2) append_assoc .
qed

section \<open>A session that failed to start\<close>

text \<open>The session says it is started and has no thread.\<close>

definition stuck :: "u32 \<Rightarrow> 'q EffectService \<Rightarrow> bool" where
  "stuck sid svc \<longleftrightarrow> (\<exists>s. map_of (mSessions svc) sid = Some s \<and> ctx_running s \<and> processingThread s = Not_Joinable)"

lemma stuck_replies:
  assumes "stuck sid svc"
  shows "hidl_serve M (Ask_Start sid) svc k = Some (Inr (Answered ERROR_INVALID_STATE), svc, k)"
    and "hidl_serve M (Ask_State sid) svc k = Some (Inr (State_Is OK STARTED), svc, k)"
    and "hidl_happens M (Thread_Turn sid) svc k = Some (Turned, svc', k') \<Longrightarrow> map_of (mSessions svc') sid = map_of (mSessions svc) sid"
  using assms by (auto simp: stuck_def EffectService_start_def EffectService_queryState_def on_session_def processingLoop_def update_conv')

lemma request_stuck:
  assumes "hidl_serve M req svc k = Some (r, svc', k')" and "stuck sid svc"
    and "mNextSessionId svc \<noteq> sid" and "req \<noteq> Ask_Close sid" and "req \<noteq> Ask_Stop sid"
  shows "stuck sid svc'"
proof -
  obtain s where s: "map_of (mSessions svc) sid = Some s" "ctx_running s" "processingThread s = Not_Joinable"
    using assms(2) by (auto simp: stuck_def)
  show ?thesis
  proof (cases req)
    case (Ask_Open kind cfg)
    then obtain r0 where o: "EffectService_open M kind cfg svc k = Some (r0, svc', k')"
      using assms(1) by (auto split: Option.bind_splits)
    then show ?thesis by (cases rule: open_outcome) (use s assms(2,3) in \<open>auto simp: update_conv' stuck_def\<close>)
  next
    case (Ask_Start i)
    then show ?thesis using assms(1,2) s
      by (cases "i = sid") (auto simp: EffectService_start_def stuck_def update_conv' Let_def
        split: option.splits if_splits prod.splits Option.bind_splits)
  next
    case (Ask_Stop i)
    then show ?thesis using assms(1,2,5) s
      by (auto simp: EffectService_stop_def stuck_def update_conv' split: option.splits if_splits Option.bind_splits)
  next
    case (Ask_Close i)
    then show ?thesis using assms(1,2,4) s
      by (auto simp: EffectService_close_def stuck_def delete_conv' split: option.splits Option.bind_splits)
  qed (use assms(1,2) in \<open>auto split: prod.splits\<close>)
qed

lemma event_stuck:
  assumes "hidl_happens M e svc k = Some (o1, svc', k')" and "stuck sid svc"
    and "mNextSessionId svc \<noteq> sid" and "e \<noteq> Ask (Ask_Close sid)" and "e \<noteq> Ask (Ask_Stop sid)"
  shows "stuck sid svc'"
proof (cases "\<exists>req. e = Ask req")
  case True
  then obtain req r where r: "e = Ask req" "hidl_serve M req svc k = Some (r, svc', k')"
    using assms(1) by (auto split: Option.bind_splits)
  show ?thesis by (rule request_stuck [OF r(2) assms(2,3)]) (use assms(4,5) r(1) in auto)
next
  case False
  obtain s where s: "map_of (mSessions svc) sid = Some s" "ctx_running s" "processingThread s = Not_Joinable"
    using assms(2) by (auto simp: stuck_def)
  then show ?thesis using False assms(1)
    by (cases e) (auto simp: on_session_def stuck_def processingLoop_def update_conv' split: option.splits prod.splits Option.bind_splits)
qed

lemma trace_stuck:
  assumes M: "mq_contract M good contents limit b" "mq_room M good contents limit"
    and "hidl_ok good b h c svc k" and "c + length es < 2 ^ 32" and "hidl_trace M es svc k = Some (os, svc', k')"
    and "stuck sid svc" and "Ask (Ask_Close sid) \<notin> set es" and "Ask (Ask_Stop sid) \<notin> set es"
  shows "stuck sid svc'"
  using assms(3-)
proof (induction es arbitrary: c svc k os)
  case (Cons e es)
  obtain o1 svc1 k1 os1 where e: "hidl_happens M e svc k = Some (o1, svc1, k1)" "hidl_trace M es svc1 k1 = Some (os1, svc', k')"
    using Cons.prems(3) by (auto split: Option.bind_splits)
  have "sid \<in> fst ` set (mSessions svc)" using Cons.prems(4) by (metis stuck_def domI dom_map_of_conv_image_fst)
  then have fresh: "mNextSessionId svc \<noteq> sid" using Cons.prems(1) by (auto simp: hidl_ok_def)
  have ok1: "hidl_ok good b h (c + 1) svc1 k1" by (rule happens_ok [OF M Cons.prems(1) _ e(1)]) (use Cons.prems(2) in simp)
  have "stuck sid svc1" by (rule event_stuck [OF e(1) Cons.prems(4) fresh]) (use Cons.prems(5,6) in auto)
  from Cons.IH [OF ok1 _ e(2) this] show ?case using Cons.prems(2,5,6) by simp
qed simp

lemma new_ok: "hidl_ok good b (heap_blocks k) 1 EffectService_new k"
  by (simp add: hidl_ok_def EffectService_new_def)

lemma failed_start_stuck:
  assumes "hidl_serve M (Ask_Start sid) svc k = Some (Inl x, svc', k')" and ok: "hidl_ok good b h c svc k"
  shows "x = System_Error \<and> stuck sid svc'"
proof -
  obtain s where s: "map_of (mSessions svc) sid = Some s"
    using assms(1) by (cases "map_of (mSessions svc) sid") (auto simp: EffectService_start_def)
  then have "\<not> ctx_running s" using assms(1) by (auto simp: EffectService_start_def)
  then have "processingThread s = Not_Joinable" using session_ok [OF ok s] by (auto simp: ctx_ok_def)
  then show ?thesis
    using assms(1) s \<open>\<not> ctx_running s\<close>
    by (auto simp: EffectService_start_def stuck_def update_conv' Let_def split: prod.splits if_splits)
qed

section \<open>One session, opened, fed and started\<close>

definition one_session :: "bytes \<Rightarrow> bytes \<Rightarrow> hidl_thread \<Rightarrow> bool \<Rightarrow> (nat \<times> bytes) EffectService" where
  "one_session xs ys th r = \<lparr>mNextSessionId = 2, mSessions = [(1,
     (new_context 1 NOISE_REDUCTION tiny_config (1048576, xs) (1048576, ys))\<lparr>processingThread := th, ctx_running := r\<rparr>)]\<rparr>"

lemma one_session_opened:
  "hidl_trace list_mq [Ask (Ask_Open NOISE_REDUCTION tiny_config)] EffectService_new (kernel_at 0 (False # False # False # False # fs)) =
    Some ([Reply (Inr (Opened OK 1 (Some (empty_mq, empty_mq))))], one_session [] [] Not_Joinable False, kernel_at 4 fs)"
  using open_at [of EffectService_new NOISE_REDUCTION tiny_config 0 fs]
  by (simp add: EffectService_new_def one_session_def empty_mq_def new_context_def del: hidl_serve.simps)

lemma one_session_fed:
  "hidl_trace list_mq [Put 1 [1, 2, 3], Ask (Ask_Start 1), Thread_Turn 1, Thread_Turn 1, Get 1 2]
      (one_session [] [] Not_Joinable False) (kernel_at 4 ([False, False, False])) =
    Some ([Put_Done True, Reply (Inr (Answered OK)), Turned, Turned, Got (Some [1, 2])],
      one_session [3] [] (Running [1, 2] [1, 2]) True, kernel_at 6 [])"
proof -
  have vector_two: "vector_new 2 (kernel_at n (False # fs)) = (Some [0, 0], kernel_at (Suc n) fs)" for n fs
    by (simp add: vector_new_def numeral_2_eq_2)
  have sz: "hidl_buffer_size tiny_config = 2" by (simp add: hidl_buffer_size_def tiny_config_def)
  have "hidl_happens list_mq (Put 1 [1, 2, 3]) (one_session [] [] Not_Joinable False) (kernel_at 4 ([False, False, False])) =
      Some (Put_Done True, one_session [1, 2, 3] [] Not_Joinable False, kernel_at 4 ([False, False, False]))"
    by (simp add: one_session_def on_session_def new_context_def list_mq_def)
  moreover have "hidl_happens list_mq (Ask (Ask_Start 1)) (one_session [1, 2, 3] [] Not_Joinable False) (kernel_at 4 ([False, False, False])) =
      Some (Reply (Inr (Answered OK)), one_session [1, 2, 3] [] Starting True, kernel_at 4 ([False, False]))"
    by (simp add: one_session_def new_context_def EffectService_start_def)
  moreover have "hidl_happens list_mq (Thread_Turn 1) (one_session [1, 2, 3] [] Starting True) (kernel_at 4 ([False, False])) =
      Some (Turned, one_session [1, 2, 3] [] (Running [0, 0] [0, 0]) True, kernel_at 6 [])"
    by (simp add: one_session_def on_session_def new_context_def processingLoop_def loop_enter_def vector_two sz)
  moreover have "hidl_happens list_mq (Thread_Turn 1) (one_session [1, 2, 3] [] (Running [0, 0] [0, 0]) True) (kernel_at 6 []) =
      Some (Turned, one_session [3] [1, 2] (Running [1, 2] [1, 2]) True, kernel_at 6 [])"
    by (simp add: one_session_def on_session_def new_context_def processingLoop_def loop_iteration_def sz list_mq_def
        mem_store_def memcpy_def mem_load_def blit_def)
  moreover have "hidl_happens list_mq (Get 1 2) (one_session [3] [1, 2] (Running [1, 2] [1, 2]) True) (kernel_at 6 []) =
      Some (Got (Some [1, 2]), one_session [3] [] (Running [1, 2] [1, 2]) True, kernel_at 6 [])"
    by (simp add: one_session_def on_session_def new_context_def list_mq_def)
  ultimately show ?thesis by (simp only: hidl_trace.simps Option.bind.simps prod.case)
qed

lemma one_session_fails:
  "hidl_serve list_mq (Ask_Start 1) (one_session [] [] Not_Joinable False) (kernel_at 4 [True]) =
    Some (Inl System_Error, one_session [] [] Not_Joinable True, kernel_at 4 [])"
  by (simp add: one_session_def new_context_def EffectService_start_def)

section \<open>Properties\<close>

text \<open>C12. A session's audio survives everything else. After any trace of the service, take a session that is not
  closed in what follows: whatever is asked of it and of other sessions, however the threads and the HAL
  interleave, what the HAL got from its output queue, then what both its queues hold, is in order
  what they held and what the HAL put, except for whole buffers that found no room in the output queue;
  with none of those it is exactly that. Stopping and starting it loses nothing.\<close>

theorem hidl_stream_intact:
  assumes "mq_contract M good contents limit b" and "mq_room M good contents limit"
    and "hidl_trace M es1 EffectService_new k0 = Some (os1, svc, k)" and "hidl_trace M es2 svc k = Some (os2, svc', k')"
    and "length es1 + length es2 + 1 < 2 ^ 32" and "map_of (mSessions svc) sid = Some s"
    and "Ask (Ask_Close sid) \<notin> set es2"
  shows "\<exists>s' j. map_of (mSessions svc') sid = Some s' \<and>
    subseq (got_bytes sid es2 os2 @ contents (ctx_outputFmq s') @ contents (ctx_inputFmq s'))
      (contents (ctx_outputFmq s) @ contents (ctx_inputFmq s) @ put_bytes sid es2 os2) \<and>
    length (got_bytes sid es2 os2 @ contents (ctx_outputFmq s') @ contents (ctx_inputFmq s')) +
        j * unat (hidl_buffer_size (ctx_config s)) =
      length (contents (ctx_outputFmq s) @ contents (ctx_inputFmq s) @ put_bytes sid es2 os2) \<and>
    (j = 0 \<longrightarrow> got_bytes sid es2 os2 @ contents (ctx_outputFmq s') @ contents (ctx_inputFmq s') =
      contents (ctx_outputFmq s) @ contents (ctx_inputFmq s) @ put_bytes sid es2 os2)"
proof -
  let ?n = "unat (hidl_buffer_size (ctx_config s))"
  have ok: "hidl_ok good b (heap_blocks k0) (1 + length es1) svc k"
    by (rule trace_ok [OF assms(1,2) new_ok _ assms(3)]) (use assms(5) in simp)
  have f: "flow ?n 0 [] (contents (ctx_outputFmq s)) (contents (ctx_inputFmq s)) (contents (ctx_outputFmq s) @ contents (ctx_inputFmq s))"
    by (simp add: flow_def)
  obtain s' j where "map_of (mSessions svc') sid = Some s'"
    and f': "flow ?n j ([] @ got_bytes sid es2 os2) (contents (ctx_outputFmq s')) (contents (ctx_inputFmq s'))
      ((contents (ctx_outputFmq s) @ contents (ctx_inputFmq s)) @ put_bytes sid es2 os2)"
    using trace_flow [OF assms(1,2) ok _ assms(4,6,7) refl f] assms(5) by auto
  moreover have "got_bytes sid es2 os2 @ contents (ctx_outputFmq s') @ contents (ctx_inputFmq s') =
      contents (ctx_outputFmq s) @ contents (ctx_inputFmq s) @ put_bytes sid es2 os2" if "j = 0"
    using flow_none_lost [OF f' [unfolded that]] by simp
  ultimately show ?thesis unfolding flow_def by (intro exI [of _ s'] exI [of _ j]) simp
qed

text \<open>Three bytes are put into a fresh session, its thread starts, moves one buffer of two, which the HAL gets.\<close>

theorem hidl_stream_intact_witness:
  "\<exists>k0 svc k os1 os2 svc' k' s'. hidl_trace list_mq [Ask (Ask_Open NOISE_REDUCTION tiny_config)] EffectService_new k0 = Some (os1, svc, k) \<and>
    hidl_trace list_mq [Put 1 [1, 2, 3], Ask (Ask_Start 1), Thread_Turn 1, Thread_Turn 1, Get 1 2] svc k = Some (os2, svc', k') \<and>
    got_bytes 1 [Put 1 [1, 2, 3], Ask (Ask_Start 1), Thread_Turn 1, Thread_Turn 1, Get 1 2] os2 = [1, 2] \<and>
    map_of (mSessions svc') 1 = Some s' \<and> subseq ([1, 2] @ snd (ctx_outputFmq s') @ snd (ctx_inputFmq s')) [1, 2, 3]"
proof -
  let ?es = "[Put 1 [1, 2, 3], Ask (Ask_Start 1), Thread_Turn 1, Thread_Turn 1, Get 1 2]"
  let ?os = "[Put_Done True, Reply (Inr (Answered OK)), Turned, Turned, Got (Some [1, 2])] :: (nat \<times> bytes) hidl_outcome list"
  have put: "put_bytes 1 ?es ?os = [1, 2, 3]" and got: "got_bytes 1 ?es ?os = [1, 2]" by simp_all
  obtain s where s: "map_of (mSessions (one_session [] [] Not_Joinable False)) 1 = Some s"
      "snd (ctx_inputFmq s) = []" "snd (ctx_outputFmq s) = []"
    by (simp add: one_session_def new_context_def)
  have "length [Ask (Ask_Open NOISE_REDUCTION tiny_config)] + length ?es + 1 < (2 :: nat) ^ 32" "Ask (Ask_Close 1) \<notin> set ?es"
    by simp_all
  from hidl_stream_intact [OF list_mq_contract list_mq_room one_session_opened one_session_fed this(1) s(1) this(2)]
  obtain s' where "map_of (mSessions (one_session [3] [] (Running [1, 2] [1, 2]) True)) 1 = Some s'"
      "subseq ([1, 2] @ snd (ctx_outputFmq s') @ snd (ctx_inputFmq s')) [1, 2, 3]"
    unfolding put got s(2,3) by auto
  then show ?thesis using one_session_opened [of "[False, False, False]"] one_session_fed got by blast
qed

text \<open>C35. A session whose thread cannot be created is left saying that it is started. From then on, until it is
  stopped or closed, whatever else happens, starting it again is refused, its state is reported as
  started, and it has no thread that could process anything.\<close>

theorem hidl_failed_start_sticks:
  assumes "mq_contract M good contents limit b" and "mq_room M good contents limit"
    and "hidl_trace M es1 EffectService_new k0 = Some (os1, svc, k)"
    and "hidl_serve M (Ask_Start sid) svc k = Some (Inl x, svc1, k1)"
    and "hidl_trace M es2 svc1 k1 = Some (os2, svc2, k2)" and "length es1 + length es2 + 2 < 2 ^ 32"
    and "Ask (Ask_Close sid) \<notin> set es2" and "Ask (Ask_Stop sid) \<notin> set es2"
  shows "hidl_serve M (Ask_Start sid) svc2 k2 = Some (Inr (Answered ERROR_INVALID_STATE), svc2, k2) \<and>
    hidl_serve M (Ask_State sid) svc2 k2 = Some (Inr (State_Is OK STARTED), svc2, k2) \<and>
    (\<exists>s. map_of (mSessions svc2) sid = Some s \<and> processingThread s = Not_Joinable)"
proof -
  have ok: "hidl_ok good b (heap_blocks k0) (1 + length es1) svc k"
    by (rule trace_ok [OF assms(1,2) new_ok _ assms(3)]) (use assms(6) in simp)
  have "hidl_happens M (Ask (Ask_Start sid)) svc k = Some (Reply (Inl x), svc1, k1)"
    using assms(4) by (simp del: hidl_serve.simps)
  from happens_ok [OF assms(1,2) ok _ this] have ok1: "hidl_ok good b (heap_blocks k0) (1 + length es1 + 1) svc1 k1"
    using assms(6) by simp
  have "stuck sid svc1" using failed_start_stuck [OF assms(4) ok] by blast
  from trace_stuck [OF assms(1,2) ok1 _ assms(5) this assms(7,8)] have st: "stuck sid svc2"
    using assms(6) by simp
  then have "\<exists>s. map_of (mSessions svc2) sid = Some s \<and> processingThread s = Not_Joinable" by (auto simp: stuck_def)
  then show ?thesis using stuck_replies(1,2) [OF st] by blast
qed

text \<open>The start of a fresh session fails; two turns of a thread it does not have and a put follow.\<close>

theorem hidl_failed_start_sticks_witness:
  "\<exists>svc k. hidl_trace list_mq [Thread_Turn 1, Put 1 [1, 2], Thread_Turn 1] (one_session [] [] Not_Joinable True) (kernel_at 4 []) =
      Some ([Turned, Put_Done True, Turned], svc, k) \<and>
    hidl_serve list_mq (Ask_State 1) svc k = Some (Inr (State_Is OK STARTED), svc, k)"
proof -
  have t: "hidl_trace list_mq [Thread_Turn 1, Put 1 [1, 2], Thread_Turn 1] (one_session [] [] Not_Joinable True) (kernel_at 4 []) =
      Some ([Turned, Put_Done True, Turned], one_session [1, 2] [] Not_Joinable True, kernel_at 4 [])"
    by (simp add: one_session_def on_session_def new_context_def processingLoop_def list_mq_def)
  have "length [Ask (Ask_Open NOISE_REDUCTION tiny_config)] + length [Thread_Turn 1, Put 1 [1, 2], Thread_Turn 1] + 2 < (2 :: nat) ^ 32"
    "Ask (Ask_Close 1) \<notin> set [Thread_Turn 1, Put 1 [1, 2], Thread_Turn 1]"
    "Ask (Ask_Stop 1) \<notin> set [Thread_Turn 1, Put 1 [1, 2], Thread_Turn 1]"
    by simp_all
  from hidl_failed_start_sticks [OF list_mq_contract list_mq_room one_session_opened one_session_fails t this]
  show ?thesis using t by blast
qed

end
