(* ===== verification/Binder.thy ===== *)
theory Binder
  imports HidlStream
begin

text \<open>
  The methods \<open>start\<close>, \<open>stop\<close> and \<open>close\<close> of \<open>examples/hidl_service_fmq_example.cpp\<close> called from several
  binder threads: each method cut at its accesses to the table, the session's flag and its
  thread. An access is atomic here, which is more than the code gives; what goes wrong goes
  wrong nevertheless. Without interruption the pieces are the methods of theory \<open>HidlService\<close>.
\<close>

section \<open>The methods in pieces\<close>

datatype binder_op = Do_Start | Do_Stop | Do_Close

text \<open>What a call does next: look the session up, read its flag, set it, create the thread, clear the
  flag, ask whether the thread is joinable, join it, take the session out of the table; or how it ended.\<close>

datatype binder_phase = At_Find | At_Check | At_Set | At_Spawn | At_Clear | At_Joinable | At_Join | At_Erase
  | Returned HidlResult | Threw hidl_exception

definition after_join :: "binder_op \<Rightarrow> binder_phase" where
  "after_join op = (if op = Do_Close then At_Erase else Returned OK)"

text \<open>One piece, on the session that the call found. \<open>None\<close> is undefined behaviour (the session is not in the
  table any more, so the reference dangles) or \<open>std::terminate\<close>. A join waits while the flag is set, and
  throws when there is no thread left to join.\<close>

definition session_turn ::
  "'q mq_ops \<Rightarrow> binder_op \<Rightarrow> u32 \<Rightarrow> binder_phase \<Rightarrow> 'q EffectSessionContext \<Rightarrow> 'q EffectService \<Rightarrow> kernel \<Rightarrow>
   (binder_phase \<times> 'q EffectService \<times> kernel) option" where
  "session_turn M op sid ph s svc k =
     (let store = (\<lambda>s. svc\<lparr>mSessions := AList.update sid s (mSessions svc)\<rparr>)
      in case ph of
        At_Check \<Rightarrow> Some (case op of
            Do_Start \<Rightarrow> if ctx_running s then Returned ERROR_INVALID_STATE else At_Set
          | Do_Stop \<Rightarrow> if \<not> ctx_running s then Returned ERROR_INVALID_STATE else At_Clear
          | Do_Close \<Rightarrow> if ctx_running s then At_Clear else At_Erase, svc, k)
      | At_Set \<Rightarrow> Some (At_Spawn, store (s\<lparr>ctx_running := True\<rparr>), k)
      | At_Spawn \<Rightarrow>
          let (bad, k) = take_fault k
          in if bad then Some (Threw System_Error, svc, k)
             else if processingThread s \<noteq> Not_Joinable then None
             else Some (Returned OK, store (s\<lparr>processingThread := Starting\<rparr>), k)
      | At_Clear \<Rightarrow> Some (At_Joinable, store (s\<lparr>ctx_running := False\<rparr>), k)
      | At_Joinable \<Rightarrow> Some (if processingThread s \<noteq> Not_Joinable then At_Join else after_join op, svc, k)
      | At_Join \<Rightarrow>
          if processingThread s = Not_Joinable then Some (Threw System_Error, svc, k)
          else if ctx_running s then Some (At_Join, svc, k)
          else do { (s, k) \<leftarrow> thread_join s k; Some (after_join op, store s, k) }
      | At_Erase \<Rightarrow> do {
          k \<leftarrow> context_delete M s k;
          Some (Returned OK, svc\<lparr>mSessions := AList.delete sid (mSessions svc)\<rparr>, heap_free k) }
      | _ \<Rightarrow> Some (ph, svc, k))"

definition binder_turn ::
  "'q mq_ops \<Rightarrow> binder_op \<Rightarrow> u32 \<Rightarrow> binder_phase \<Rightarrow> 'q EffectService \<Rightarrow> kernel \<Rightarrow>
   (binder_phase \<times> 'q EffectService \<times> kernel) option" where
  "binder_turn M op sid ph svc k =
     (case ph of
        Returned r \<Rightarrow> Some (ph, svc, k)
      | Threw e \<Rightarrow> Some (ph, svc, k)
      | At_Find \<Rightarrow> Some (if map_of (mSessions svc) sid = None then Returned ERROR_INVALID_ARGUMENTS else At_Check, svc, k)
      | _ \<Rightarrow> (case map_of (mSessions svc) sid of None \<Rightarrow> None | Some s \<Rightarrow> session_turn M op sid ph s svc k))"

fun binder_turns ::
  "'q mq_ops \<Rightarrow> binder_op \<Rightarrow> u32 \<Rightarrow> nat \<Rightarrow> binder_phase \<Rightarrow> 'q EffectService \<Rightarrow> kernel \<Rightarrow>
   (binder_phase \<times> 'q EffectService \<times> kernel) option" where
  "binder_turns M op sid 0 ph svc k = Some (ph, svc, k)"
| "binder_turns M op sid (Suc n) ph svc k = do {
     (ph, svc, k) \<leftarrow> binder_turn M op sid ph svc k;
     binder_turns M op sid n ph svc k }"

text \<open>The method a call runs, and how it ends.\<close>

definition binder_method ::
  "'q mq_ops \<Rightarrow> binder_op \<Rightarrow> u32 \<Rightarrow> 'q EffectService \<Rightarrow> kernel \<Rightarrow> (binder_phase \<times> 'q EffectService \<times> kernel) option" where
  "binder_method M op sid svc k =
     (case op of
        Do_Start \<Rightarrow> do { (r, svc, k) \<leftarrow> EffectService_start sid svc k; Some (case r of Inl e \<Rightarrow> Threw e | Inr r \<Rightarrow> Returned r, svc, k) }
      | Do_Stop \<Rightarrow> do { (r, svc, k) \<leftarrow> EffectService_stop sid svc k; Some (Returned r, svc, k) }
      | Do_Close \<Rightarrow> do { (r, svc, k) \<leftarrow> EffectService_close M sid svc k; Some (Returned r, svc, k) })"

lemma finished_turns [simp]:
  "binder_turns M op sid n (Returned r) svc k = Some (Returned r, svc, k)"
  "binder_turns M op sid n (Threw e) svc k = Some (Threw e, svc, k)"
  by (induction n) (simp_all add: binder_turn_def)

lemma update_update [simp]: "AList.update i x (AList.update i y xs) = AList.update i x xs"
  by (induction xs) auto

lemma delete_update [simp]: "AList.delete i (AList.update i y xs) = AList.delete i xs"
  by (induction xs) auto

lemma map_of_update [simp]: "map_of (AList.update i x xs) i = Some x"
  by (simp add: update_conv')

lemma join_running: "thread_join (s\<lparr>ctx_running := r\<rparr>) k = Some (s', k') \<Longrightarrow> processingThread s' = Not_Joinable"
  by (auto simp: thread_join_def split: hidl_thread.splits Option.bind_splits)

lemma join_nothing: "processingThread s = Not_Joinable \<Longrightarrow> thread_join s k = Some (s, k)"
  by (simp add: thread_join_def)

lemma start_pieces: "binder_turns M Do_Start sid 4 At_Find svc k = binder_method M Do_Start sid svc k"
proof (cases "map_of (mSessions svc) sid")
  case None
  then show ?thesis by (simp add: eval_nat_numeral binder_turn_def binder_method_def EffectService_start_def)
next
  case (Some s)
  obtain bad k1 where "take_fault k = (bad, k1)" by fastforce
  then show ?thesis using Some
    by (cases "ctx_running s"; cases bad; cases "processingThread s = Not_Joinable")
      (simp_all add: eval_nat_numeral binder_turn_def session_turn_def binder_method_def EffectService_start_def Let_def)
qed

lemma stop_pieces: "binder_turns M Do_Stop sid 5 At_Find svc k = binder_method M Do_Stop sid svc k"
proof (cases "map_of (mSessions svc) sid")
  case None
  then show ?thesis by (simp add: eval_nat_numeral binder_turn_def binder_method_def EffectService_stop_def)
next
  case (Some s)
  show ?thesis
  proof (cases "processingThread s = Not_Joinable")
    case True
    then show ?thesis using Some
      by (simp add: eval_nat_numeral binder_turn_def session_turn_def binder_method_def EffectService_stop_def after_join_def
          join_nothing)
  next
    case False
    then show ?thesis using Some
      by (cases "thread_join (s\<lparr>ctx_running := False\<rparr>) k")
        (auto simp: eval_nat_numeral binder_turn_def session_turn_def binder_method_def EffectService_stop_def after_join_def)
  qed
qed

lemma close_pieces: "binder_turns M Do_Close sid 6 At_Find svc k = binder_method M Do_Close sid svc k"
proof (cases "map_of (mSessions svc) sid")
  case None
  then show ?thesis by (simp add: eval_nat_numeral binder_turn_def binder_method_def EffectService_close_def)
next
  case (Some s)
  note defs = eval_nat_numeral binder_turn_def session_turn_def binder_method_def EffectService_close_def closeSession_def after_join_def
  show ?thesis
  proof (cases "processingThread s = Not_Joinable \<or> \<not> ctx_running s")
    case True
    then show ?thesis using Some
      by (cases "ctx_running s"; cases "context_delete M s k"; cases "context_delete M (s\<lparr>ctx_running := False\<rparr>) k")
        (auto simp: defs join_nothing)
  next
    case False
    show ?thesis
    proof (cases "thread_join (s\<lparr>ctx_running := False\<rparr>) k")
      case None
      then show ?thesis using Some False by (simp add: defs)
    next
      case (Some sk)
      then obtain s' k' where j: "thread_join (s\<lparr>ctx_running := False\<rparr>) k = Some (s', k')" by (cases sk) simp
      then show ?thesis using \<open>map_of _ _ = _\<close> False
        by (cases "context_delete M s' k'") (auto simp: defs)
    qed
  qed
qed

lemma binder_turns_add:
  "binder_turns M op sid (m + n) ph svc k = do {
     (ph, svc, k) \<leftarrow> binder_turns M op sid m ph svc k;
     binder_turns M op sid n ph svc k }"
  by (induction m arbitrary: ph svc k) (auto simp: split: Option.bind_split)

lemma binder_method_ends:
  "binder_method M op sid svc k = Some (ph, svc', k') \<Longrightarrow> binder_turns M op' sid' n ph svc' k' = Some (ph, svc', k')"
  by (auto simp: binder_method_def split: binder_op.splits Option.bind_splits sum.splits)

lemma method_and_more: "(do { (ph, svc, k) \<leftarrow> binder_method M op sid svc k; binder_turns M op sid n ph svc k }) = binder_method M op sid svc k"
  by (cases "binder_method M op sid svc k") (auto simp: binder_method_ends)

text \<open>Uninterrupted, the pieces of a call are its method.\<close>

lemma binder_pieces_are_method: "binder_turns M op sid 6 At_Find svc k = binder_method M op sid svc k"
proof -
  have "binder_turns M Do_Start sid (4 + 2) At_Find svc k = binder_method M Do_Start sid svc k"
    and "binder_turns M Do_Stop sid (5 + 1) At_Find svc k = binder_method M Do_Stop sid svc k"
    by (simp_all only: binder_turns_add start_pieces stop_pieces method_and_more)
  then show ?thesis by (cases op) (simp_all add: close_pieces del: binder_turns.simps)
qed

section \<open>Several binder threads\<close>

text \<open>At most one call per session at a time, on any number of sessions; the threads of the sessions and
  the audio HAL go on.\<close>

record 'q binder_system =
  calls :: "u32 \<Rightarrow> (binder_op \<times> binder_phase) option"
  bsvc :: "'q EffectService"
  bker :: kernel

fun call_over :: "(binder_op \<times> binder_phase) option \<Rightarrow> bool" where
  "call_over None = True"
| "call_over (Some (op, Returned r)) = True"
| "call_over (Some (op, Threw e)) = True"
| "call_over _ = False"

inductive binder_step :: "'q mq_ops \<Rightarrow> 'q binder_system \<Rightarrow> 'q binder_system \<Rightarrow> bool" for M where
  begins: "call_over (calls b sid) \<Longrightarrow> binder_step M b (b\<lparr>calls := (calls b)(sid \<mapsto> (op, At_Find))\<rparr>)"
| piece: "calls b sid = Some (op, ph) \<Longrightarrow> binder_turn M op sid ph (bsvc b) (bker b) = Some (ph', svc', k') \<Longrightarrow>
    binder_step M b (b\<lparr>calls := (calls b)(sid \<mapsto> (op, ph')), bsvc := svc', bker := k'\<rparr>)"
| audio: "(\<And>req. e \<noteq> Ask req) \<Longrightarrow> hidl_happens M e (bsvc b) (bker b) = Some (out, svc', k') \<Longrightarrow>
    binder_step M b (b\<lparr>bsvc := svc', bker := k'\<rparr>)"

inductive_cases binder_stepE: "binder_step M b b'"

text \<open>A session while its flag may be clear and its thread not yet joined.\<close>

definition ctx_mid :: "('q \<Rightarrow> bool) \<Rightarrow> 'q EffectSessionContext \<Rightarrow> bool" where
  "ctx_mid good s \<longleftrightarrow> good (ctx_inputFmq s) \<and> good (ctx_outputFmq s) \<and>
     thread_ok (unat (hidl_buffer_size (ctx_config s))) (processingThread s)"

fun call_fits :: "('q \<Rightarrow> bool) \<Rightarrow> (binder_op \<times> binder_phase) option \<Rightarrow> 'q EffectSessionContext option \<Rightarrow> bool" where
  "call_fits good (Some (op, At_Check)) t = (\<exists>s. t = Some s \<and> ctx_ok good s)"
| "call_fits good (Some (op, At_Set)) t = (\<exists>s. t = Some s \<and> ctx_ok good s \<and> \<not> ctx_running s)"
| "call_fits good (Some (op, At_Spawn)) t = (\<exists>s. t = Some s \<and> ctx_ok good s \<and> ctx_running s \<and> processingThread s = Not_Joinable)"
| "call_fits good (Some (op, At_Clear)) t = (\<exists>s. t = Some s \<and> ctx_ok good s \<and> ctx_running s)"
| "call_fits good (Some (op, At_Joinable)) t = (\<exists>s. t = Some s \<and> ctx_mid good s \<and> \<not> ctx_running s)"
| "call_fits good (Some (op, At_Join)) t = (\<exists>s. t = Some s \<and> ctx_mid good s \<and> \<not> ctx_running s \<and> processingThread s \<noteq> Not_Joinable)"
| "call_fits good (Some (op, At_Erase)) t = (\<exists>s. t = Some s \<and> ctx_ok good s \<and> \<not> ctx_running s)"
| "call_fits good _ t = (\<forall>s. t = Some s \<longrightarrow> ctx_ok good s)"

definition binder_ok :: "('q \<Rightarrow> bool) \<Rightarrow> 'q binder_system \<Rightarrow> bool" where
  "binder_ok good b \<longleftrightarrow> (\<forall>sid. call_fits good (calls b sid) (map_of (mSessions (bsvc b)) sid))"

lemma ctx_ok_mid: "ctx_ok good s \<longleftrightarrow> ctx_mid good s \<and> (processingThread s \<noteq> Not_Joinable \<longrightarrow> ctx_running s)"
  by (auto simp: ctx_ok_def ctx_mid_def)

lemma call_over_fits: "call_over c \<Longrightarrow> call_fits good c t \<longleftrightarrow> (\<forall>s. t = Some s \<longrightarrow> ctx_ok good s)"
  by (cases c rule: call_over.cases) auto

lemma join_mid:
  "ctx_mid good s \<Longrightarrow> thread_join s k = Some (s', k') \<Longrightarrow> ctx_mid good s' \<and> processingThread s' = Not_Joinable \<and> ctx_running s' = ctx_running s"
  by (auto simp: thread_join_def ctx_mid_def split: hidl_thread.splits Option.bind_splits)

text \<open>One piece of a call on a session that is as the call expects it.\<close>

lemma piece_fits:
  assumes fits: "call_fits good (Some (op, ph)) (map_of (mSessions svc) sid)"
    and t: "binder_turn M op sid ph svc k = Some (ph', svc', k')"
  shows "call_fits good (Some (op, ph')) (map_of (mSessions svc') sid)"
proof (cases "ph = At_Join")
  case True
  then obtain s where s: "map_of (mSessions svc) sid = Some s" "ctx_mid good s" "\<not> ctx_running s" "processingThread s \<noteq> Not_Joinable"
    using fits by auto
  then obtain s1 where j: "thread_join s k = Some (s1, k')" "ph' = after_join op" "svc' = svc\<lparr>mSessions := AList.update sid s1 (mSessions svc)\<rparr>"
    using t True by (auto simp: binder_turn_def session_turn_def split: Option.bind_splits)
  then show ?thesis using join_mid [OF s(2) j(1)] s(3) by (simp add: after_join_def ctx_ok_mid)
next
  case False
  then show ?thesis using fits t
    by (cases ph; cases op)
      (auto simp: binder_turn_def session_turn_def after_join_def ctx_ok_mid update_conv' delete_conv' Let_def ctx_mid_def
        split: if_splits prod.splits Option.bind_splits option.splits)
qed

lemma piece_other:
  "binder_turn M op sid ph svc k = Some (ph', svc', k') \<Longrightarrow> i \<noteq> sid \<Longrightarrow> map_of (mSessions svc') i = map_of (mSessions svc) i"
  by (cases ph) (auto simp: binder_turn_def session_turn_def update_conv' delete_conv' Let_def
      split: if_splits prod.splits Option.bind_splits option.splits)

text \<open>A piece is only undefined where a starting thread does not get its buffers, and only throws where
  the thread could not be created.\<close>

lemma piece_defined:
  assumes "call_fits good (Some (op, ph)) (map_of (mSessions svc) sid)"
  shows "binder_turn M op sid ph svc k = None \<Longrightarrow>
      \<exists>s. map_of (mSessions svc) sid = Some s \<and> processingThread s = Starting \<and> loop_enter s k = None"
    and "binder_turn M op sid ph svc k = Some (Threw e, svc', k') \<Longrightarrow> ph = At_Spawn \<or> ph = Threw e"
proof -
  show "\<exists>s. map_of (mSessions svc) sid = Some s \<and> processingThread s = Starting \<and> loop_enter s k = None"
    if "binder_turn M op sid ph svc k = None"
    using assms that
    by (cases ph) (auto simp: binder_turn_def session_turn_def ctx_ok_def context_delete_def thread_join_def Let_def
        split: if_splits prod.splits Option.bind_splits hidl_thread.splits)
  show "ph = At_Spawn \<or> ph = Threw e" if "binder_turn M op sid ph svc k = Some (Threw e, svc', k')"
    using assms that
    by (cases ph) (auto simp: binder_turn_def session_turn_def after_join_def Let_def
        split: if_splits prod.splits Option.bind_splits binder_op.splits)
qed

text \<open>The session's thread and the audio HAL change nothing a call relies on.\<close>

definition ctx_steady :: "('q \<Rightarrow> bool) \<Rightarrow> 'q EffectSessionContext \<Rightarrow> 'q EffectSessionContext \<Rightarrow> bool" where
  "ctx_steady good s s' \<longleftrightarrow> (ctx_mid good s \<longrightarrow> ctx_mid good s') \<and> ctx_running s' = ctx_running s \<and>
     (processingThread s' = Not_Joinable \<longleftrightarrow> processingThread s = Not_Joinable)"

lemma steady_fits: "ctx_steady good s s' \<Longrightarrow> call_fits good c (Some s) \<Longrightarrow> call_fits good c (Some s')"
  by (cases "(good, c, Some s)" rule: call_fits.cases) (auto simp: ctx_steady_def ctx_ok_mid)

lemma loop_steady:
  assumes M: "mq_contract M good contents limit b" "mq_room M good contents limit"
    and t: "processingLoop M s k = Some (s', k')"
  shows "ctx_steady good s s'"
proof (cases "\<exists>ib ob. processingThread s = Running ib ob \<and> ctx_running s \<and> ctx_mid good s")
  case True
  then obtain ib ob where r: "processingThread s = Running ib ob" "ctx_running s" "ctx_mid good s" by blast
  then have "ctx_step good b s k s' k'" by (intro loop_step_ok [OF M _ t]) (simp add: ctx_ok_mid)
  then have "ctx_mid good s'" by (simp add: ctx_step_def ctx_ok_mid)
  moreover have "ctx_running s' \<and> processingThread s' \<noteq> Not_Joinable"
    using t r(1,2) by (auto simp: processingLoop_def loop_iteration_def Let_def
        split: Option.bind_splits if_splits option.splits prod.splits)
  ultimately show ?thesis using r by (simp add: ctx_steady_def)
next
  case False
  show ?thesis
  proof (cases "processingThread s")
    case Starting
    then obtain th where e: "loop_enter s k = Some (th, k')" "s' = s\<lparr>processingThread := th\<rparr>"
      using t by (auto simp: processingLoop_def split: Option.bind_splits)
    from e(1) show ?thesis
      by (cases rule: loop_enter_cases) (use e(2) Starting in \<open>auto simp: ctx_steady_def ctx_mid_def\<close>)
  next
    case (Running ib ob)
    show ?thesis
    proof (cases "ctx_running s")
      case True
      then have "\<not> ctx_mid good s" using False Running by blast
      then show ?thesis using t Running True
        by (auto simp: ctx_steady_def processingLoop_def loop_iteration_def Let_def
            split: Option.bind_splits if_splits option.splits prod.splits)
    next
      case False
      then show ?thesis using t Running by (auto simp: ctx_steady_def ctx_mid_def processingLoop_def)
    qed
  qed (use t in \<open>auto simp: ctx_steady_def processingLoop_def\<close>)
qed

lemma audio_fits:
  assumes M: "mq_contract M good contents limit b" "mq_room M good contents limit"
    and e: "hidl_happens M e svc k = Some (out, svc', k')" "\<And>req. e \<noteq> Ask req"
    and fits: "call_fits good c (map_of (mSessions svc) i)"
  shows "call_fits good c (map_of (mSessions svc') i)"
proof -
  have put: "ctx_steady good s (s\<lparr>ctx_inputFmq := q\<rparr>)" if "mq_write M (ctx_inputFmq s) xs = (r, q)" for s xs r q
    using that mq_contractD(3,4) [OF M(1), of "ctx_inputFmq s" xs]
    by (cases "length (contents (ctx_inputFmq s)) + length xs \<le> limit (ctx_inputFmq s)") (auto simp: ctx_steady_def ctx_mid_def)
  have get: "ctx_steady good s (s\<lparr>ctx_outputFmq := q\<rparr>)" if "mq_read M (ctx_outputFmq s) n = Some (xs, q)" for s n xs q
    using that mq_contractD(5,6) [OF M(1), of "ctx_outputFmq s" n]
    by (cases "unat n \<le> length (contents (ctx_outputFmq s))") (auto simp: ctx_steady_def ctx_mid_def)
  have refl: "ctx_steady good s s" for s by (simp add: ctx_steady_def)
  have on: "call_fits good c (map_of (mSessions svc') i)"
    if o1: "on_session sid svc d f k = Some (out, svc', k')"
      and st: "\<And>s x s1 k1. f s = Some (x, s1, k1) \<Longrightarrow> ctx_steady good s s1" for sid d f
  proof (cases "map_of (mSessions svc) sid")
    case None
    then show ?thesis using o1 fits by (simp add: on_session_def)
  next
    case (Some s)
    then obtain s1 where s1: "f s = Some (out, s1, k')" "svc' = svc\<lparr>mSessions := AList.update sid s1 (mSessions svc)\<rparr>"
      using o1 by (auto simp: on_session_def split: Option.bind_splits)
    show ?thesis using fits steady_fits [OF st [OF s1(1)], of c] Some by (cases "i = sid") (auto simp: s1(2) update_conv')
  qed
  show ?thesis
  proof (cases e)
    case (Thread_Turn sid)
    then show ?thesis using e(1) by (intro on) (auto intro: loop_steady [OF M] split: Option.bind_splits)
  next
    case (Put sid xs)
    then show ?thesis using e(1) by (intro on) (auto intro: put split: prod.splits)
  next
    case (Get sid n)
    then show ?thesis using e(1) by (intro on) (auto intro: get refl split: option.splits)
  qed (use e(2) in simp)
qed

lemma step_fits:
  assumes M: "mq_contract M good contents limit b" "mq_room M good contents limit"
    and "binder_step M x y" and ok: "binder_ok good x"
  shows "binder_ok good y"
proof (cases rule: binder_stepE [OF assms(3), case_names begins piece audio])
  case (begins sid op)
  have "call_fits good (calls y i) (map_of (mSessions (bsvc x)) i)" for i
    using ok begins call_over_fits [OF begins(2), of good "map_of (mSessions (bsvc x)) sid"]
    unfolding binder_ok_def by (cases "i = sid") (auto dest: spec [of _ sid])
  then show ?thesis using begins(1) by (simp add: binder_ok_def)
next
  case (piece sid op ph ph' svc' k')
  have "call_fits good (Some (op, ph)) (map_of (mSessions (bsvc x)) sid)" using ok piece(2) by (metis binder_ok_def)
  note this_fits = piece_fits [OF this piece(3)]
  have "call_fits good (calls y i) (map_of (mSessions svc') i)" for i
    using ok this_fits piece_other [OF piece(3), of i] by (cases "i = sid") (simp_all add: piece(1) binder_ok_def)
  then show ?thesis using piece(1) by (simp add: binder_ok_def)
next
  case (audio e out svc' k')
  have "call_fits good (calls x i) (map_of (mSessions svc') i)" for i
    by (rule audio_fits [OF M audio(3,2)]) (use ok in \<open>simp add: binder_ok_def\<close>)
  then show ?thesis using audio(1) by (simp add: binder_ok_def)
qed

lemma steps_fit:
  assumes "mq_contract M good contents limit b" and "mq_room M good contents limit"
    and "(binder_step M)\<^sup>*\<^sup>* x y" and "binder_ok good x"
  shows "binder_ok good y"
  using assms(3,4) by (induction rule: rtranclp_induct) (auto intro: step_fits [OF assms(1,2)])

section \<open>Two calls on one session\<close>

text \<open>A schedule says who takes each turn: the first call (\<open>False\<close>) or the second.\<close>

fun binder_race ::
  "'q mq_ops \<Rightarrow> binder_op \<Rightarrow> binder_op \<Rightarrow> u32 \<Rightarrow> bool list \<Rightarrow> binder_phase \<Rightarrow> binder_phase \<Rightarrow> 'q EffectService \<Rightarrow> kernel \<Rightarrow>
   (binder_phase \<times> binder_phase \<times> 'q EffectService \<times> kernel) option" where
  "binder_race M op1 op2 sid [] p1 p2 svc k = Some (p1, p2, svc, k)"
| "binder_race M op1 op2 sid (False # w) p1 p2 svc k = do {
     (p1, svc, k) \<leftarrow> binder_turn M op1 sid p1 svc k;
     binder_race M op1 op2 sid w p1 p2 svc k }"
| "binder_race M op1 op2 sid (True # w) p1 p2 svc k = do {
     (p2, svc, k) \<leftarrow> binder_turn M op2 sid p2 svc k;
     binder_race M op1 op2 sid w p1 p2 svc k }"

section \<open>Properties\<close>



text \<open>C33. Two calls on one session do: while its thread runs, two stops can both see it running, and the second
  join throws out of the method; a start can find the flag cleared by a stop that has not joined yet, and
  assigning the new thread over the old one terminates the service; a close can take the session away
  under a stop, which then writes to freed memory.\<close>

theorem binder_calls_on_one_session_race:
  assumes "map_of (mSessions svc) sid = Some s" and "ctx_running s" and "processingThread s = Running ib ob"
    and "\<not> fst (take_fault k)"
  shows "(\<exists>w svc' k'. binder_race M Do_Stop Do_Stop sid w At_Find At_Find svc k = Some (Returned OK, Threw System_Error, svc', k')) \<and>
    (\<exists>w. binder_race M Do_Stop Do_Start sid w At_Find At_Find svc k = None) \<and>
    (\<exists>w. binder_race M Do_Stop Do_Close sid w At_Find At_Find svc k = None)"
proof -
  obtain k1 where f: "take_fault k = (False, k1)" using assms(4) by (cases "take_fault k") auto
  note defs = binder_turn_def session_turn_def after_join_def thread_join_def assms(1-3) f
  have "\<exists>svc' k'. binder_race M Do_Stop Do_Stop sid [False, False, True, True, False, True, False, True, False, True] At_Find At_Find svc k =
      Some (Returned OK, Threw System_Error, svc', k')"
    by (simp add: defs)
  moreover have "binder_race M Do_Stop Do_Start sid [False, False, False, True, True, True, True] At_Find At_Find svc k = None"
    by (simp add: defs)
  moreover have "binder_race M Do_Stop Do_Close sid [False, False, True, True, True, True, True, True, False] At_Find At_Find svc k = None"
    by (simp add: defs context_delete_def delete_conv')
  ultimately show ?thesis by blast
qed

theorem binder_calls_on_one_session_race_witness:
  "(\<exists>w. binder_race list_mq Do_Stop Do_Start 7 w At_Find At_Find tiny_service (fresh_kernel []) = None) \<and>
   (\<exists>w. binder_race list_mq Do_Stop Do_Close 7 w At_Find At_Find tiny_service (fresh_kernel []) = None)"
proof -
  have "map_of (mSessions tiny_service) 7 = Some tiny_context" "ctx_running tiny_context"
    "processingThread tiny_context = Running [0, 0] [0, 0]" "\<not> fst (take_fault (fresh_kernel []))"
    by (simp_all add: tiny_service_def tiny_context_def take_fault_def fresh_kernel_def)
  from binder_calls_on_one_session_race [OF this] show ?thesis by blast
qed

end
