(* ===== verification/EffectdMain.thy ===== *)
theory EffectdMain
  imports Main
begin

text \<open>
  \<open>effectd/src/main.c\<close>: the main program of the daemon, which installs its signal handlers and
  sleeps until one of them clears \<open>keep_running\<close>. Logging is not modelled. The signals that arrive
  are the input: \<open>sigs i\<close> lists, in order, those delivered between the test of \<open>keep_running\<close> in
  round \<open>i\<close> and the next. A program that never returns is \<open>None\<close>.
\<close>

section \<open>Signals\<close>

datatype signum = SIGTERM | SIGINT | SIGPIPE | SIGCHLD | SIGWINCH | SIGHUP | SIGSEGV | SIGKILL | SIGSTOP

datatype disposition = SIG_DFL | SIG_IGN | Handler "int \<Rightarrow> int"

text \<open>What the default disposition does: a stop only delays, since what comes after it is a
  continuation or a kill; the others end the process or are ignored.\<close>

fun default_kills :: "signum \<Rightarrow> bool" where
  "default_kills SIGCHLD = False"
| "default_kills SIGWINCH = False"
| "default_kills SIGSTOP = False"
| "default_kills _ = True"

text \<open>The kernel keeps two signals from being handled or ignored.\<close>

fun catchable :: "signum \<Rightarrow> bool" where
  "catchable SIGKILL = False"
| "catchable SIGSTOP = False"
| "catchable _ = True"

datatype exit_status = Exited int | Killed signum

record process =
  keep_running :: int
  dispositions :: "signum \<Rightarrow> disposition"

text \<open>The handler's effect on \<open>keep_running\<close>, and the calls of \<open>signal\<close> at the start.\<close>

definition signal_handler :: "int \<Rightarrow> int" where
  "signal_handler running = 0"

definition sys_signal :: "signum \<Rightarrow> disposition \<Rightarrow> process \<Rightarrow> process" where
  "sys_signal s d p = (if catchable s then p\<lparr>dispositions := (dispositions p)(s := d)\<rparr> else p)"

definition setup_signal_handlers :: "process \<Rightarrow> process" where
  "setup_signal_handlers p =
     sys_signal SIGPIPE SIG_IGN (sys_signal SIGINT (Handler signal_handler) (sys_signal SIGTERM (Handler signal_handler) p))"

text \<open>Delivery of one signal, and of several.\<close>

definition deliver :: "signum \<Rightarrow> process \<Rightarrow> signum + process" where
  "deliver s p =
     (case dispositions p s of
        SIG_DFL \<Rightarrow> if default_kills s then Inl s else Inr p
      | SIG_IGN \<Rightarrow> Inr p
      | Handler h \<Rightarrow> Inr (p\<lparr>keep_running := h (keep_running p)\<rparr>))"

fun deliver_all :: "signum list \<Rightarrow> process \<Rightarrow> signum + process" where
  "deliver_all [] p = Inr p"
| "deliver_all (s # ss) p = (case deliver s p of Inl d \<Rightarrow> Inl d | Inr p' \<Rightarrow> deliver_all ss p')"

section \<open>The program\<close>

text \<open>\<open>while (keep_running) sleep(1)\<close>; a handled signal ends the sleep early.\<close>

partial_function (option) main_loop :: "(nat \<Rightarrow> signum list) \<Rightarrow> nat \<Rightarrow> process \<Rightarrow> exit_status option" where
  "main_loop sigs i p =
     (if keep_running p = 0 then Some (Exited 0)
      else case deliver_all (sigs i) p of
        Inl s \<Rightarrow> Some (Killed s)
      | Inr p' \<Rightarrow> main_loop sigs (Suc i) p')"

definition initial_process :: process where
  "initial_process = \<lparr>keep_running = 1, dispositions = (\<lambda>s. SIG_DFL)\<rparr>"

text \<open>\<open>early\<close> are the signals that arrive before the handlers are installed.\<close>

definition effectd_main :: "signum list \<Rightarrow> (nat \<Rightarrow> signum list) \<Rightarrow> exit_status option" where
  "effectd_main early sigs =
     (case deliver_all early initial_process of
        Inl s \<Rightarrow> Some (Killed s)
      | Inr p \<Rightarrow> main_loop sigs 0 (setup_signal_handlers p))"

section \<open>The loop\<close>

definition lethal :: "signum \<Rightarrow> bool" where
  "lethal s \<longleftrightarrow> s \<in> {SIGHUP, SIGSEGV, SIGKILL}"

definition stopping :: "signum \<Rightarrow> bool" where
  "stopping s \<longleftrightarrow> s \<in> {SIGTERM, SIGINT}"

text \<open>A process with its handlers installed, and the value of \<open>keep_running\<close>.\<close>

definition running :: "int \<Rightarrow> process" where
  "running n = \<lparr>keep_running = n, dispositions = ((\<lambda>s. SIG_DFL)
     (SIGTERM := Handler signal_handler, SIGINT := Handler signal_handler, SIGPIPE := SIG_IGN))\<rparr>"

lemma deliver_running: "deliver s (running n) = (if lethal s then Inl s else Inr (running (if stopping s then 0 else n)))"
  by (cases s) (simp_all add: deliver_def running_def lethal_def stopping_def signal_handler_def)

lemma deliver_all_running:
  "deliver_all ss (running n) =
    (case filter lethal ss of
       d # _ \<Rightarrow> Inl d
     | [] \<Rightarrow> Inr (running (if \<exists>s \<in> set ss. stopping s then 0 else n)))"
proof (induction ss arbitrary: n)
  case (Cons s ss)
  then show ?case by (auto simp: deliver_running split: list.split)
qed simp

lemma loop_stopped: "main_loop sigs i (running 0) = Some (Exited 0)"
  by (subst main_loop.simps) (simp add: running_def)

lemma loop_step:
  "main_loop sigs i (running 1) =
    (case filter lethal (sigs i) of
       d # _ \<Rightarrow> Some (Killed d)
     | [] \<Rightarrow> if \<exists>s \<in> set (sigs i). stopping s then Some (Exited 0) else main_loop sigs (Suc i) (running 1))"
proof -
  have "keep_running (running 1) \<noteq> 0" by (simp add: running_def)
  then show ?thesis
    by (subst main_loop.simps) (auto simp: deliver_all_running loop_stopped split: list.split)
qed

text \<open>Rounds without a signal that ends the program pass by.\<close>

lemma loop_skip:
  "\<forall>j < n. \<forall>s \<in> set (sigs (i + j)). \<not> lethal s \<and> \<not> stopping s \<Longrightarrow>
    main_loop sigs i (running 1) = main_loop sigs (i + n) (running 1)"
proof (induction n)
  case (Suc n)
  have "filter lethal (sigs (i + n)) = []" and "\<not> (\<exists>s \<in> set (sigs (i + n)). stopping s)"
    using Suc.prems by (auto simp: filter_empty_conv)
  then have "main_loop sigs (i + n) (running 1) = main_loop sigs (i + Suc n) (running 1)"
    by (subst loop_step) simp
  moreover have "main_loop sigs i (running 1) = main_loop sigs (i + n) (running 1)"
    using Suc.prems by (intro Suc.IH) (blast intro: less_SucI)
  ultimately show ?case by simp
qed simp

text \<open>If no such signal ever comes the loop does not return.\<close>

lemma loop_returns:
  assumes "main_loop sigs i (running 1) = Some r"
  shows "\<exists>n. \<exists>s \<in> set (sigs (i + n)). lethal s \<or> stopping s"
proof -
  have "p = running 1 \<longrightarrow> (\<exists>n. \<exists>s \<in> set (sigs (i + n)). lethal s \<or> stopping s)" if "main_loop sigs i p = Some r" for p
  proof (rule main_loop.raw_induct [OF _ that], intro impI)
    fix rec :: "(nat \<Rightarrow> signum list) \<Rightarrow> nat \<Rightarrow> process \<Rightarrow> exit_status option"
    fix sigs i p y
    assume IH: "\<And>sigs i p y. rec sigs i p = Some y \<Longrightarrow>
        p = running 1 \<longrightarrow> (\<exists>n. \<exists>s \<in> set (sigs (i + n)). lethal s \<or> stopping s)"
      and body: "(if keep_running p = 0 then Some (Exited 0)
        else case deliver_all (sigs i) p of Inl s \<Rightarrow> Some (Killed s) | Inr p' \<Rightarrow> rec sigs (Suc i) p') = Some y"
      and p: "p = running 1"
    show "\<exists>n. \<exists>s \<in> set (sigs (i + n)). lethal s \<or> stopping s"
    proof (cases "\<exists>s \<in> set (sigs i). lethal s \<or> stopping s")
      case True
      then show ?thesis by (metis add_0_right)
    next
      case False
      have kr: "keep_running (running 1) \<noteq> 0" by (simp add: running_def)
      have "filter lethal (sigs i) = []" and "\<not> (\<exists>s \<in> set (sigs i). stopping s)"
        using False by (auto simp: filter_empty_conv)
      then have "deliver_all (sigs i) (running 1) = Inr (running 1)" by (simp add: deliver_all_running)
      then have "rec sigs (Suc i) (running 1) = Some y" using body p kr by simp
      then obtain n where "\<exists>s \<in> set (sigs (Suc i + n)). lethal s \<or> stopping s" using IH by blast
      then show ?thesis by (metis add_Suc_shift)
    qed
  qed
  then show ?thesis using assms by blast
qed

lemma setup_running: "deliver_all early initial_process = Inr p \<Longrightarrow> setup_signal_handlers p = running 1"
proof -
  have "deliver_all early initial_process = Inr p \<Longrightarrow> p = initial_process"
  proof (induction early)
    case (Cons s early)
    then show ?case by (cases s) (auto simp: deliver_def initial_process_def)
  qed simp
  then show "deliver_all early initial_process = Inr p \<Longrightarrow> setup_signal_handlers p = running 1"
    by (simp add: setup_signal_handlers_def sys_signal_def initial_process_def running_def fun_upd_twist)
qed

section \<open>Property\<close>

text \<open>C29. Once its handlers are installed the daemon leaves its loop with status \<open>0\<close> exactly when a
  \<open>SIGTERM\<close> or \<open>SIGINT\<close> arrives in a round by whose end no signal has killed it, broken pipes and the other
  harmless signals notwithstanding; and it runs for ever exactly when neither kind ever arrives.\<close>
theorem effectd_main_terminates:
  assumes "\<forall>s \<in> set early. \<not> default_kills s"
  shows "(effectd_main early sigs = Some (Exited 0) \<longleftrightarrow>
      (\<exists>n. (\<exists>s \<in> set (sigs n). stopping s) \<and> (\<forall>j \<le> n. \<forall>s \<in> set (sigs j). \<not> lethal s))) \<and>
    (effectd_main early sigs = None \<longleftrightarrow> (\<forall>n. \<forall>s \<in> set (sigs n). \<not> lethal s \<and> \<not> stopping s))"
proof -
  have "\<exists>p. deliver_all early initial_process = Inr p"
    using assms by (induction early) (auto simp: deliver_def initial_process_def)
  then obtain p where "deliver_all early initial_process = Inr p" ..
  then have main: "effectd_main early sigs = main_loop sigs 0 (running 1)"
    using setup_running by (simp add: effectd_main_def)
  show ?thesis
  proof (cases "\<exists>n. \<exists>s \<in> set (sigs n). lethal s \<or> stopping s")
    case False
    then have "main_loop sigs 0 (running 1) = None" using loop_returns [of sigs 0] by fastforce
    then show ?thesis using False main by auto
  next
    case True
    define n where "n = (LEAST n. \<exists>s \<in> set (sigs n). lethal s \<or> stopping s)"
    have n: "\<exists>s \<in> set (sigs n). lethal s \<or> stopping s" unfolding n_def using True by (rule LeastI_ex)
    have before: "\<forall>j < n. \<forall>s \<in> set (sigs j). \<not> lethal s \<and> \<not> stopping s"
      unfolding n_def using not_less_Least by blast
    then have loop: "effectd_main early sigs = main_loop sigs n (running 1)"
      using main loop_skip [of n sigs 0] by simp
    show ?thesis
    proof (cases "\<exists>s \<in> set (sigs n). lethal s")
      case True
      then obtain d ds where "filter lethal (sigs n) = d # ds" by (metis filter_empty_conv neq_Nil_conv)
      then have "effectd_main early sigs = Some (Killed d)" unfolding loop by (subst loop_step) simp
      moreover have "\<not> (\<exists>m. (\<exists>s \<in> set (sigs m). stopping s) \<and> (\<forall>j \<le> m. \<forall>s \<in> set (sigs j). \<not> lethal s))"
        using True before by (meson not_le_imp_less)
      ultimately show ?thesis using True by auto
    next
      case no: False
      then have "filter lethal (sigs n) = []" by (simp add: filter_empty_conv)
      moreover have "\<exists>s \<in> set (sigs n). stopping s" using n no by blast
      ultimately have "effectd_main early sigs = Some (Exited 0)" unfolding loop by (subst loop_step) simp
      moreover have "\<forall>j \<le> n. \<forall>s \<in> set (sigs j). \<not> lethal s" using before no by (metis le_neq_implies_less)
      ultimately show ?thesis using n no by auto
    qed
  qed
qed

text \<open>A broken pipe in the first round, an interrupt in the third.\<close>

theorem effectd_main_terminates_witness:
  "effectd_main [SIGCHLD] (\<lambda>i. if i = 0 then [SIGPIPE] else if i = 2 then [SIGINT] else []) = Some (Exited 0)"
proof -
  let ?sigs = "\<lambda>i :: nat. if i = 0 then [SIGPIPE] else if i = 2 then [SIGINT] else []"
  have early: "\<forall>s \<in> set [SIGCHLD]. \<not> default_kills s" by simp
  have "(\<exists>s \<in> set (?sigs 2). stopping s) \<and> (\<forall>j \<le> 2. \<forall>s \<in> set (?sigs j). \<not> lethal s)"
    by (simp add: stopping_def lethal_def)
  then show ?thesis by (rule effectd_main_terminates [OF early, THEN conjunct1, THEN iffD2, OF exI])
qed

end
