(* ===== verification/Spec2Isabelle.thy ===== *)
theory Spec2Isabelle
  imports Spsc RingTests SharedMemory Fmq ClientLife ShmClient SessionLife ShmSession Lifecycle System Overrun
    Interleaved HalIntegration Isolation HidlService HidlInterface HidlStream Binder EffectdMain
begin

text \<open>
  \<^bold>\<open>What the program is.\<close> Audio effects run in a daemon (\<open>effectd\<close>) apart from the audio HAL, so that
  a crash of an effect library does not take the HAL with it. The HAL links the client library; blocks
  of audio go to the daemon through one queue and come back through another, and an event
  descriptor per direction wakes the other side. The queues are Android's fast message queues or, in the
  fallback, ring buffers; an older build shares memory instead of queues.

  \<^bold>\<open>Parts, theories and sources.\<close> Every definition that models code has the name of the function or type
  where it can; a parameter \<open>k\<close> or a component \<open>kernel\<close> is the state of the operating system.

  \<^item> \<open>Prelude\<close>: words of 32 and 64 bits, byte memory with checked \<open>memcpy\<close>, shared lemmas.
    \<open>Circular\<close>: reading and writing a circular region. \<open>ByteQueue\<close>: the locale of a bounded
    first-in first-out byte queue, with its history theorem.
  \<^item> \<open>RingBuffer\<close> (\<open>common/src/effect_ringbuffer.c\<close>): the seven operations; 64-bit indices that never
    reset, positions modulo a 32-bit capacity. It interprets \<open>ByteQueue\<close> for capacities that are a power of
    two; for others the counter wrap is shown to corrupt data. \<open>RingTests\<close>: every sequence of calls
    against a list with a bound, and the unit tests of \<open>tests/unit/test_ringbuffer.c\<close> run on the model.
  \<^item> \<open>Spsc\<close>: the same write and read as two threads, interleaved at every access to an index and
    every byte copied. The invariant ties indices to positions of the byte stream; it gives first-in first-out
    order and the absence of data races, and a call that is not interrupted is the operation of
    \<open>RingBuffer\<close>.
  \<^item> \<open>SharedMemory\<close> (\<open>common/src/effect_shared_memory.c\<close>): descriptors, files, mappings, event counters
    and heap blocks as a record \<open>kernel\<close>, with a list of faults that makes any call fail; the
    creation and mapping of shared memory, event signals and waits.
  \<^item> \<open>Fmq\<close> (\<open>common/src/effect_fmq.cpp\<close>): both implementations of the queue wrapper. The functions a user
    links against are a record \<open>fmq_api\<close> and what users rely on is the locale \<open>fmq_backend\<close>,
    interpreted on the fallback over the ring buffer. The class \<open>MessageQueue\<close> is not under the sources: its
    operations are a parameter \<open>mq_ops\<close> and its documented behaviour the hypothesis \<open>mq_contract\<close>,
    under which the Android implementation is an \<open>fmq_backend\<close> too; a bounded list keeps the contract.
  \<^item> \<open>Audio\<close>, \<open>Stats\<close>: the format and the statistics that client and daemon have in common.
  \<^item> \<open>Client\<close>, \<open>ClientLife\<close> (\<open>client/src/effect_client.c\<close> with \<open>USE_FMQ\<close>): the seven functions over
    any \<open>fmq_backend\<close>; one call of \<open>EffectClient_Process\<close> in four outcomes (\<open>process_cases\<close>);
    whole lives of a session. \<open>ShmClient\<close>: the build over shared memory.
  \<^item> \<open>Session\<close>, \<open>SessionLife\<close> (\<open>effectd/src/effectd_session.c\<close>): the calls on a session, its processing
    thread as a value, and the interleaving of calls, thread turns and the client as the step relation
    \<open>server_step\<close> with its invariant. \<open>ShmSession\<close>: the loop of the other build. \<open>Lifecycle\<close>: the
    automaton of session states, its order, and the refinement of \<open>server_step\<close> to it.
  \<^item> \<open>System\<close>: client and daemon over the same queues, call by call, the service answering in time,
    too late or not at all; the abstract \<open>delay_line\<close> is their specification. \<open>Overrun\<close>: what a call
    leaves in a fallback queue that has no room for its block.
  \<^item> \<open>Pieces\<close>: a client call and an iteration of the daemon cut at every access to a queue or event
    (\<open>client_turn\<close>, \<open>service_turn\<close>), and that the pieces in a row are the functions of \<open>Client\<close> and
    \<open>Session\<close>. \<open>Interleaved\<close>: the two as threads, any piece of either next (\<open>pair_step\<close>), with the
    invariant \<open>pair_ok\<close>.
  \<^item> \<open>HalIntegration\<close> (\<open>examples/hal_integration.c\<close>): the HAL's context, its fall-back to passthrough, and
    the example program. \<open>Isolation\<close>: the HAL over the client, with a daemon that dies at any point.
    \<open>HidlService\<close> (\<open>examples/hidl_service_fmq_example.cpp\<close>): the table of sessions of
    the HIDL service, one method at a time. \<open>EffectdMain\<close> (\<open>effectd/src/main.c\<close>): signals and the main loop.
  \<^item> \<open>HidlInterface\<close> (\<open>hidl/1.0/IEffectService.hal\<close>, \<open>types.hal\<close>): the requests and replies of the
    interface, the service's answer to each, and the table a client sees as specification, refined
    for every sequence of events. \<open>HidlStream\<close>: the audio of one session in such a sequence.
    \<open>Binder\<close>: start, stop and close from several binder threads, cut at every access they share
    (\<open>binder_turn\<close>), with the processing threads beside them; the pieces in a row are the methods.

  \<^bold>\<open>What the theorems show.\<close> Ring buffer and queues: every history is first-in first-out, sequentially
  and concurrently, and where it is not (a capacity that is no power of two, a size of \<open>2 ^ 32\<close>).
  Client: no undefined behaviour whatever the service does, a time-out means the input was passed
  through, each call is accounted once, opening is all or nothing, closing gives everything
  back. Daemon: the thread exists exactly while the session is started, ends within two
  turns once told to, moves whole buffers, and its state only moves forward along the automaton.
  System: client and daemon refine a delay line under every schedule, and each
  missed deadline delays all later audio by a block; as threads they lose, repeat and reorder nothing but
  what finds no room, the client is never locked out, and a call is the same function in every
  interleaving; an overrun in the fallback cuts every later block in the middle. HAL and HIDL
  example: a crash of the daemon is contained, the fall-back counts as a leaky bucket, no state leaks,
  and the ways in which each can go wrong. HIDL service: it refines the table of its interface; session
  numbers differ until the 32-bit counter wraps; a session's output is its input in order, whatever is done
  to the others; a start that fails leaves a session that never processes; binder threads on
  different sessions do not get in each other's way, two on one session can end the process.

  \<^bold>\<open>Bounds and fuel.\<close> Machine integers keep their width: indices and sizes are \<open>u64\<close>, capacities, byte
  counts, latencies and counters \<open>u32\<close>, and their wrap-around is part of the statements. The queues of a
  session hold \<open>2 ^ 20\<close> bytes, a power of two, which is why the indices may wrap. No definition
  uses fuel: loops of the sources run over given lists of events, thread by thread one turn at a
  time, and the daemon's main loop is a partial function whose \<open>None\<close> is the loop that never ends.

  \<^bold>\<open>Modelling decisions.\<close> A critical section of the statistics mutex is one step. Memory accesses
  take effect in one order that all threads see, as release and acquire give for code without races;
  \<open>Spsc\<close> proves that absence. A copy out of bounds, a division by zero and \<open>std::terminate\<close> are \<open>None\<close>. Bytes
  not written yet are zero where no result depends on them. Time is an input: each call is given what the
  clock returns. The other side of a queue is a parameter (\<open>peer\<close>) run in the gaps of a call.

  \<^bold>\<open>Not modelled.\<close> Logging and the text of what is printed; thread priorities and the pause in the
  placeholder effect; dynamic loading, which no code reaches; the shared memory and event handles in the
  HIDL interface, which no code passes; \<open>open\<close> of the HIDL service beside other binder calls (its race on the
  inside of \<open>std::map\<close>); build files, policies and start-up script.
\<close>

end
